(* ===== verification/Prelude.thy ===== *)
theory Prelude
  imports Main "HOL-Library.Word"
begin

text \<open>
  Shared types and facts of the development: bytes and byte strings, big-endian integers as
  the code reads and writes them with htons, ntohs and htonll, bit tests on a single byte,
  and list lemmas used by several components.
\<close>

unbundle bit_operations_syntax

type_synonym byte = "8 word"
type_synonym bytes = "byte list"
type_synonym u16 = "16 word"
type_synonym u32 = "32 word"
type_synonym u64 = "64 word"

text \<open>
  Two collections carry the proofs of the components: \<open>byte_simps\<close> turns bit tests on a
  byte into comparisons, \<open>codec_simps\<close> holds the round trips of the encoders.
\<close>

named_theorems byte_simps
named_theorems codec_simps

section \<open>Bits and ranges of one byte\<close>

text \<open>Two bytes are equal when their eight bits are.\<close>

lemma byte_eq_iff:
  fixes a b :: byte
  shows "a = b \<longleftrightarrow> (bit a 0 = bit b 0 \<and> bit a 1 = bit b 1 \<and> bit a 2 = bit b 2 \<and> bit a 3 = bit b 3
    \<and> bit a 4 = bit b 4 \<and> bit a 5 = bit b 5 \<and> bit a 6 = bit b 6 \<and> bit a 7 = bit b 7)"
    (is "_ \<longleftrightarrow> ?bits")
proof
  assume bits: ?bits
  show "a = b"
  proof (rule bit_word_eqI)
    fix n assume "n < LENGTH(8)"
    then consider "n = 0" | "n = 1" | "n = 2" | "n = 3" | "n = 4" | "n = 5" | "n = 6" | "n = 7"
      by (simp, arith)
    then show "bit a n = bit b n" by cases (use bits in simp_all)
  qed
qed simp

lemma byte_bit_ge [simp]: "8 \<le> n \<Longrightarrow> \<not> bit (b::byte) n"
  using bit_imp_le_length [of b n] by auto

lemma unat_byte_less [simp]: "unat (b::byte) < 256"
  using unsigned_less [of b] by simp

lemma unat_of_small: "n < 256 \<Longrightarrow> unat (word_of_nat n :: byte) = n"
  by (simp add: unat_of_nat)

lemmas byte_nat_simps = word_less_nat_alt word_le_nat_alt word_unat_eq_iff unat_of_small

lemma byte_split:
  assumes "k \<le> unat (b::byte)"
  obtains m where "unat b = k + m" "b = word_of_nat (k + m)"
proof
  show "unat b = k + (unat b - k)" using assms by simp
  have "word_of_nat (unat b) = b" by simp
  then show "b = word_of_nat (k + (unat b - k))"
    using assms by (simp only: le_add_diff_inverse)
qed

lemma unat_drop_bit_div: "unat (drop_bit k (b::byte)) = unat b div 2 ^ k"
proof -
  have "unat (drop_bit k b) = drop_bit k (unat b)" by (rule unat_drop_bit_eq)
  then show ?thesis by (simp add: drop_bit_eq_div)
qed

lemma drop_bit_eq_iff: "drop_bit k (b::byte) = c \<longleftrightarrow> unat b div 2 ^ k = unat c"
  by (simp only: word_unat_eq_iff unat_drop_bit_div)

lemma high3_is_6 [byte_simps]: "drop_bit 5 b = (6::byte) \<longleftrightarrow> 0xC0 \<le> b \<and> b \<le> 0xDF"
  unfolding drop_bit_eq_iff word_le_nat_alt by (simp, arith)

lemma high4_is_14 [byte_simps]: "drop_bit 4 b = (14::byte) \<longleftrightarrow> 0xE0 \<le> b \<and> b \<le> 0xEF"
  unfolding drop_bit_eq_iff word_le_nat_alt by (simp, arith)

lemma high5_is_30 [byte_simps]: "drop_bit 3 b = (30::byte) \<longleftrightarrow> 0xF0 \<le> b \<and> b \<le> 0xF7"
  unfolding drop_bit_eq_iff word_le_nat_alt by (simp, arith)

lemma high2_is_2 [byte_simps]: "drop_bit 6 b = (2::byte) \<longleftrightarrow> 0x80 \<le> b \<and> b \<le> 0xBF"
  unfolding drop_bit_eq_iff word_le_nat_alt by (simp, arith)

text \<open>A test with a mask of high bits is the test of the shifted byte.\<close>

lemma mask_C0_80 [byte_simps]: "b AND 0xC0 = (0x80::byte) \<longleftrightarrow> 0x80 \<le> b \<and> b \<le> 0xBF"
proof -
  have "b AND 0xC0 = (0x80::byte) \<longleftrightarrow> drop_bit 6 b = (2::byte)"
    by (simp add: byte_eq_iff bit_simps) 
  then show ?thesis by (simp only: high2_is_2)
qed

lemma mask_E0_C0 [byte_simps]: "b AND 0xE0 = (0xC0::byte) \<longleftrightarrow> 0xC0 \<le> b \<and> b \<le> 0xDF"
proof -
  have "b AND 0xE0 = (0xC0::byte) \<longleftrightarrow> drop_bit 5 b = (6::byte)"
    by (simp add: byte_eq_iff bit_simps)
  then show ?thesis by (simp only: high3_is_6)
qed

lemma mask_F0_E0 [byte_simps]: "b AND 0xF0 = (0xE0::byte) \<longleftrightarrow> 0xE0 \<le> b \<and> b \<le> 0xEF"
proof -
  have "b AND 0xF0 = (0xE0::byte) \<longleftrightarrow> drop_bit 4 b = (14::byte)"
    by (simp add: byte_eq_iff bit_simps)
  then show ?thesis by (simp only: high4_is_14)
qed

lemma mask_F8_F0 [byte_simps]: "b AND 0xF8 = (0xF0::byte) \<longleftrightarrow> 0xF0 \<le> b \<and> b \<le> 0xF7"
proof -
  have "b AND 0xF8 = (0xF0::byte) \<longleftrightarrow> drop_bit 3 b = (30::byte)"
    by (simp add: byte_eq_iff bit_simps)
  then show ?thesis by (simp only: high5_is_30)
qed

lemma mask_80_0 [byte_simps]: "b AND 0x80 = (0::byte) \<longleftrightarrow> b < 0x80"
proof -
  have "b AND 0x80 = (0::byte) \<longleftrightarrow> drop_bit 7 b = (0::byte)"
    by (simp add: byte_eq_iff bit_simps)
  also have "\<dots> \<longleftrightarrow> b < 0x80"
    unfolding drop_bit_eq_iff word_less_nat_alt by (simp, arith)
  finally show ?thesis .
qed

section \<open>Base 64 digits of a number\<close>

lemma div_mod_64:
  fixes p q :: nat
  assumes "p < 64"
  shows "(64 * q + p) div 64 = q" "(64 * q + p) mod 64 = p"
  using assms by simp_all

section \<open>Codecs\<close>

definition to_option :: "'e + 'a \<Rightarrow> 'a option" where
  "to_option r = (case r of Inl _ \<Rightarrow> None | Inr x \<Rightarrow> Some x)"

lemma to_option_Some: "to_option r = Some x \<longleftrightarrow> r = Inr x"
  by (cases r) (auto simp: to_option_def)

text \<open>An encoder that returns on its domain, and a decoder that undoes it there.\<close>

locale codec =
  fixes dom :: "'a \<Rightarrow> bool" and enc :: "'a \<Rightarrow> 's option" and dec :: "'s \<Rightarrow> 'a option"
  assumes inverse: "dom x \<Longrightarrow> \<exists>s. enc x = Some s \<and> dec s = Some x"
begin

lemma returns: "dom x \<Longrightarrow> \<exists>s. enc x = Some s \<and> dec s = Some x"
  by (rule inverse)

lemma injective: "dom x \<Longrightarrow> dom y \<Longrightarrow> enc x = enc y \<Longrightarrow> x = y"
  using inverse [of x] inverse [of y] by auto

end

section \<open>Transition systems\<close>

text \<open>States reachable from the initial ones, and the way an invariant is established.\<close>

inductive reachable :: "('s \<Rightarrow> bool) \<Rightarrow> ('s \<Rightarrow> 's \<Rightarrow> bool) \<Rightarrow> 's \<Rightarrow> bool"
  for init :: "'s \<Rightarrow> bool" and step :: "'s \<Rightarrow> 's \<Rightarrow> bool" where
  reachable_init: "init s \<Longrightarrow> reachable init step s"
| reachable_step: "reachable init step s \<Longrightarrow> step s s' \<Longrightarrow> reachable init step s'"

lemma reachable_weaken: "reachable init step s \<Longrightarrow> (\<And>s. init s \<Longrightarrow> init' s) \<Longrightarrow> reachable init' step s"
  by (induction rule: reachable.induct) (auto intro: reachable.intros)

locale transition_system =
  fixes init :: "'s \<Rightarrow> bool" and step :: "'s \<Rightarrow> 's \<Rightarrow> bool" and invariant :: "'s \<Rightarrow> bool"
  assumes establishes: "init s \<Longrightarrow> invariant s"
    and preserves: "invariant s \<Longrightarrow> step s s' \<Longrightarrow> invariant s'"
begin

lemma always: "reachable init step s \<Longrightarrow> invariant s"
  by (induction rule: reachable.induct) (blast intro: establishes preserves)+

end

end
