(* ===== verification/Base64.thy ===== *)
theory Base64
  imports Prelude
begin

text \<open>
  The base64 codec (libwsc/src/base64.cpp): the encoder with its two alphabets, the line
  breaking of the PEM and MIME variants, and the decoder with its two exceptions. A
  \<open>std::string\<close> of the encoded side is a \<^typ>\<open>string\<close>, the raw side is \<open>bytes\<close>. All index
  arithmetic of the encoder stays below 64 and all of the decoder below 256, so it is
  written on bytes; the loop counter \<open>pos\<close> of the encoder is an unsigned int and is kept at
  32 bits.
\<close>

section \<open>Model\<close>

definition base64_chars :: "bool \<Rightarrow> string" where
  "base64_chars url =
     ''ABCDEFGHIJKLMNOPQRSTUVWXYZ'' @ ''abcdefghijklmnopqrstuvwxyz'' @ ''0123456789'' @
     (if url then ''-_'' else ''+/'')"

definition b64_at :: "bool \<Rightarrow> byte \<Rightarrow> char" where
  "b64_at url i = base64_chars url ! unat i"

definition trailing_char :: "bool \<Rightarrow> char" where
  "trailing_char url = (if url then CHR ''.'' else CHR ''='')"

text \<open>The body of the encoder's loop: the characters pushed for the group at \<open>pos\<close>.\<close>

definition base64_group :: "bytes \<Rightarrow> bool \<Rightarrow> u32 \<Rightarrow> string" where
  "base64_group bs url pos =
     (let b0 = bs ! unat pos; b1 = bs ! unat (pos + 1); b2 = bs ! unat (pos + 2);
          pad = trailing_char url
      in b64_at url (drop_bit 2 (b0 AND 0xfc)) #
        (if unat (pos + 1) < length bs then
           b64_at url (push_bit 4 (b0 AND 0x03) + drop_bit 4 (b1 AND 0xf0)) #
           (if unat (pos + 2) < length bs then
              [b64_at url (push_bit 2 (b1 AND 0x0f) + drop_bit 6 (b2 AND 0xc0)),
               b64_at url (b2 AND 0x3f)]
            else [b64_at url (push_bit 2 (b1 AND 0x0f)), pad])
         else [b64_at url (push_bit 4 (b0 AND 0x03)), pad, pad]))"

partial_function (option) base64_encode_loop :: "bytes \<Rightarrow> bool \<Rightarrow> u32 \<Rightarrow> string \<Rightarrow> string option" where
  "base64_encode_loop bs url pos ret =
     (if unat pos < length bs then base64_encode_loop bs url (pos + 3) (ret @ base64_group bs url pos)
      else Some ret)"

text \<open>\<open>None\<close> is a loop that never ends.\<close>

definition base64_encode :: "bytes \<Rightarrow> bool \<Rightarrow> string option" where
  "base64_encode bs url = base64_encode_loop bs url 0 []"

datatype b64_error = OutOfRange | InvalidChar

definition pos_of_char :: "char \<Rightarrow> b64_error + byte" where
  "pos_of_char c =
     (let chr = of_char c :: byte in
      if of_char CHR ''A'' \<le> chr \<and> chr \<le> of_char CHR ''Z'' then Inr (chr - of_char CHR ''A'')
      else if of_char CHR ''a'' \<le> chr \<and> chr \<le> of_char CHR ''z'' then
        Inr (chr - of_char CHR ''a'' + (of_char CHR ''Z'' - of_char CHR ''A'') + 1)
      else if of_char CHR ''0'' \<le> chr \<and> chr \<le> of_char CHR ''9'' then
        Inr (chr - of_char CHR ''0'' + (of_char CHR ''Z'' - of_char CHR ''A'')
             + (of_char CHR ''z'' - of_char CHR ''a'') + 2)
      else if c = CHR ''+'' \<or> c = CHR ''-'' then Inr 62
      else if c = CHR ''/'' \<or> c = CHR ''_'' then Inr 63
      else Inl InvalidChar)"

text \<open>\<open>std::string::at\<close> throws where the index is out of range.\<close>

definition str_at :: "string \<Rightarrow> nat \<Rightarrow> b64_error + char" where
  "str_at s i = (if i < length s then Inr (s ! i) else Inl OutOfRange)"

definition bindE :: "b64_error + 'a \<Rightarrow> ('a \<Rightarrow> b64_error + 'b) \<Rightarrow> b64_error + 'b" where
  "bindE r f = (case r of Inl e \<Rightarrow> Inl e | Inr x \<Rightarrow> f x)"

definition pos_at :: "string \<Rightarrow> nat \<Rightarrow> b64_error + byte" where
  "pos_at s i = bindE (str_at s i) pos_of_char"

definition not_padding :: "string \<Rightarrow> nat \<Rightarrow> bool" where
  "not_padding s i \<longleftrightarrow> i < length s \<and> s ! i \<noteq> CHR ''='' \<and> s ! i \<noteq> CHR ''.''"

text \<open>The body of the decoder's loop: the bytes pushed for the chunk at \<open>pos\<close>.\<close>

definition base64_chunk :: "string \<Rightarrow> nat \<Rightarrow> b64_error + bytes" where
  "base64_chunk s pos =
     bindE (pos_at s (pos + 1)) (\<lambda>p1.
     bindE (pos_at s pos) (\<lambda>p0.
       let first = push_bit 2 p0 + drop_bit 4 (p1 AND 0x30) in
       if not_padding s (pos + 2) then
         bindE (pos_at s (pos + 2)) (\<lambda>p2.
           let second = push_bit 4 (p1 AND 0x0f) + drop_bit 2 (p2 AND 0x3c) in
           if not_padding s (pos + 3) then
             bindE (pos_at s (pos + 3)) (\<lambda>p3. Inr [first, second, push_bit 6 (p2 AND 0x03) + p3])
           else Inr [first, second])
       else Inr [first]))"

function decode_loop :: "string \<Rightarrow> nat \<Rightarrow> bytes \<Rightarrow> b64_error + bytes" where
  "decode_loop s pos ret =
     (if pos < length s then
        (case base64_chunk s pos of
           Inl e \<Rightarrow> Inl e
         | Inr out \<Rightarrow> decode_loop s (pos + 4) (ret @ out))
      else Inr ret)"
  by pat_completeness auto
termination
  by (relation "measure (\<lambda>(s, pos, ret). length s - pos)") auto

declare decode_loop.simps [simp del]

definition base64_decode :: "string \<Rightarrow> bool \<Rightarrow> b64_error + bytes" where
  "base64_decode s remove_linebreaks =
     (if s = [] then Inr []
      else if remove_linebreaks then
        (let copy = filter (\<lambda>c. c \<noteq> CHR 0x0A) s in
         if copy = [] then Inr [] else decode_loop copy 0 [])
      else decode_loop s 0 [])"

partial_function (option) insert_linebreaks_loop :: "string \<Rightarrow> nat \<Rightarrow> nat \<Rightarrow> string option" where
  "insert_linebreaks_loop str distance pos =
     (if pos < length str then
        insert_linebreaks_loop (take pos str @ [CHR 0x0A] @ drop pos str) distance (pos + (distance + 1))
      else Some str)"

definition insert_linebreaks :: "string \<Rightarrow> nat \<Rightarrow> string option" where
  "insert_linebreaks str distance =
     (if str = [] then Some [] else insert_linebreaks_loop str distance distance)"

definition encode_with_line_breaks :: "nat \<Rightarrow> bytes \<Rightarrow> string option" where
  "encode_with_line_breaks line_length s =
     Option.bind (base64_encode s False) (\<lambda>e. insert_linebreaks e line_length)"

definition base64_encode_pem :: "bytes \<Rightarrow> string option" where
  "base64_encode_pem s = encode_with_line_breaks 64 s"

definition base64_encode_mime :: "bytes \<Rightarrow> string option" where
  "base64_encode_mime s = encode_with_line_breaks 76 s"

section \<open>The encoder is RFC 4648\<close>

text \<open>RFC 4648: three bytes make a 24-bit group, read as four 6-bit digits.\<close>

definition rfc_digits :: "nat \<Rightarrow> nat list" where
  "rfc_digits n = [n div 262144 mod 64, n div 4096 mod 64, n div 64 mod 64, n mod 64]"

definition rfc_group :: "bool \<Rightarrow> bytes \<Rightarrow> string" where
  "rfc_group url g =
     map (\<lambda>d. base64_chars url ! d)
       (take (length g + 1)
         (rfc_digits (unat (g ! 0) * 65536 + (if 1 < length g then unat (g ! 1) * 256 else 0)
            + (if 2 < length g then unat (g ! 2) else 0))))
     @ replicate (3 - length g) (trailing_char url)"

function rfc4648 :: "bool \<Rightarrow> bytes \<Rightarrow> string" where
  "rfc4648 url bs = (if bs = [] then [] else rfc_group url (take 3 bs) @ rfc4648 url (drop 3 bs))"
  by pat_completeness auto
termination by (relation "measure (\<lambda>(url, bs). length bs)") auto

declare rfc4648.simps [simp del]

lemma unat_and_fc: "unat (drop_bit 2 (b AND 0xfc) :: byte) = unat b div 4"
proof -
  have "drop_bit 2 (b AND 0xfc) = drop_bit 2 b" by (simp add: byte_eq_iff bit_simps)
  then show ?thesis by (simp add: unat_drop_bit_div)
qed

lemma unat_push_bit_mult: "unat (push_bit k (b::byte)) = unat b * 2 ^ k mod 256"
proof -
  have "unat (push_bit k b) = take_bit LENGTH(8) (push_bit k (unat b))"
    by (rule unsigned_push_bit_eq)
  then show ?thesis by (simp add: take_bit_eq_mod push_bit_eq_mult)
qed

lemma unat_take_bit_mod: "unat (take_bit k (b::byte)) = unat b mod 2 ^ k"
proof -
  have "unat (take_bit k b) = take_bit k (unat b)" by (rule unsigned_take_bit_eq)
  then show ?thesis by (simp add: take_bit_eq_mod)
qed

lemma unat_add_byte: "unat (a::byte) + unat b < 256 \<Longrightarrow> unat (a + b) = unat a + unat b"
  by (simp add: unat_word_ariths)

lemma unat_mid:
  "unat (push_bit 4 (a AND 0x03) + drop_bit 4 (b AND 0xf0) :: byte) = unat a mod 4 * 16 + unat b div 16"
proof -
  have eq: "push_bit 4 (a AND 0x03) = push_bit 4 (take_bit 2 a)" "drop_bit 4 (b AND 0xf0) = drop_bit 4 b"
    by (simp_all add: byte_eq_iff bit_simps)
  have "unat a mod 4 < 4" "unat b div 16 < 16" by (simp_all add: less_mult_imp_div_less)
  then show ?thesis unfolding eq
    by (subst unat_add_byte) (simp_all only: unat_push_bit_mult unat_take_bit_mod unat_drop_bit_div; simp)+
qed

lemma unat_low:
  "unat (push_bit 2 (a AND 0x0f) + drop_bit 6 (b AND 0xc0) :: byte) = unat a mod 16 * 4 + unat b div 64"
proof -
  have eq: "push_bit 2 (a AND 0x0f) = push_bit 2 (take_bit 4 a)" "drop_bit 6 (b AND 0xc0) = drop_bit 6 b"
    by (simp_all add: byte_eq_iff bit_simps)
  have "unat a mod 16 < 16" "unat b div 64 < 4" by (simp_all add: less_mult_imp_div_less)
  then show ?thesis unfolding eq
    by (subst unat_add_byte) (simp_all only: unat_push_bit_mult unat_take_bit_mod unat_drop_bit_div; simp)+
qed

lemma unat_last_mid: "unat (push_bit 4 (a AND 0x03) :: byte) = unat a mod 4 * 16"
proof -
  have "push_bit 4 (a AND 0x03) = push_bit 4 (take_bit 2 a)" by (simp add: byte_eq_iff bit_simps)
  moreover have "unat a mod 4 < 4" by simp
  ultimately show ?thesis by (simp only: unat_push_bit_mult unat_take_bit_mod) simp
qed

lemma unat_last_low: "unat (push_bit 2 (a AND 0x0f) :: byte) = unat a mod 16 * 4"
proof -
  have "push_bit 2 (a AND 0x0f) = push_bit 2 (take_bit 4 a)" by (simp add: byte_eq_iff bit_simps)
  moreover have "unat a mod 16 < 16" by simp
  ultimately show ?thesis by (simp only: unat_push_bit_mult unat_take_bit_mod) simp
qed

lemma unat_and_3f: "unat (b AND 0x3f :: byte) = unat b mod 64"
proof -
  have "b AND 0x3f = take_bit 6 b" by (simp add: byte_eq_iff bit_simps)
  then show ?thesis by (simp only: unat_take_bit_mod) simp
qed

lemma rfc_digits_eq:
  assumes "a < 256" "b < 256" "c < 256"
  shows "rfc_digits (a * 65536 + b * 256 + c)
    = [a div 4, a mod 4 * 16 + b div 16, b mod 16 * 4 + c div 64, c mod 64]"
proof -
  define a1 a0 b1 b0 c1 c0 where d: "a1 = a div 4" "a0 = a mod 4" "b1 = b div 16" "b0 = b mod 16"
    "c1 = c div 64" "c0 = c mod 64"
  have abc: "a = 4 * a1 + a0" "b = 16 * b1 + b0" "c = 64 * c1 + c0" unfolding d by simp_all
  have lt: "a1 < 64" "a0 < 4" "b1 < 16" "b0 < 16" "c1 < 4" "c0 < 64"
    unfolding d using assms by (simp_all add: less_mult_imp_div_less)
  define m k where mk: "m = a0 * 16 + b1" "k = b0 * 4 + c1"
  have lt': "m < 64" "k < 64" unfolding mk using lt by simp_all
  have n: "a * 65536 + b * 256 + c = 64 * (64 * (64 * a1 + m) + k) + c0" (is "_ = ?n")
    unfolding abc mk by simp
  have q1: "?n div 64 = 64 * (64 * a1 + m) + k" "?n mod 64 = c0" by (rule div_mod_64 [OF lt(6)])+
  have q2: "?n div 4096 = 64 * a1 + m" using div_mult2_eq [of ?n 64 64] div_mod_64 [OF lt'(2)] q1 by simp
  have q3: "?n div 262144 = a1" using div_mult2_eq [of ?n 4096 64] div_mod_64 [OF lt'(1)] q2 by simp
  have "rfc_digits ?n = [a1 mod 64, (64 * a1 + m) mod 64, (64 * (64 * a1 + m) + k) mod 64, c0]"
    unfolding rfc_digits_def q1 q2 q3 ..
  also have "\<dots> = [a1, m, k, c0]" using lt(1) by (simp only: div_mod_64 [OF lt'(1)] div_mod_64 [OF lt'(2)]) simp
  finally show ?thesis unfolding n mk d .
qed

lemma replicate_numeral2: "replicate 2 x = [x, x]"
  by (simp add: numeral_2_eq_2)

lemma base64_group_rfc:
  assumes "unat pos < length bs" "unat (pos + 1) = unat pos + 1" "unat (pos + 2) = unat pos + 2"
  shows "base64_group bs url pos = rfc_group url (take 3 (drop (unat pos) bs))"
proof -
  define g where "g = drop (unat pos) bs"
  have nth: "bs ! unat pos = g ! 0" "bs ! (unat pos + 1) = g ! 1" "bs ! (unat pos + 2) = g ! 2"
    using assms(1) by (simp_all add: g_def)
  have len: "unat pos + 1 < length bs \<longleftrightarrow> 1 < length g" "unat pos + 2 < length bs \<longleftrightarrow> 2 < length g"
    by (auto simp: g_def)
  note unf = base64_group_def assms(2,3) Let_def nth len b64_at_def unat_and_fc unat_mid unat_low
    unat_last_mid unat_last_low unat_and_3f rfc_group_def g_def [symmetric]
  have "g \<noteq> []" using assms(1) by (simp add: g_def)
  then consider a where "g = [a]" | a b where "g = [a, b]" | a b c r where "g = a # b # c # r"
    by (metis list.exhaust)
  then show ?thesis
  proof cases
    case 1
    show ?thesis unfolding unf 1
      using rfc_digits_eq [of "unat a" 0 0] by (simp add: replicate_numeral2)
  next
    case 2
    show ?thesis unfolding unf 2
      using rfc_digits_eq [of "unat a" "unat b" 0] by (simp add: replicate_numeral2)
  next
    case 3
    show ?thesis unfolding unf 3
      using rfc_digits_eq [of "unat a" "unat b" "unat c"] by (simp add: replicate_numeral2)
  qed
qed

lemma unat_add_small: "unat (pos::u32) + unat k < 2 ^ 32 \<Longrightarrow> unat (pos + k) = unat pos + unat k"
  by (simp add: unat_word_ariths)

lemma multiple3_room:
  assumes "3 dvd unat (pos::u32)" "unat pos < n" "n < 2 ^ 32"
  shows "unat pos + 3 < 2 ^ 32"
proof -
  have "unat pos \<le> 2 ^ 32 - 2" using assms(2,3) by simp
  moreover have "unat pos \<noteq> 2 ^ 32 - 2" "unat pos \<noteq> 2 ^ 32 - 3" using assms(1) by auto
  ultimately show ?thesis by simp
qed

lemma base64_encode_loop_rfc:
  assumes "length bs < 2 ^ 32" "3 dvd unat pos"
  shows "base64_encode_loop bs url pos ret = Some (ret @ rfc4648 url (drop (unat pos) bs))"
  using assms(2)
proof (induction "length bs - unat pos" arbitrary: pos ret rule: less_induct)
  case less
  show ?case
  proof (cases "unat pos < length bs")
    case False
    then show ?thesis by (simp add: base64_encode_loop.simps rfc4648.simps)
  next
    case True
    have "unat pos + 3 < 2 ^ 32" using multiple3_room [OF less.prems True assms(1)] .
    then have u: "unat (pos + 1) = unat pos + 1" "unat (pos + 2) = unat pos + 2" "unat (pos + 3) = unat pos + 3"
      using unat_add_small [of pos 1] unat_add_small [of pos 2] unat_add_small [of pos 3] by simp_all
    have "base64_encode_loop bs url (pos + 3) r = Some (r @ rfc4648 url (drop (unat (pos + 3)) bs))" for r
      by (rule less.hyps) (use True less.prems u(3) in simp_all)
    then show ?thesis
      using True base64_group_rfc [OF True u(1,2)] u(3)
      by (simp add: base64_encode_loop.simps [of bs url pos ret] rfc4648.simps [of url "drop (unat pos) bs"]
          add.commute)
  qed
qed

lemma base64_encode_rfc: "length bs < 2 ^ 32 \<Longrightarrow> base64_encode bs url = Some (rfc4648 url bs)"
  unfolding base64_encode_def by (subst base64_encode_loop_rfc) simp_all

lemma base64_encode_loop_returns:
  assumes "base64_encode_loop bs url pos ret = Some r" shows "length bs < 2 ^ 32"
proof (rule base64_encode_loop.raw_induct [where P = "\<lambda>bs url pos ret r. length bs < 2 ^ 32", OF _ assms])
  fix f bs url pos ret r
  assume IH: "\<And>bs url pos ret r. f bs url pos ret = Some r \<Longrightarrow> length bs < 2 ^ 32"
    and eq: "(if unat pos < length bs then f bs url (pos + 3) (ret @ base64_group bs url pos) else Some ret) = Some r"
  show "length bs < 2 ^ 32"
  proof (cases "unat pos < length bs")
    case True
    then show ?thesis using eq IH by auto
  next
    case False
    then show ?thesis using unsigned_less [where w = pos and 'a = nat] by simp
  qed
qed

lemma base64_encode_hangs: "2 ^ 32 \<le> length bs \<Longrightarrow> base64_encode bs url = None"
  unfolding base64_encode_def
  by (cases "base64_encode_loop bs url 0 []") (auto dest: base64_encode_loop_returns)

section \<open>Decoding inverts encoding\<close>

lemma pos_of_char_table:
  "map pos_of_char (base64_chars True) = map (\<lambda>i. Inr (word_of_nat i)) [0..<64]"
  "map pos_of_char (base64_chars False) = map (\<lambda>i. Inr (word_of_nat i)) [0..<64]"
  by code_simp+

lemma base64_chars_plain:
  "list_all (\<lambda>c. c \<noteq> CHR ''='' \<and> c \<noteq> CHR ''.'' \<and> c \<noteq> CHR 0x0A) (base64_chars url)"
  by (cases url) (simp_all add: base64_chars_def)

lemma length_base64_chars: "length (base64_chars url) = 64"
  by (simp add: base64_chars_def)

lemma pos_of_char_digit:
  assumes "unat i < 64"
  shows "pos_of_char (b64_at url i) = Inr i" "b64_at url i \<noteq> CHR ''=''" "b64_at url i \<noteq> CHR ''.''"
    "b64_at url i \<noteq> CHR 0x0A"
proof -
  have "map pos_of_char (base64_chars url) = map (\<lambda>i. Inr (word_of_nat i)) [0..<64]"
    by (cases url) (simp_all only: pos_of_char_table)
  from arg_cong [OF this, of "\<lambda>l. l ! unat i"]
  show "pos_of_char (b64_at url i) = Inr i"
    using assms by (simp add: b64_at_def length_base64_chars)
  have "b64_at url i \<in> set (base64_chars url)"
    using assms by (simp add: b64_at_def length_base64_chars)
  then show "b64_at url i \<noteq> CHR ''=''" "b64_at url i \<noteq> CHR ''.''" "b64_at url i \<noteq> CHR 0x0A"
    using base64_chars_plain [of url] by (auto simp: list_all_iff)
qed

lemma byte_add_or:
  assumes "x AND y = (0::byte)" shows "x + y = x OR y"
  using assms by (rule disjunctive_add_eq_or)

lemma mid_or: "push_bit 4 (a AND 0x03) + drop_bit 4 (b AND 0xf0)
    = (push_bit 4 (a AND 0x03) OR drop_bit 4 (b AND 0xf0) :: byte)"
  by (rule byte_add_or) (simp add: byte_eq_iff bit_simps)

lemma low_or: "push_bit 2 (b AND 0x0f) + drop_bit 6 (c AND 0xc0)
    = (push_bit 2 (b AND 0x0f) OR drop_bit 6 (c AND 0xc0) :: byte)"
  by (rule byte_add_or) (simp add: byte_eq_iff bit_simps)

lemma decode_first:
  "push_bit 2 (drop_bit 2 (a AND 0xfc)) +
     drop_bit 4 ((push_bit 4 (a AND 0x03) + drop_bit 4 (b AND 0xf0)) AND 0x30) = (a::byte)"
  unfolding mid_or
  by (subst byte_add_or) (simp_all add: byte_eq_iff bit_simps)

lemma decode_second:
  "push_bit 4 ((push_bit 4 (a AND 0x03) + drop_bit 4 (b AND 0xf0)) AND 0x0f) +
     drop_bit 2 ((push_bit 2 (b AND 0x0f) + drop_bit 6 (c AND 0xc0)) AND 0x3c) = (b::byte)"
  unfolding mid_or low_or
  by (subst byte_add_or) (simp_all add: byte_eq_iff bit_simps)

lemma decode_third:
  "push_bit 6 ((push_bit 2 (b AND 0x0f) + drop_bit 6 (c AND 0xc0)) AND 0x03) + (c AND 0x3f) = (c::byte)"
  unfolding low_or
  by (subst byte_add_or) (simp_all add: byte_eq_iff bit_simps)

lemma digit_range:
  "unat (drop_bit 2 (a AND 0xfc) :: byte) < 64"
  "unat (push_bit 4 (a AND 0x03) + drop_bit 4 (b AND 0xf0) :: byte) < 64"
  "unat (push_bit 2 (b AND 0x0f) + drop_bit 6 (c AND 0xc0) :: byte) < 64"
  "unat (c AND 0x3f :: byte) < 64"
  unfolding unat_and_fc unat_mid unat_low unat_and_3f
proof -
  have "unat a mod 4 \<le> 3" "unat b div 16 \<le> 15" "unat b mod 16 \<le> 15" "unat c div 64 \<le> 3"
    using unat_byte_less [of b] unat_byte_less [of c] by (simp_all add: less_Suc_eq_le [symmetric] less_mult_imp_div_less)
  then show "unat a mod 4 * 16 + unat b div 16 < 64" "unat b mod 16 * 4 + unat c div 64 < 64" by simp_all
qed (use unat_byte_less [of a] in \<open>simp_all add: less_mult_imp_div_less\<close>)

text \<open>The groups the encoder pushes, written as digits.\<close>

fun enc_groups :: "bool \<Rightarrow> bytes \<Rightarrow> string" where
  "enc_groups url [] = []"
| "enc_groups url [a] =
     [b64_at url (drop_bit 2 (a AND 0xfc)),
      b64_at url (push_bit 4 (a AND 0x03) + drop_bit 4 (0 AND 0xf0)),
      trailing_char url, trailing_char url]"
| "enc_groups url [a, b] =
     [b64_at url (drop_bit 2 (a AND 0xfc)),
      b64_at url (push_bit 4 (a AND 0x03) + drop_bit 4 (b AND 0xf0)),
      b64_at url (push_bit 2 (b AND 0x0f) + drop_bit 6 (0 AND 0xc0)), trailing_char url]"
| "enc_groups url (a # b # c # r) =
     [b64_at url (drop_bit 2 (a AND 0xfc)),
      b64_at url (push_bit 4 (a AND 0x03) + drop_bit 4 (b AND 0xf0)),
      b64_at url (push_bit 2 (b AND 0x0f) + drop_bit 6 (c AND 0xc0)),
      b64_at url (c AND 0x3f)] @ enc_groups url r"

lemma rfc4648_groups: "rfc4648 url bs = enc_groups url bs"
proof (induction url bs rule: enc_groups.induct)
  case (1 url)
  then show ?case by (simp add: rfc4648.simps)
next
  case (2 url a)
  then show ?case using rfc_digits_eq [of "unat a" 0 0]
    unfolding rfc4648.simps [of _ "[a]"] enc_groups.simps rfc_group_def b64_at_def unat_and_fc unat_mid
    by (simp add: rfc4648.simps replicate_numeral2)
next
  case (3 url a b)
  then show ?case using rfc_digits_eq [of "unat a" "unat b" 0]
    unfolding rfc4648.simps [of _ "[a, b]"] enc_groups.simps rfc_group_def b64_at_def unat_and_fc
      unat_mid unat_low
    by (simp add: rfc4648.simps)
next
  case (4 url a b c r)
  then show ?case using rfc_digits_eq [of "unat a" "unat b" "unat c"]
    unfolding rfc4648.simps [of _ "a # b # c # r"] enc_groups.simps rfc_group_def b64_at_def unat_and_fc
      unat_mid unat_low unat_and_3f
    by simp
qed

lemma base64_chunk_digits:
  assumes "unat i0 < 64" "unat i1 < 64"
  shows "base64_chunk (pre @ [b64_at url i0, b64_at url i1, trailing_char url, trailing_char url]) (length pre)
      = Inr [push_bit 2 i0 + drop_bit 4 (i1 AND 0x30)]" (is ?A)
    and "unat i2 < 64 \<Longrightarrow>
      base64_chunk (pre @ [b64_at url i0, b64_at url i1, b64_at url i2, trailing_char url]) (length pre)
      = Inr [push_bit 2 i0 + drop_bit 4 (i1 AND 0x30), push_bit 4 (i1 AND 0x0f) + drop_bit 2 (i2 AND 0x3c)]"
      (is "_ \<Longrightarrow> ?B")
    and "unat i2 < 64 \<Longrightarrow> unat i3 < 64 \<Longrightarrow>
      base64_chunk (pre @ [b64_at url i0, b64_at url i1, b64_at url i2, b64_at url i3] @ post) (length pre)
      = Inr [push_bit 2 i0 + drop_bit 4 (i1 AND 0x30), push_bit 4 (i1 AND 0x0f) + drop_bit 2 (i2 AND 0x3c),
             push_bit 6 (i2 AND 0x03) + i3]" (is "_ \<Longrightarrow> _ \<Longrightarrow> ?C")
proof -
  note defs = base64_chunk_def pos_at_def str_at_def bindE_def not_padding_def nth_append Let_def
  show ?A using assms
    by (cases url) (simp_all add: defs pos_of_char_digit trailing_char_def)
  show ?B if "unat i2 < 64" using assms that
    by (cases url) (simp_all add: defs pos_of_char_digit trailing_char_def)
  show ?C if "unat i2 < 64" "unat i3 < 64" using assms that
    by (simp add: defs pos_of_char_digit)
qed

lemma decode_loop_groups:
  "decode_loop (pre @ enc_groups url bs) (length pre) ret = Inr (ret @ bs)"
proof (induction url bs arbitrary: pre ret rule: enc_groups.induct)
  case (1 url)
  then show ?case by (simp add: decode_loop.simps)
next
  case (2 url a)
  have chunk: "base64_chunk (pre @ enc_groups url [a]) (length pre) = Inr [a]"
    by (simp only: enc_groups.simps base64_chunk_digits(1) digit_range decode_first)
  show ?case
    by (subst decode_loop.simps) (simp only: chunk sum.case; simp add: decode_loop.simps)
next
  case (3 url a b)
  have chunk: "base64_chunk (pre @ enc_groups url [a, b]) (length pre) = Inr [a, b]"
    by (simp only: enc_groups.simps base64_chunk_digits(2) digit_range decode_first decode_second)
  show ?case
    by (subst decode_loop.simps) (simp only: chunk sum.case; simp add: decode_loop.simps)
next
  case (4 url a b c r)
  let ?g = "[b64_at url (drop_bit 2 (a AND 0xfc)),
      b64_at url (push_bit 4 (a AND 0x03) + drop_bit 4 (b AND 0xf0)),
      b64_at url (push_bit 2 (b AND 0x0f) + drop_bit 6 (c AND 0xc0)),
      b64_at url (c AND 0x3f)]"
  have chunk: "base64_chunk (pre @ ?g @ enc_groups url r) (length pre) = Inr [a, b, c]"
    by (simp only: base64_chunk_digits(3) digit_range decode_first decode_second decode_third)
  have "decode_loop (pre @ ?g @ enc_groups url r) (length pre) ret
      = decode_loop ((pre @ ?g) @ enc_groups url r) (length (pre @ ?g)) (ret @ [a, b, c])"
    by (subst decode_loop.simps) (simp only: chunk sum.case append_assoc; simp add: eval_nat_numeral)
  also have "\<dots> = Inr ((ret @ [a, b, c]) @ r)" by (rule "4.IH")
  finally show ?case by simp
qed

lemma base64_decode_rfc: "base64_decode (rfc4648 url bs) False = Inr bs"
proof (cases "bs = []")
  case True
  then show ?thesis by (simp add: base64_decode_def rfc4648.simps)
next
  case False
  then have "enc_groups url bs \<noteq> []" by (cases "(url, bs)" rule: enc_groups.cases) auto
  then show ?thesis using decode_loop_groups [of "[]" url bs "[]"]
    by (simp add: base64_decode_def rfc4648_groups)
qed

section \<open>Line breaks\<close>

text \<open>The text cut into lines of \<open>d\<close> characters, with no break after a last full line.\<close>

function wrap_lines :: "nat \<Rightarrow> string \<Rightarrow> string" where
  "wrap_lines d s =
     (if d = 0 \<or> length s \<le> d then s else take d s @ CHR 0x0A # wrap_lines d (drop d s))"
  by pat_completeness auto
termination by (relation "measure (\<lambda>(d, s). length s)") auto

declare wrap_lines.simps [simp del]

lemma insert_linebreaks_loop_wrap:
  assumes "0 < d"
  shows "insert_linebreaks_loop (pre @ s) d (length pre + d) = Some (pre @ wrap_lines d s)"
proof (induction "length s" arbitrary: pre s rule: less_induct)
  case less
  show ?case
  proof (cases "length s \<le> d")
    case True
    then show ?thesis by (simp add: insert_linebreaks_loop.simps wrap_lines.simps)
  next
    case False
    let ?pre = "pre @ take d s @ [CHR 0x0A]"
    have "insert_linebreaks_loop (?pre @ drop d s) d (length ?pre + d)
        = Some (?pre @ wrap_lines d (drop d s))"
      by (rule less.hyps) (use False assms in simp)
    then show ?thesis using False assms
      by (simp add: insert_linebreaks_loop.simps [of "pre @ s"] wrap_lines.simps [of d s] ac_simps)
  qed
qed

lemma insert_linebreaks_wrap: "0 < d \<Longrightarrow> insert_linebreaks s d = Some (wrap_lines d s)"
  using insert_linebreaks_loop_wrap [of d "[]" s]
  by (auto simp: insert_linebreaks_def wrap_lines.simps)

lemma filter_wrap_lines:
  "list_all (\<lambda>c. c \<noteq> CHR 0x0A) s \<Longrightarrow> filter (\<lambda>c. c \<noteq> CHR 0x0A) (wrap_lines d s) = s"
proof (induction d s rule: wrap_lines.induct)
  case (1 d s)
  show ?case
  proof (cases "d = 0 \<or> length s \<le> d")
    case True
    then show ?thesis using "1.prems" by (simp add: wrap_lines.simps list_all_iff)
  next
    case False
    have "list_all (\<lambda>c. c \<noteq> CHR 0x0A) (drop d s)" "list_all (\<lambda>c. c \<noteq> CHR 0x0A) (take d s)"
      using "1.prems" by (auto simp: list_all_iff dest: in_set_dropD in_set_takeD)
    then show ?thesis using False "1.IH" filter_True [of "take d s" "\<lambda>c. c \<noteq> CHR 0x0A"]
      by (simp add: wrap_lines.simps [of d s] list_all_iff)
  qed
qed

lemmas digit_not_newline =
  digit_range(1) [THEN pos_of_char_digit(4)] digit_range(2) [THEN pos_of_char_digit(4)]
  digit_range(3) [THEN pos_of_char_digit(4)] digit_range(4) [THEN pos_of_char_digit(4)]

lemma enc_groups_no_newline: "list_all (\<lambda>c. c \<noteq> CHR 0x0A) (enc_groups url bs)"
proof -
  have pad: "trailing_char u \<noteq> CHR 0x0A" for u by (simp add: trailing_char_def)
  show ?thesis
    by (induction url bs rule: enc_groups.induct)
      (simp_all only: enc_groups.simps list.pred_inject append.simps list_all_append digit_not_newline pad, simp_all)
qed

lemma wrap_lines_empty: "wrap_lines d s = [] \<longleftrightarrow> s = []"
  by (auto simp: wrap_lines.simps)

lemma base64_decode_wrapped: "base64_decode (wrap_lines d (rfc4648 url bs)) True = Inr bs"
proof -
  have "filter (\<lambda>c. c \<noteq> CHR 0x0A) (wrap_lines d (rfc4648 url bs)) = rfc4648 url bs"
    unfolding rfc4648_groups by (rule filter_wrap_lines [OF enc_groups_no_newline])
  then show ?thesis using base64_decode_rfc [of url bs]
    by (auto simp: base64_decode_def wrap_lines_empty Let_def split: if_splits)
qed

lemma encode_with_line_breaks_rfc:
  "0 < d \<Longrightarrow> length bs < 2 ^ 32 \<Longrightarrow> encode_with_line_breaks d bs = Some (wrap_lines d (rfc4648 False bs))"
  by (simp add: encode_with_line_breaks_def base64_encode_rfc insert_linebreaks_wrap)

lemma wrap_lines_short:
  "0 < d \<Longrightarrow> \<exists>ls. wrap_lines d s = concat (map (\<lambda>l. l @ [CHR 0x0A]) ls) @ drop (d * length ls) s \<and>
     list_all (\<lambda>l. length l = d) ls \<and> length s - d * length ls \<le> d \<and> concat ls = take (d * length ls) s"
proof (induction d s rule: wrap_lines.induct)
  case (1 d s)
  show ?case
  proof (cases "length s \<le> d")
    case True
    then show ?thesis by (intro exI [of _ "[]"]) (simp add: wrap_lines.simps)
  next
    case False
    then obtain ls where ls: "wrap_lines d (drop d s)
        = concat (map (\<lambda>l. l @ [CHR 0x0A]) ls) @ drop (d * length ls) (drop d s)"
      "list_all (\<lambda>l. length l = d) ls" "length (drop d s) - d * length ls \<le> d"
      "concat ls = take (d * length ls) (drop d s)"
      using 1 by auto
    show ?thesis
      by (intro exI [of _ "take d s # ls"])
        (use False ls "1.prems" in \<open>simp add: wrap_lines.simps [of d s] take_add add.commute\<close>)
  qed
qed

section \<open>The codec contract\<close>

text \<open>Every encoded form of the file is a codec: on its domain the encoder returns and the
  decoder gives the input back.\<close>

interpretation b64_std: codec "\<lambda>bs. length bs < 2 ^ 32" "\<lambda>bs. base64_encode bs False"
    "\<lambda>s. to_option (base64_decode s False)"
  by unfold_locales (simp add: base64_encode_rfc base64_decode_rfc to_option_def)

interpretation b64_url: codec "\<lambda>bs. length bs < 2 ^ 32" "\<lambda>bs. base64_encode bs True"
    "\<lambda>s. to_option (base64_decode s False)"
  by unfold_locales (simp add: base64_encode_rfc base64_decode_rfc to_option_def)

interpretation b64_pem: codec "\<lambda>bs. length bs < 2 ^ 32" base64_encode_pem
    "\<lambda>s. to_option (base64_decode s True)"
  by unfold_locales
    (simp add: base64_encode_pem_def encode_with_line_breaks_rfc base64_decode_wrapped to_option_def)

interpretation b64_mime: codec "\<lambda>bs. length bs < 2 ^ 32" base64_encode_mime
    "\<lambda>s. to_option (base64_decode s True)"
  by unfold_locales
    (simp add: base64_encode_mime_def encode_with_line_breaks_rfc base64_decode_wrapped to_option_def)

section \<open>Properties\<close>

text \<open>For every input shorter than 4 GiB \<open>base64_encode\<close> returns, and what it returns
  is the RFC 4648 encoding: the input cut in groups of three bytes, each read as a 24-bit
  number in base 64 and padded with the trailing character of the alphabet.\<close>

theorem base64_encode_correct:
  assumes "length bs < 2 ^ 32"
  shows "base64_encode bs url = Some (rfc4648 url bs)"
  using assms by (rule base64_encode_rfc)

theorem base64_encode_correct_witness:
  "base64_encode [0x66, 0x6F, 0x6F, 0x62] False = Some ''Zm9vYg==''"
proof -
  have "rfc4648 False [0x66, 0x6F, 0x6F, 0x62] = ''Zm9vYg==''"
    unfolding rfc4648_groups by code_simp
  then show ?thesis using base64_encode_correct [of "[0x66, 0x6F, 0x6F, 0x62]" False] by simp
qed

text \<open>C32: decoding what \<open>base64_encode\<close> returned gives the input back, for both alphabets,
  for the PEM and MIME variants once line breaks are removed, and the encoders are
  injective: two inputs never share an encoding.\<close>

theorem base64_roundtrip:
  assumes "length bs < 2 ^ 32"
  shows "(\<exists>s. base64_encode bs url = Some s \<and> base64_decode s False = Inr bs) \<and>
    (\<exists>s. base64_encode_pem bs = Some s \<and> base64_decode s True = Inr bs) \<and>
    (\<exists>s. base64_encode_mime bs = Some s \<and> base64_decode s True = Inr bs) \<and>
    (\<forall>bs'. base64_encode bs' url = base64_encode bs url \<longrightarrow> bs' = bs)"
proof (intro conjI allI impI)
  show "\<exists>s. base64_encode bs url = Some s \<and> base64_decode s False = Inr bs"
    using assms b64_std.returns [of bs] b64_url.returns [of bs] by (cases url) (auto simp: to_option_Some)
  show "\<exists>s. base64_encode_pem bs = Some s \<and> base64_decode s True = Inr bs"
    using assms b64_pem.returns [of bs] by (auto simp: to_option_Some)
  show "\<exists>s. base64_encode_mime bs = Some s \<and> base64_decode s True = Inr bs"
    using assms b64_mime.returns [of bs] by (auto simp: to_option_Some)
next
  fix bs' assume eq: "base64_encode bs' url = base64_encode bs url"
  have "length bs' < 2 ^ 32"
    using eq assms base64_encode_hangs [of bs' url] base64_encode_rfc [of bs url]
    by (metis linorder_not_less option.distinct(1))
  then show "bs' = bs" using eq assms b64_std.injective [of bs' bs] b64_url.injective [of bs' bs]
    by (cases url) simp_all
qed

theorem base64_roundtrip_witness:
  "(\<exists>s. base64_encode [0, 0xFF] False = Some s \<and> base64_decode s False = Inr [0, 0xFF]) \<and>
   (\<exists>s. base64_encode_pem [0, 0xFF] = Some s \<and> base64_decode s True = Inr [0, 0xFF]) \<and>
   (\<exists>s. base64_encode_mime [0, 0xFF] = Some s \<and> base64_decode s True = Inr [0, 0xFF])"
  using base64_roundtrip [of "[0, 0xFF]" False] by simp

text \<open>The loop counter of \<open>base64_encode\<close> is an unsigned int while the length is a
  size_t: the call does not return on an input of 4 GiB or more.\<close>

theorem base64_encode_never_returns:
  "base64_encode bs url = None \<longleftrightarrow> 2 ^ 32 \<le> length bs"
proof (cases "length bs < 2 ^ 32")
  case True
  then show ?thesis using base64_encode_rfc [of bs url] by simp
next
  case False
  then show ?thesis using base64_encode_hangs [of bs url] by simp
qed

text \<open>The PEM variant is the standard encoding cut in lines: every line but the last
  holds exactly 64 characters, the last at most 64, and no break follows it.\<close>

theorem base64_encode_pem_lines:
  assumes "length bs < 2 ^ 32"
  shows "\<exists>ls last. base64_encode_pem bs = Some (concat (map (\<lambda>l. l @ [CHR 0x0A]) ls) @ last) \<and>
    list_all (\<lambda>l. length l = 64) ls \<and> length last \<le> 64 \<and> concat ls @ last = rfc4648 False bs"
proof -
  obtain ls where "wrap_lines 64 (rfc4648 False bs)
      = concat (map (\<lambda>l. l @ [CHR 0x0A]) ls) @ drop (64 * length ls) (rfc4648 False bs)"
    "list_all (\<lambda>l. length l = 64) ls" "length (rfc4648 False bs) - 64 * length ls \<le> 64"
    "concat ls = take (64 * length ls) (rfc4648 False bs)"
    using wrap_lines_short [of 64 "rfc4648 False bs"] by auto
  then show ?thesis using assms
    by (intro exI [of _ ls] exI [of _ "drop (64 * length ls) (rfc4648 False bs)"])
      (simp add: base64_encode_pem_def encode_with_line_breaks_rfc)
qed

theorem base64_encode_pem_lines_witness:
  "\<exists>ls last. base64_encode_pem (replicate 50 0) = Some (concat (map (\<lambda>l. l @ [CHR 0x0A]) ls) @ last) \<and>
    list_all (\<lambda>l. length l = 64) ls \<and> length last \<le> 64 \<and> concat ls @ last = rfc4648 False (replicate 50 0)"
  using base64_encode_pem_lines [of "replicate 50 0"] by simp

end
