(* ===== verification/ByteOrder.thy ===== *)
theory ByteOrder
  imports Prelude
begin

text \<open>
  Integers in memory and on the wire: the object representation of unsigned integers on the
  little-endian machines the module is built for, the POSIX conversions, and the macro
  \<open>htonll\<close> of WebSocketContext.h and WebSocketReceiver.h. The lemmas say that what the code
  writes with memcpy after a conversion is the big-endian encoding of RFC 6455, and that what
  it reads back is its value.
\<close>

section \<open>Object representation and conversions\<close>

definition mem16 :: "u16 \<Rightarrow> bytes" where
  "mem16 w = [ucast w, ucast (drop_bit 8 w)]"

definition mem32 :: "u32 \<Rightarrow> bytes" where
  "mem32 w = [ucast w, ucast (drop_bit 8 w), ucast (drop_bit 16 w), ucast (drop_bit 24 w)]"

definition mem64 :: "u64 \<Rightarrow> bytes" where
  "mem64 w = [ucast w, ucast (drop_bit 8 w), ucast (drop_bit 16 w), ucast (drop_bit 24 w),
     ucast (drop_bit 32 w), ucast (drop_bit 40 w), ucast (drop_bit 48 w), ucast (drop_bit 56 w)]"

definition load16 :: "bytes \<Rightarrow> u16" where
  "load16 bs = ucast (bs ! 0) OR push_bit 8 (ucast (bs ! 1))"

definition load64 :: "bytes \<Rightarrow> u64" where
  "load64 bs = ucast (bs ! 0) OR push_bit 8 (ucast (bs ! 1)) OR push_bit 16 (ucast (bs ! 2))
     OR push_bit 24 (ucast (bs ! 3)) OR push_bit 32 (ucast (bs ! 4)) OR push_bit 40 (ucast (bs ! 5))
     OR push_bit 48 (ucast (bs ! 6)) OR push_bit 56 (ucast (bs ! 7))"

definition htons :: "u16 \<Rightarrow> u16" where
  "htons w = push_bit 8 w OR drop_bit 8 w"

definition htonl :: "u32 \<Rightarrow> u32" where
  "htonl w = push_bit 24 w OR push_bit 8 (w AND 0xFF00) OR drop_bit 8 (w AND 0xFF0000) OR drop_bit 24 w"

text \<open>The macro, with the precedence C gives it: \<open>c ? x : ((a << 32) | b)\<close>.\<close>

definition htonll :: "u64 \<Rightarrow> u64" where
  "htonll x =
     (if 1 = htonl 1 then x
      else push_bit 32 (ucast (htonl (ucast (x AND 0xFFFFFFFF)))) OR ucast (htonl (ucast (drop_bit 32 x))))"

abbreviation "ntohs \<equiv> htons"
abbreviation "ntohll \<equiv> htonll"

section \<open>Big-endian numbers\<close>

fun be_bytes :: "nat \<Rightarrow> nat \<Rightarrow> bytes" where
  "be_bytes 0 n = []"
| "be_bytes (Suc k) n = be_bytes k (n div 256) @ [word_of_nat n]"

definition be_val :: "bytes \<Rightarrow> nat" where
  "be_val bs = foldl (\<lambda>n b. n * 256 + unat b) 0 bs"

lemma be_val_Nil [simp]: "be_val [] = 0"
  by (simp add: be_val_def)

lemma be_val_snoc [simp]: "be_val (bs @ [b]) = be_val bs * 256 + unat b"
  by (simp add: be_val_def)

lemma length_be_bytes [simp]: "length (be_bytes k n) = k"
  by (induction k arbitrary: n) simp_all

lemma be_val_bytes [codec_simps]: "be_val (be_bytes k n) = n mod 256 ^ k"
  by (induction k arbitrary: n) (simp_all add: unat_of_nat mod_mult2_eq)

lemma be_bytes_val [codec_simps]: "be_bytes (length bs) (be_val bs) = bs"
proof (induction bs rule: rev_induct)
  case (snoc b bs)
  have "(be_val bs * 256 + unat b) div 256 = be_val bs" by (simp add: div_eq_0_iff)
  moreover have "word_of_nat (be_val bs * 256 + unat b) = b"
    by (subst word_unat_eq_iff) (simp only: unat_of_nat, simp)
  ultimately show ?case using snoc.IH by simp
qed simp

lemma be_val_less: "be_val bs < 256 ^ length bs"
proof (induction bs rule: rev_induct)
  case (snoc b bs)
  have "be_val bs * 256 + unat b < (be_val bs + 1) * 256" by simp
  also have "\<dots> \<le> 256 ^ length bs * 256" using snoc.IH by (simp only: mult_le_mono1 Suc_leI Suc_eq_plus1 [symmetric])
  finally show ?case by (simp add: mult.commute)
qed simp

lemma htonl_not_big: "1 \<noteq> htonl 1"
  by (simp add: htonl_def)

lemma ucast_drop_of_nat:
  "ucast (drop_bit k (word_of_nat n :: 'a::len word)) = (word_of_nat (n div 2 ^ k) :: byte)"
  if "k + 8 \<le> LENGTH('a)"
  by (rule bit_word_eqI) (use that in \<open>simp add: bit_simps flip: drop_bit_eq_div\<close>)

lemma mem16_htons_ucast: "mem16 (htons w) = [ucast (drop_bit 8 w), ucast w]"
  by (simp add: mem16_def htons_def byte_eq_iff bit_simps)

lemma mem64_htonll_ucast:
  "mem64 (htonll w) = [ucast (drop_bit 56 w), ucast (drop_bit 48 w), ucast (drop_bit 40 w),
     ucast (drop_bit 32 w), ucast (drop_bit 24 w), ucast (drop_bit 16 w), ucast (drop_bit 8 w), ucast w]"
  using htonl_not_big by (simp add: mem64_def htonll_def htonl_def byte_eq_iff bit_simps)

lemma ucast_of_nat_byte: "8 \<le> LENGTH('a) \<Longrightarrow> ucast (word_of_nat n :: 'a::len word) = (word_of_nat n :: byte)"
  using ucast_drop_of_nat [of 0, where 'a = 'a] by simp

lemma be_bytes_unfold:
  "be_bytes 2 n = [word_of_nat (n div 2 ^ 8), word_of_nat n]"
  "be_bytes 8 n = [word_of_nat (n div 2 ^ 56), word_of_nat (n div 2 ^ 48), word_of_nat (n div 2 ^ 40),
     word_of_nat (n div 2 ^ 32), word_of_nat (n div 2 ^ 24), word_of_nat (n div 2 ^ 16),
     word_of_nat (n div 2 ^ 8), word_of_nat n]"
proof -
  have "2 = Suc (Suc 0)" "8 = Suc (Suc (Suc (Suc (Suc (Suc (Suc (Suc 0)))))))" by simp_all
  note unf = this [THEN arg_cong [where f = "\<lambda>k. be_bytes k n"]]
  show "be_bytes 2 n = [word_of_nat (n div 2 ^ 8), word_of_nat n]"
    unfolding unf be_bytes.simps append.simps by simp
  show "be_bytes 8 n = [word_of_nat (n div 2 ^ 56), word_of_nat (n div 2 ^ 48), word_of_nat (n div 2 ^ 40),
     word_of_nat (n div 2 ^ 32), word_of_nat (n div 2 ^ 24), word_of_nat (n div 2 ^ 16),
     word_of_nat (n div 2 ^ 8), word_of_nat n]"
    unfolding unf be_bytes.simps append.simps div_mult2_eq [symmetric] by simp
qed

lemma mem16_htons [codec_simps]: "mem16 (htons (word_of_nat n)) = be_bytes 2 n"
  unfolding mem16_htons_ucast be_bytes_unfold by (simp add: ucast_drop_of_nat ucast_of_nat_byte)

lemma mem64_htonll [codec_simps]: "mem64 (htonll (word_of_nat n)) = be_bytes 8 n"
  unfolding mem64_htonll_ucast be_bytes_unfold by (simp add: ucast_drop_of_nat ucast_of_nat_byte)

lemma load16_mem16 [simp]: "load16 (mem16 w) = w"
  by (rule bit_word_eqI) (auto simp: load16_def mem16_def bit_simps)

lemma load64_mem64 [simp]: "load64 (mem64 w) = w"
proof (rule bit_word_eqI)
  fix n assume "n < LENGTH(64)"
  then consider "n < 8" | "8 \<le> n" "n < 16" | "16 \<le> n" "n < 24" | "24 \<le> n" "n < 32"
    | "32 \<le> n" "n < 40" | "40 \<le> n" "n < 48" | "48 \<le> n" "n < 56" | "56 \<le> n" "n < 64"
    by (simp, linarith)
  then show "bit (load64 (mem64 w)) n = bit w n"
    by cases (simp_all add: load64_def mem64_def bit_simps less_diff_conv2)
qed

lemma htons_htons [simp]: "htons (htons w) = w"
  by (rule bit_word_eqI) (auto simp: htons_def bit_simps)

lemma htonl_masks:
  "htonl w = push_bit 24 w OR push_bit 8 (w AND push_bit 8 (mask 8))
     OR drop_bit 8 (w AND push_bit 16 (mask 8)) OR drop_bit 24 w"
  by (simp add: htonl_def mask_eq_exp_minus_1 push_bit_eq_mult)

lemma htonl_htonl [simp]: "htonl (htonl w) = w"
proof (rule bit_word_eqI)
  fix n assume "n < LENGTH(32)"
  then consider "n < 8" | "8 \<le> n" "n < 16" | "16 \<le> n" "n < 24" | "24 \<le> n" "n < 32"
    by (simp, linarith)
  then show "bit (htonl (htonl w)) n = bit w n"
    by cases (simp_all add: htonl_masks bit_simps less_diff_conv2, auto dest: bit_imp_le_length)
qed

lemma htonll_htonll [simp]: "htonll (htonll w) = w"
proof -
  define h l where "h = (ucast (drop_bit 32 w) :: u32)" "l = (ucast w :: u32)"
  have w: "ucast (w AND 0xFFFFFFFF) = (ucast w :: u32)" for w :: u64
  proof -
    have m: "0xFFFFFFFF = (mask 32 :: u64)" by (simp add: mask_eq_exp_minus_1)
    show ?thesis unfolding m by (rule bit_word_eqI) (simp add: bit_simps)
  qed
  have join: "ucast (drop_bit 32 (push_bit 32 (ucast a) OR ucast b :: u64)) = a"
    "ucast (push_bit 32 (ucast a) OR ucast b :: u64) = b" for a b :: u32
    by (rule bit_word_eqI; auto simp: bit_simps dest: bit_imp_le_length)+
  have "push_bit 32 (ucast h) OR ucast l = w"
    unfolding h_l_def by (rule bit_word_eqI) (auto simp: bit_simps not_less)
  then show ?thesis
    unfolding htonll_def if_not_P [OF htonl_not_big] w join htonl_htonl h_l_def .
qed

lemma ntohs_value [codec_simps]:
  assumes "length bs = 2" shows "unat (ntohs (load16 bs)) = be_val bs"
proof -
  have "load16 bs = htons (word_of_nat (be_val bs))"
    using mem16_htons [of "be_val bs"] be_bytes_val [of bs] assms load16_mem16 by metis
  then show ?thesis using be_val_less [of bs] assms by (simp add: unat_of_nat)
qed

lemma ntohll_value [codec_simps]:
  assumes "length bs = 8" shows "unat (ntohll (load64 bs)) = be_val bs"
proof -
  have "load64 bs = htonll (word_of_nat (be_val bs))"
    using mem64_htonll [of "be_val bs"] be_bytes_val [of bs] assms load64_mem64 by metis
  then show ?thesis using be_val_less [of bs] assms by (simp add: unat_of_nat)
qed

end
