(* ===== verification/Utf8.thy ===== *)
theory Utf8
  imports Prelude
begin

text \<open>
  The three UTF-8 checks of the program. \<open>Utf8Validator\<close> (libwsc/src/Utf8Validator.cpp) is
  the streaming automaton the receiver feeds fragment by fragment; \<open>isValidUtf8\<close>
  (WebSocketReceiver.cpp) checks the reason of a close frame in one pass over an indexed
  buffer; \<open>is_valid_utf8\<close> (ws_bridge_glue.cpp) checks the arguments of the API command, as
  NUL terminated C strings. The specification is RFC 3629: a byte string is well formed when
  it is the concatenation of the encodings of Unicode scalar values.
\<close>

section \<open>Specification: RFC 3629\<close>

definition scalar :: "nat \<Rightarrow> bool" where
  "scalar cp \<longleftrightarrow> cp < 0x110000 \<and> \<not> (0xD800 \<le> cp \<and> cp \<le> 0xDFFF)"

definition utf8_enc :: "nat \<Rightarrow> bytes" where
  "utf8_enc cp =
     (if cp < 0x80 then [word_of_nat cp]
      else if cp < 0x800 then
        [word_of_nat (0xC0 + cp div 64), word_of_nat (0x80 + cp mod 64)]
      else if cp < 0x10000 then
        [word_of_nat (0xE0 + cp div 4096), word_of_nat (0x80 + cp div 64 mod 64),
         word_of_nat (0x80 + cp mod 64)]
      else
        [word_of_nat (0xF0 + cp div 262144), word_of_nat (0x80 + cp div 4096 mod 64),
         word_of_nat (0x80 + cp div 64 mod 64), word_of_nat (0x80 + cp mod 64)])"

definition well_formed :: "bytes \<Rightarrow> bool" where
  "well_formed bs \<longleftrightarrow> (\<exists>cps. list_all scalar cps \<and> bs = concat (map utf8_enc cps))"

text \<open>The grammar of section 4 of the RFC, as an executable recogniser.\<close>

definition tail_byte :: "byte \<Rightarrow> bool" where
  "tail_byte b \<longleftrightarrow> 0x80 \<le> b \<and> b \<le> 0xBF"

definition second3 :: "byte \<Rightarrow> byte \<Rightarrow> bool" where
  "second3 b0 b1 \<longleftrightarrow> tail_byte b1 \<and> (b0 = 0xE0 \<longrightarrow> 0xA0 \<le> b1) \<and> (b0 = 0xED \<longrightarrow> b1 \<le> 0x9F)"

definition second4 :: "byte \<Rightarrow> byte \<Rightarrow> bool" where
  "second4 b0 b1 \<longleftrightarrow> tail_byte b1 \<and> (b0 = 0xF0 \<longrightarrow> 0x90 \<le> b1) \<and> (b0 = 0xF4 \<longrightarrow> b1 \<le> 0x8F)"

fun rfc3629 :: "bytes \<Rightarrow> bool" where
  "rfc3629 [] = True"
| "rfc3629 (b0 # r) =
     (if b0 < 0x80 then rfc3629 r
      else if 0xC2 \<le> b0 \<and> b0 \<le> 0xDF then
        (case r of b1 # r1 \<Rightarrow> tail_byte b1 \<and> rfc3629 r1 | _ \<Rightarrow> False)
      else if 0xE0 \<le> b0 \<and> b0 \<le> 0xEF then
        (case r of b1 # b2 # r2 \<Rightarrow> second3 b0 b1 \<and> tail_byte b2 \<and> rfc3629 r2 | _ \<Rightarrow> False)
      else if 0xF0 \<le> b0 \<and> b0 \<le> 0xF4 then
        (case r of b1 # b2 # b3 # r3 \<Rightarrow>
           second4 b0 b1 \<and> tail_byte b2 \<and> tail_byte b3 \<and> rfc3629 r3 | _ \<Rightarrow> False)
      else False)"

text \<open>The grammar and the encodings describe the same strings.\<close>

lemma rfc3629_enc:
  assumes "scalar cp" shows "rfc3629 (utf8_enc cp @ bs) = rfc3629 bs"
proof -
  consider "cp < 0x80" | "0x80 \<le> cp" "cp < 0x800" | "0x800 \<le> cp" "cp < 0x10000" | "0x10000 \<le> cp" "cp < 0x110000"
    using assms unfolding scalar_def by linarith
  then show ?thesis
  proof cases
    case 1
    then show ?thesis by (simp add: utf8_enc_def byte_nat_simps)
  next
    case 2
    define b0 b1 :: byte where "b0 = word_of_nat (0xC0 + cp div 64)"
      and "b1 = word_of_nat (0x80 + cp mod 64)"
    have enc: "utf8_enc cp = [b0, b1]" using 2 by (simp add: utf8_enc_def b0_def b1_def)
    have "2 \<le> cp div 64" "cp div 64 < 32" using 2 by simp_all
    moreover from this have u: "unat b0 = 0xC0 + cp div 64" "unat b1 = 0x80 + cp mod 64"
      unfolding b0_def b1_def by (subst unat_of_small, simp, simp)+
    moreover have "cp mod 64 \<le> 63" using mod_less_divisor [of 64 cp] by linarith
    ultimately show ?thesis using 2 by (simp add: enc tail_byte_def byte_nat_simps u)
  next
    case 3
    define b0 b1 b2 :: byte where "b0 = word_of_nat (0xE0 + cp div 4096)"
      and "b1 = word_of_nat (0x80 + cp div 64 mod 64)" and "b2 = word_of_nat (0x80 + cp mod 64)"
    have enc: "utf8_enc cp = [b0, b1, b2]" using 3 by (simp add: utf8_enc_def b0_def b1_def b2_def)
    have u: "unat b0 = 0xE0 + cp div 4096" "unat b1 = 0x80 + cp div 64 mod 64" "unat b2 = 0x80 + cp mod 64"
      using 3 unfolding b0_def b1_def b2_def by (subst unat_of_small, simp, simp)+
    define q where "q = cp div 64"
    have q: "cp div 4096 = q div 64" "32 \<le> q" "q < 864 \<or> 896 \<le> q"
      using 3 assms div_mult2_eq [of cp 64 64] unfolding scalar_def q_def by auto
    have d: "cp div 4096 = 0 \<Longrightarrow> 32 \<le> cp div 64 mod 64" "cp div 4096 = 13 \<Longrightarrow> cp div 64 mod 64 < 32"
      using q(2,3) div_mult_mod_eq [of q 64] unfolding q(1) q_def [symmetric] by auto
    have s2: "second3 b0 b1" "tail_byte b2"
      using d by (auto simp: second3_def tail_byte_def byte_nat_simps u)
    have "cp div 4096 \<le> 15" using 3 by simp
    then show ?thesis using 3 s2 by (simp add: enc byte_nat_simps u)
  next
    case 4
    define b0 b1 b2 b3 :: byte where "b0 = word_of_nat (0xF0 + cp div 262144)"
      and "b1 = word_of_nat (0x80 + cp div 4096 mod 64)"
      and "b2 = word_of_nat (0x80 + cp div 64 mod 64)" and "b3 = word_of_nat (0x80 + cp mod 64)"
    have enc: "utf8_enc cp = [b0, b1, b2, b3]"
      using 4 by (simp add: utf8_enc_def b0_def b1_def b2_def b3_def)
    have d5: "cp div 262144 < 5" using 4 by simp
    have u: "unat b0 = 0xF0 + cp div 262144" "unat b1 = 0x80 + cp div 4096 mod 64"
      "unat b2 = 0x80 + cp div 64 mod 64" "unat b3 = 0x80 + cp mod 64"
      using d5 unfolding b0_def b1_def b2_def b3_def by (subst unat_of_small, simp, simp)+
    define q where "q = cp div 4096"
    have q: "cp div 262144 = q div 64" "16 \<le> q" "q < 272"
      using 4 div_mult2_eq [of cp 4096 64] unfolding q_def by simp_all
    have d: "cp div 262144 = 0 \<Longrightarrow> 16 \<le> cp div 4096 mod 64" "cp div 262144 = 4 \<Longrightarrow> cp div 4096 mod 64 < 16"
      using q(2,3) div_mult_mod_eq [of q 64] unfolding q(1) q_def [symmetric] by auto
    have s2: "second4 b0 b1" "tail_byte b2" "tail_byte b3"
      using d by (auto simp: second4_def tail_byte_def byte_nat_simps u)
    show ?thesis using d5 s2 by (simp add: enc byte_nat_simps u)
  qed
qed

lemma rfc3629_concat: "list_all scalar cps \<Longrightarrow> rfc3629 (concat (map utf8_enc cps))"
  by (induction cps) (simp_all add: rfc3629_enc)


lemma well_formed_Cons: "scalar cp \<Longrightarrow> well_formed bs \<Longrightarrow> well_formed (utf8_enc cp @ bs)"
  unfolding well_formed_def
  by (elim exE, rule_tac x = "cp # cps" in exI) simp

lemma tail_split:
  assumes "tail_byte b"
  obtains m where "m < 64" "unat b = 0x80 + m" "b = word_of_nat (0x80 + m)"
proof -
  have "0x80 \<le> unat b" "unat b < 0x80 + 64" using assms by (simp_all add: tail_byte_def byte_nat_simps)
  then show ?thesis using byte_split [of "0x80" b] that by (metis nat_add_left_cancel_less)
qed

lemma enc2_exists:
  assumes "0xC2 \<le> b0" "b0 \<le> 0xDF" "tail_byte b1"
  shows "\<exists>cp. scalar cp \<and> utf8_enc cp = [b0, b1]"
proof -
  have b: "0xC2 \<le> unat b0" "unat b0 \<le> 0xDF" using assms by (simp_all add: byte_nat_simps)
  obtain k where k: "unat b0 = 0xC0 + k" "b0 = word_of_nat (0xC0 + k)"
    using b byte_split [of "0xC0" b0] by auto
  obtain m where m: "m < 64" "b1 = word_of_nat (0x80 + m)"
    using tail_split [OF assms(3)] .
  have "scalar (64 * k + m)" "utf8_enc (64 * k + m) = [b0, b1]"
    using b k m by (auto simp: scalar_def utf8_enc_def)
  then show ?thesis by blast
qed

lemma enc3_exists:
  assumes "0xE0 \<le> b0" "b0 \<le> 0xEF" "second3 b0 b1" "tail_byte b2"
  shows "\<exists>cp. scalar cp \<and> utf8_enc cp = [b0, b1, b2]"
proof -
  have b: "0xE0 \<le> unat b0" "unat b0 \<le> 0xEF" using assms by (simp_all add: byte_nat_simps)
  obtain k where k: "unat b0 = 0xE0 + k" "b0 = word_of_nat (0xE0 + k)"
    using b byte_split [of "0xE0" b0] by auto
  obtain m where m: "m < 64" "unat b1 = 0x80 + m" "b1 = word_of_nat (0x80 + m)"
    using tail_split assms(3) unfolding second3_def by blast
  obtain n where n: "n < 64" "b2 = word_of_nat (0x80 + n)"
    using tail_split [OF assms(4)] .
  have r: "k = 0 \<Longrightarrow> 32 \<le> m" "k = 13 \<Longrightarrow> m < 32"
    using assms(3) k(1) m(2) by (auto simp: second3_def byte_nat_simps)
  define cp where "cp = 64 * (64 * k + m) + n"
  have q: "cp div 64 = 64 * k + m" "cp mod 64 = n" unfolding cp_def by (rule div_mod_64 [OF n(1)])+
  then have d: "cp div 4096 = k" "cp div 64 mod 64 = m"
    using m(1) div_mult2_eq [of cp 64 64] by simp_all
  have "k < 16" using b k(1) by simp
  have "0x800 \<le> cp" using r(1) unfolding cp_def by (cases "k = 0") simp_all
  moreover have "cp < 0x10000" using \<open>k < 16\<close> m(1) n(1) unfolding cp_def by simp
  moreover have "\<not> (0xD800 \<le> cp \<and> cp \<le> 0xDFFF)"
  proof -
    consider "k < 13" | "k = 13" | "14 \<le> k" by linarith
    then show ?thesis using r(2) m(1) n(1) unfolding cp_def by cases auto
  qed
  ultimately have "scalar cp" "utf8_enc cp = [b0, b1, b2]"
    using k m n by (simp_all add: scalar_def utf8_enc_def d q(2))
  then show ?thesis by blast
qed

lemma enc4_exists:
  assumes "0xF0 \<le> b0" "b0 \<le> 0xF4" "second4 b0 b1" "tail_byte b2" "tail_byte b3"
  shows "\<exists>cp. scalar cp \<and> utf8_enc cp = [b0, b1, b2, b3]"
proof -
  have b: "0xF0 \<le> unat b0" "unat b0 \<le> 0xF4" using assms by (simp_all add: byte_nat_simps)
  obtain k where k: "unat b0 = 0xF0 + k" "b0 = word_of_nat (0xF0 + k)"
    using b byte_split [of "0xF0" b0] by auto
  obtain m where m: "m < 64" "unat b1 = 0x80 + m" "b1 = word_of_nat (0x80 + m)"
    using tail_split assms(3) unfolding second4_def by blast
  obtain n where n: "n < 64" "b2 = word_of_nat (0x80 + n)"
    using tail_split [OF assms(4)] .
  obtain p where p: "p < 64" "b3 = word_of_nat (0x80 + p)"
    using tail_split [OF assms(5)] .
  have r: "k = 0 \<Longrightarrow> 16 \<le> m" "k = 4 \<Longrightarrow> m < 16"
    using assms(3) k(1) m(2) by (auto simp: second4_def byte_nat_simps)
  define cp where "cp = 64 * (64 * (64 * k + m) + n) + p"
  have q: "cp div 64 = 64 * (64 * k + m) + n" "cp mod 64 = p" unfolding cp_def by (rule div_mod_64 [OF p(1)])+
  have q2: "cp div 4096 = 64 * k + m" "cp div 64 mod 64 = n"
    using div_mult2_eq [of cp 64 64] by (simp_all only: q div_mod_64 [OF n(1)]) simp
  have d: "cp div 262144 = k" "cp div 4096 mod 64 = m"
    using div_mult2_eq [of cp 4096 64] by (simp_all only: q2 div_mod_64 [OF m(1)]) simp
  have "k < 5" using b k(1) by simp
  have "0x10000 \<le> cp" using r(1) unfolding cp_def by (cases "k = 0") simp_all
  moreover have "cp < 0x110000"
  proof -
    consider "k < 4" | "k = 4" using \<open>k < 5\<close> by linarith
    then show ?thesis using r(2) m(1) n(1) p(1) unfolding cp_def by cases auto
  qed
  ultimately have "scalar cp" "utf8_enc cp = [b0, b1, b2, b3]"
    using k m n p by (simp_all add: scalar_def utf8_enc_def d q(2) q2(2))
  then show ?thesis by blast
qed

lemma rfc3629_imp_well_formed: "rfc3629 bs \<Longrightarrow> well_formed bs"
proof (induction bs rule: length_induct)
  case (1 bs)
  note IH = "1.IH" [rule_format]
  show ?case
  proof (cases bs)
    case Nil
    then show ?thesis by (auto simp: well_formed_def intro: exI [of _ "[]"])
  next
    case (Cons b0 r)
    have step: "well_formed bs" if "bs = pre @ suf" "pre \<noteq> []" "rfc3629 suf" "\<exists>cp. scalar cp \<and> utf8_enc cp = pre"
      for pre suf
      using that IH [of suf] well_formed_Cons by fastforce
    consider "b0 < 0x80" "rfc3629 r"
      | b1 r1 where "r = b1 # r1" "0xC2 \<le> b0" "b0 \<le> 0xDF" "tail_byte b1" "rfc3629 r1"
      | b1 b2 r2 where "r = b1 # b2 # r2" "0xE0 \<le> b0" "b0 \<le> 0xEF" "second3 b0 b1" "tail_byte b2" "rfc3629 r2"
      | b1 b2 b3 r3 where "r = b1 # b2 # b3 # r3" "0xF0 \<le> b0" "b0 \<le> 0xF4" "second4 b0 b1"
          "tail_byte b2" "tail_byte b3" "rfc3629 r3"
      using "1.prems" Cons by (auto split: if_splits list.splits)
    then show ?thesis
    proof cases
      case 1
      have "scalar (unat b0)" "utf8_enc (unat b0) = [b0]"
        using 1 by (simp_all add: scalar_def utf8_enc_def byte_nat_simps)
      then show ?thesis using step [of "[b0]" r] 1 Cons by auto
    next
      case 2
      then show ?thesis using step [of "[b0, b1]" r1] enc2_exists Cons by simp
    next
      case 3
      then show ?thesis using step [of "[b0, b1, b2]" r2] enc3_exists Cons by simp
    next
      case 4
      then show ?thesis using step [of "[b0, b1, b2, b3]" r3] enc4_exists Cons by simp
    qed
  qed
qed

lemma well_formed_iff: "well_formed bs \<longleftrightarrow> rfc3629 bs"
  using rfc3629_imp_well_formed rfc3629_concat unfolding well_formed_def by blast

section \<open>Utf8Validator\<close>

record utf8v =
  expectedContinuation :: int
  seenE0 :: bool
  seenED :: bool
  seenF0 :: bool
  seenF4 :: bool

definition Utf8Validator :: utf8v where
  "Utf8Validator = \<lparr>expectedContinuation = 0, seenE0 = False, seenED = False,
     seenF0 = False, seenF4 = False\<rparr>"

definition utf8_reset :: "utf8v \<Rightarrow> utf8v" where
  "utf8_reset v = v\<lparr>expectedContinuation := 0, seenE0 := False, seenED := False,
     seenF0 := False, seenF4 := False\<rparr>"

text \<open>One pass through the loop body: \<open>False\<close> where the code returns false.\<close>

definition validateByte :: "byte \<Rightarrow> utf8v \<Rightarrow> bool \<times> utf8v" where
  "validateByte b v =
     (if expectedContinuation v = 0 then
        if b < 0x80 then (True, v)
        else if drop_bit 5 b = 0x6 then
          if b < 0xC2 \<or> b > 0xDF then (False, v)
          else (True, v\<lparr>expectedContinuation := 1\<rparr>)
        else if drop_bit 4 b = 0xE then
          (True, v\<lparr>seenE0 := (b = 0xE0), seenED := (b = 0xED), expectedContinuation := 2\<rparr>)
        else if drop_bit 3 b = 0x1E then
          (let v1 = v\<lparr>seenF0 := (b = 0xF0), seenF4 := (b = 0xF4)\<rparr> in
           if b < 0xF0 \<or> b > 0xF4 then (False, v1)
           else (True, v1\<lparr>expectedContinuation := 3\<rparr>))
        else (False, v)
      else
        if drop_bit 6 b \<noteq> 0x2 then (False, v)
        else if seenE0 v \<and> expectedContinuation v = 2 \<and> b < 0xA0 then (False, v)
        else if seenED v \<and> expectedContinuation v = 2 \<and> b > 0x9F then (False, v)
        else if seenF0 v \<and> expectedContinuation v = 3 \<and> b < 0x90 then (False, v)
        else if seenF4 v \<and> expectedContinuation v = 3 \<and> b > 0x8F then (False, v)
        else
          (let v1 = v\<lparr>expectedContinuation := expectedContinuation v - 1\<rparr> in
           if expectedContinuation v1 = 0 then
             (True, v1\<lparr>seenE0 := False, seenED := False, seenF0 := False, seenF4 := False\<rparr>)
           else (True, v1)))"

fun validateChunk :: "bytes \<Rightarrow> utf8v \<Rightarrow> bool \<times> utf8v" where
  "validateChunk [] v = (True, v)"
| "validateChunk (b # bs) v =
     (case validateByte b v of
        (True, v') \<Rightarrow> validateChunk bs v'
      | (False, v') \<Rightarrow> (False, v'))"

definition validateFinal :: "utf8v \<Rightarrow> bool" where
  "validateFinal v \<longleftrightarrow> expectedContinuation v = 0"

text \<open>Validating a whole message, as the receiver does for an unfragmented text frame.\<close>

definition validateMessage :: "bytes \<Rightarrow> utf8v \<Rightarrow> bool \<times> utf8v" where
  "validateMessage bs v =
     (case validateChunk bs (utf8_reset v) of (ok, v') \<Rightarrow> (ok \<and> validateFinal v', v'))"

subsection \<open>The automaton accepts exactly the well-formed strings\<close>

definition accepts :: "utf8v \<Rightarrow> bytes \<Rightarrow> bool" where
  "accepts v bs = (case validateChunk bs v of (ok, v') \<Rightarrow> ok \<and> validateFinal v')"

lemma validateChunk_append:
  "validateChunk (xs @ ys) v =
     (case validateChunk xs v of (True, v') \<Rightarrow> validateChunk ys v' | (False, v') \<Rightarrow> (False, v'))"
  by (induction xs arbitrary: v) (auto split: prod.splits bool.splits)

lemma accepts_Cons: "accepts v (b # bs) = (case validateByte b v of (ok, v') \<Rightarrow> ok \<and> accepts v' bs)"
  by (auto simp: accepts_def split: prod.splits bool.splits)

lemma accepts_waiting: "expectedContinuation v \<noteq> 0 \<Longrightarrow> \<not> accepts v []"
  by (simp add: accepts_def validateFinal_def)

lemma accepts_tail1:
  "accepts \<lparr>expectedContinuation = 1, seenE0 = e0, seenED = ed, seenF0 = f0, seenF4 = f4\<rparr> (b # bs)
     \<longleftrightarrow> tail_byte b \<and> accepts Utf8Validator bs"
  by (auto simp add: accepts_Cons validateByte_def byte_simps tail_byte_def Utf8Validator_def)

lemma accepts_tail2:
  "accepts \<lparr>expectedContinuation = 2, seenE0 = e0, seenED = ed, seenF0 = f0, seenF4 = f4\<rparr> (b # bs)
     \<longleftrightarrow> tail_byte b \<and> (e0 \<longrightarrow> 0xA0 \<le> b) \<and> (ed \<longrightarrow> b \<le> 0x9F) \<and>
         accepts \<lparr>expectedContinuation = 1, seenE0 = e0, seenED = ed, seenF0 = f0, seenF4 = f4\<rparr> bs"
  by (auto simp add: accepts_Cons validateByte_def byte_simps tail_byte_def not_less not_le)

lemma accepts_tail3:
  "accepts \<lparr>expectedContinuation = 3, seenE0 = e0, seenED = ed, seenF0 = f0, seenF4 = f4\<rparr> (b # bs)
     \<longleftrightarrow> tail_byte b \<and> (f0 \<longrightarrow> 0x90 \<le> b) \<and> (f4 \<longrightarrow> b \<le> 0x8F) \<and>
         accepts \<lparr>expectedContinuation = 2, seenE0 = e0, seenED = ed, seenF0 = f0, seenF4 = f4\<rparr> bs"
  by (auto simp add: accepts_Cons validateByte_def byte_simps tail_byte_def not_less not_le)

lemma accepts_lead:
  "accepts Utf8Validator (b # bs) \<longleftrightarrow>
     (if b < 0x80 then accepts Utf8Validator bs
      else if 0xC2 \<le> b \<and> b \<le> 0xDF then accepts (Utf8Validator\<lparr>expectedContinuation := 1\<rparr>) bs
      else if 0xE0 \<le> b \<and> b \<le> 0xEF then
        accepts (Utf8Validator\<lparr>seenE0 := (b = 0xE0), seenED := (b = 0xED), expectedContinuation := 2\<rparr>) bs
      else if 0xF0 \<le> b \<and> b \<le> 0xF4 then
        accepts (Utf8Validator\<lparr>seenF0 := (b = 0xF0), seenF4 := (b = 0xF4), expectedContinuation := 3\<rparr>) bs
      else False)"
  by (simp add: accepts_Cons validateByte_def byte_simps Utf8Validator_def Let_def)
    (auto simp: word_le_nat_alt word_less_nat_alt)

lemma accepts_iff_rfc3629: "accepts Utf8Validator bs = rfc3629 bs"
proof (induction bs rule: rfc3629.induct)
  case 1
  then show ?case by (simp add: accepts_def validateFinal_def Utf8Validator_def)
next
  case (2 b0 r)
  show ?case
    using 2 unfolding accepts_lead rfc3629.simps
    by (auto simp: Utf8Validator_def accepts_tail1 accepts_tail2 accepts_tail3 accepts_waiting
        second3_def second4_def split: list.splits)
qed

definition utf8_inv :: "utf8v \<Rightarrow> bool" where
  "utf8_inv v \<longleftrightarrow>
     (expectedContinuation v = 0 \<longrightarrow> v = Utf8Validator) \<and>
     0 \<le> expectedContinuation v \<and> expectedContinuation v \<le> 3 \<and>
     \<not> (seenE0 v \<and> seenED v) \<and> \<not> (seenF0 v \<and> seenF4 v) \<and>
     (seenE0 v \<or> seenED v \<longrightarrow> expectedContinuation v \<le> 2) \<and>
     (expectedContinuation v = 3 \<longrightarrow> \<not> seenE0 v \<and> \<not> seenED v)"

lemma utf8_inv_init [simp, intro]: "utf8_inv Utf8Validator"
  by (simp add: utf8_inv_def Utf8Validator_def)

lemma utf8_reset_init [simp]: "utf8_reset v = Utf8Validator"
  by (simp add: utf8_reset_def Utf8Validator_def)

lemma validateByte_waiting:
  assumes "expectedContinuation v \<noteq> 0" "validateByte b v = (True, v')"
  shows "v' = (if expectedContinuation v = 1 then Utf8Validator
    else v\<lparr>expectedContinuation := expectedContinuation v - 1\<rparr>)"
  using assms by (cases v) (simp add: validateByte_def Let_def Utf8Validator_def split: if_splits)

lemma utf8_inv_step:
  assumes "utf8_inv v" "validateByte b v = (True, v')" shows "utf8_inv v'"
proof (cases "expectedContinuation v = 0")
  case True
  then have "v = Utf8Validator" using assms(1) by (simp add: utf8_inv_def)
  then show ?thesis using assms(2)
    by (auto simp: validateByte_def Utf8Validator_def utf8_inv_def Let_def split: if_splits)
next
  case False
  then show ?thesis using validateByte_waiting [OF False assms(2)] assms(1)
    by (simp add: utf8_inv_def Utf8Validator_def split: if_splits)
qed

lemma utf8_inv_chunk: "utf8_inv v \<Longrightarrow> validateChunk bs v = (True, v') \<Longrightarrow> utf8_inv v'"
  by (induction bs arbitrary: v) (auto split: prod.splits bool.splits dest: utf8_inv_step)

lemma accepts_completable:
  assumes "utf8_inv v" shows "\<exists>ext. accepts v ext"
proof -
  obtain n e0 ed f0 f4 where v: "v = \<lparr>expectedContinuation = n, seenE0 = e0, seenED = ed, seenF0 = f0, seenF4 = f4\<rparr>"
    by (cases v)
  have nil: "accepts Utf8Validator []" by (simp add: accepts_iff_rfc3629)
  let ?b2 = "if e0 then 0xA0 else 0x80 :: byte" and ?b3 = "if f0 then 0x90 else 0x80 :: byte"
  have "0 \<le> n \<and> n \<le> 3" using assms unfolding v utf8_inv_def by simp
  then consider "n = 0" | "n = 1" | "n = 2" | "n = 3" by linarith
  then show ?thesis
  proof cases
    case 1
    then have "v = Utf8Validator" using assms v by (simp add: utf8_inv_def)
    then show ?thesis using nil by blast
  next
    case 2
    then have "accepts v [0x80]" unfolding v by (simp add: accepts_tail1 tail_byte_def nil)
    then show ?thesis by blast
  next
    case 3
    then have "accepts v [?b2, 0x80]" using assms unfolding v
      by (auto simp: accepts_tail1 accepts_tail2 tail_byte_def nil utf8_inv_def)
    then show ?thesis by blast
  next
    case 4
    then have "accepts v [?b3, 0x80, 0x80]" using assms unfolding v
      by (auto simp: accepts_tail1 accepts_tail2 accepts_tail3 tail_byte_def nil utf8_inv_def)
    then show ?thesis by blast
  qed
qed

lemma validateChunk_viable:
  "fst (validateChunk bs Utf8Validator) \<longleftrightarrow> (\<exists>ext. well_formed (bs @ ext))"
proof
  assume "fst (validateChunk bs Utf8Validator)"
  then obtain v where v: "validateChunk bs Utf8Validator = (True, v)"
    by (cases "validateChunk bs Utf8Validator") auto
  then obtain ext where "accepts v ext"
    using accepts_completable utf8_inv_chunk utf8_inv_init by metis
  then have "accepts Utf8Validator (bs @ ext)"
    using v by (simp add: accepts_def validateChunk_append)
  then show "\<exists>ext. well_formed (bs @ ext)"
    by (auto simp: accepts_iff_rfc3629 well_formed_iff)
next
  assume "\<exists>ext. well_formed (bs @ ext)"
  then obtain ext where "accepts Utf8Validator (bs @ ext)"
    by (auto simp: accepts_iff_rfc3629 well_formed_iff)
  then show "fst (validateChunk bs Utf8Validator)"
    by (auto simp: accepts_def validateChunk_append split: prod.splits bool.splits)
qed


section \<open>The interface a streaming validator offers\<close>

text \<open>
  The receiver starts a validator, feeds it the fragments of a message as they arrive and
  asks at the end whether the input was complete. \<open>feed_all\<close> is that use; the laws say that
  cutting the input into fragments changes nothing and that an early rejection is final.
\<close>

fun feed_all :: "(bytes \<Rightarrow> 's \<Rightarrow> bool \<times> 's) \<Rightarrow> bytes list \<Rightarrow> 's \<Rightarrow> bool \<times> 's" where
  "feed_all feed [] v = (True, v)"
| "feed_all feed (c # cs) v =
     (case feed c v of (True, v') \<Rightarrow> feed_all feed cs v' | (False, v') \<Rightarrow> (False, v'))"

locale chunk_validator =
  fixes start :: 's
    and feed :: "bytes \<Rightarrow> 's \<Rightarrow> bool \<times> 's"
    and complete :: "'s \<Rightarrow> bool"
    and lang :: "bytes \<Rightarrow> bool"
  assumes feed_Nil: "feed [] v = (True, v)"
    and feed_append: "feed (xs @ ys) v =
      (case feed xs v of (True, v') \<Rightarrow> feed ys v' | (False, v') \<Rightarrow> (False, v'))"
    and feed_lang: "(case feed bs start of (ok, v) \<Rightarrow> ok \<and> complete v) \<longleftrightarrow> lang bs"
    and feed_viable: "fst (feed bs start) \<longleftrightarrow> (\<exists>ext. lang (bs @ ext))"
begin

lemma feed_all_concat: "feed_all feed cs v = feed (concat cs) v"
  by (induction cs arbitrary: v) (auto simp: feed_Nil feed_append split: prod.splits bool.splits)

lemma fragments_lang:
  "(case feed_all feed cs start of (ok, v) \<Rightarrow> ok \<and> complete v) \<longleftrightarrow> lang (concat cs)"
  by (simp only: feed_all_concat feed_lang)

lemma rejection_final: "fst (feed_all feed cs start) \<longleftrightarrow> (\<exists>ext. lang (concat cs @ ext))"
  by (simp only: feed_all_concat feed_viable)

end

interpretation utf8: chunk_validator Utf8Validator validateChunk validateFinal well_formed
  using accepts_iff_rfc3629 validateChunk_append validateChunk_viable
  by unfold_locales (simp_all add: accepts_def well_formed_iff)

section \<open>isValidUtf8, the check of close reasons\<close>

text \<open>
  The code indexes \<open>bytes\<close>; every read at \<open>i + k\<close> comes after the test \<open>i + k >= len\<close>, so
  the model reads with \<open>!\<close> only below the length.
\<close>

function isValidUtf8_from :: "bytes \<Rightarrow> nat \<Rightarrow> bool" where
  "isValidUtf8_from bs i =
     (let len = length bs in
      if i < len then
        if bs ! i \<le> 0x7F then isValidUtf8_from bs (i + 1)
        else if 0xF5 \<le> bs ! i \<or> (0xC0 \<le> bs ! i \<and> bs ! i \<le> 0xC1) then False
        else if bs ! i AND 0xE0 = 0xC0 then
          if len \<le> i + 1 \<or> bs ! (i + 1) AND 0xC0 \<noteq> 0x80 then False
          else isValidUtf8_from bs (i + 2)
        else if bs ! i AND 0xF0 = 0xE0 then
          if len \<le> i + 2 \<or> bs ! (i + 1) AND 0xC0 \<noteq> 0x80 \<or> bs ! (i + 2) AND 0xC0 \<noteq> 0x80 then False
          else if bs ! i = 0xE0 \<and> bs ! (i + 1) < 0xA0 then False
          else if bs ! i = 0xED \<and> 0xA0 \<le> bs ! (i + 1) then False
          else isValidUtf8_from bs (i + 3)
        else if bs ! i AND 0xF8 = 0xF0 then
          if len \<le> i + 3 \<or> bs ! (i + 1) AND 0xC0 \<noteq> 0x80 \<or> bs ! (i + 2) AND 0xC0 \<noteq> 0x80
             \<or> bs ! (i + 3) AND 0xC0 \<noteq> 0x80 then False
          else if bs ! i = 0xF0 \<and> bs ! (i + 1) < 0x90 then False
          else if bs ! i = 0xF4 \<and> bs ! (i + 1) > 0x8F then False
          else isValidUtf8_from bs (i + 4)
        else False
      else True)"
  by pat_completeness auto
termination
  by (relation "measure (\<lambda>(bs, i). length bs - i)") auto

declare isValidUtf8_from.simps [simp del]

definition isValidUtf8 :: "bytes \<Rightarrow> bool" where
  "isValidUtf8 bs = isValidUtf8_from bs 0"

lemma lead2_tests:
  fixes b :: byte
  assumes "0xC2 \<le> b" "b \<le> 0xDF"
  shows "\<not> b \<le> 0x7F" "\<not> b < 0x80" "\<not> 0xF5 \<le> b" "\<not> b \<le> 0xC1" "b AND 0xE0 = 0xC0"
  using assms by (simp_all add: byte_simps) (simp_all add: byte_nat_simps)

lemma lead3_tests:
  fixes b :: byte
  assumes "0xE0 \<le> b" "b \<le> 0xEF"
  shows "\<not> b \<le> 0x7F" "\<not> b < 0x80" "\<not> 0xF5 \<le> b" "\<not> b \<le> 0xC1" "\<not> b \<le> 0xDF"
    "b AND 0xE0 \<noteq> 0xC0" "b AND 0xF0 = 0xE0"
  using assms by (simp_all add: byte_simps) (simp_all add: byte_nat_simps)

lemma lead4_tests:
  fixes b :: byte
  assumes "0xF0 \<le> b" "b \<le> 0xF4"
  shows "\<not> b \<le> 0x7F" "\<not> b < 0x80" "\<not> 0xF5 \<le> b" "\<not> b \<le> 0xC1" "\<not> b \<le> 0xDF" "\<not> b \<le> 0xEF"
    "b AND 0xE0 \<noteq> 0xC0" "b AND 0xF0 \<noteq> 0xE0" "b AND 0xF8 = 0xF0"
  using assms by (simp_all add: byte_simps) (simp_all add: byte_nat_simps)

lemma lead_low_tests:
  fixes b :: byte
  assumes "0x80 \<le> b" "b < 0xC2"
  shows "\<not> b \<le> 0x7F" "\<not> b < 0x80" "\<not> 0xF5 \<le> b" "\<not> 0xC2 \<le> b" "\<not> 0xE0 \<le> b" "\<not> 0xF0 \<le> b"
    "b AND 0xE0 = 0xC0 \<Longrightarrow> 0xC0 \<le> b \<and> b \<le> 0xC1" "b AND 0xF0 \<noteq> 0xE0" "b AND 0xF8 \<noteq> 0xF0"
  using assms by (simp_all add: byte_simps) (simp_all add: byte_nat_simps)

lemma lead_high_tests:
  fixes b :: byte
  assumes "0xF5 \<le> b"
  shows "\<not> b \<le> 0x7F" "\<not> b < 0x80" "\<not> b \<le> 0xDF" "\<not> b \<le> 0xEF" "\<not> b \<le> 0xF4"
  using assms by (simp_all add: byte_nat_simps)

lemma A0_le:
  "0xA0 \<le> (b::byte) \<longleftrightarrow> \<not> b \<le> 0x9F" "(b::byte) < 0xA0 \<longleftrightarrow> b \<le> 0x9F"
  by (auto simp: word_le_nat_alt word_less_nat_alt)

lemma n90_le: "(b::byte) < 0x90 \<longleftrightarrow> \<not> 0x90 \<le> b" "0x8F < (b::byte) \<longleftrightarrow> \<not> b \<le> 0x8F"
  by auto

lemma not_tail_mask: "b AND 0xC0 \<noteq> 0x80 \<longleftrightarrow> \<not> tail_byte b"
  by (simp add: byte_simps tail_byte_def)

lemma short_list_cases:
  obtains "xs = []" | a where "xs = [a]" | a b where "xs = [a, b]" | a b c ys where "xs = a # b # c # ys"
  by (metis list.exhaust)

lemma isValidUtf8_from_drop: "isValidUtf8_from bs i = rfc3629 (drop i bs)"
proof (induction "length bs - i" arbitrary: i rule: less_induct)
  case (less i)
  show ?case
  proof (cases "drop i bs")
    case Nil
    then show ?thesis by (simp add: isValidUtf8_from.simps)
  next
    case (Cons b0 r)
    then have i: "i < length bs" by (metis drop_eq_Nil list.discI not_le)
    have IH: "isValidUtf8_from bs (i + k) = rfc3629 (drop k (b0 # r))" if "0 < k" for k
      using less.hyps [of "i + k"] that i Cons [symmetric] by (simp add: add.commute)
    have nth: "bs ! (i + k) = (b0 # r) ! k" if "k < length (b0 # r)" for k
      using that Cons [symmetric] i by simp
    have len: "length bs \<le> i + k \<longleftrightarrow> length (b0 # r) \<le> k" for k
      unfolding Cons [symmetric] by auto
    have nth0: "bs ! i = b0" using nth [of 0] by simp
    note unf = isValidUtf8_from.simps [of bs i] rfc3629.simps(2) [of b0 r] nth0 Let_def len not_tail_mask
    note nths = nth [of 1] nth [of 2] nth [of 3]
    consider "b0 < 0x80" | "0x80 \<le> b0" "b0 < 0xC2" | "0xC2 \<le> b0" "b0 \<le> 0xDF"
      | "0xE0 \<le> b0" "b0 \<le> 0xEF" | "0xF0 \<le> b0" "b0 \<le> 0xF4" | "0xF5 \<le> b0"
      unfolding word_le_nat_alt word_less_nat_alt by (simp, linarith)
    then show ?thesis
    proof cases
      case 1
      then show ?thesis using i IH [of 1] unfolding Cons unf by (simp add: byte_nat_simps)
    next
      case 2
      note t = lead_low_tests [OF 2]
      show ?thesis using i unfolding Cons unf by (auto simp: t)
    next
      case 3
      note t = lead2_tests [OF 3]
      show ?thesis using 3 i nths IH [of 2] unfolding Cons unf
        by (cases r) (simp_all add: t del: rfc3629.simps(2))
    next
      case 4
      note t = lead3_tests [OF 4]
      show ?thesis using 4 i nths IH [of 3] unfolding Cons unf
        by (cases r rule: short_list_cases) (auto simp del: rfc3629.simps(2) simp: t second3_def A0_le)
    next
      case 5
      note t = lead4_tests [OF 5]
      show ?thesis using 5 i nths IH [of 4] unfolding Cons unf
        by (cases r rule: short_list_cases) (auto simp del: rfc3629.simps(2) simp: t second4_def n90_le)
    next
      case 6
      note t = lead_high_tests [OF 6]
      show ?thesis using i 6 unfolding Cons unf by (simp add: t)
    qed
  qed
qed

section \<open>is_valid_utf8, the check of API arguments\<close>

text \<open>
  A C string is its characters followed by one NUL. \<open>c_at s i\<close> reads position \<open>i\<close>: \<open>None\<close>
  is a read past the terminator, which is undefined behaviour in C. The \<open>||\<close> of the code
  evaluates left to right and stops at the first true operand; \<open>cont_at\<close> is one operand.
\<close>

definition c_at :: "bytes \<Rightarrow> nat \<Rightarrow> byte option" where
  "c_at s i = (if i < length s then Some (s ! i) else if i = length s then Some 0 else None)"

fun conts_at :: "bytes \<Rightarrow> nat \<Rightarrow> nat \<Rightarrow> bool option" where
  "conts_at s i 0 = Some True"
| "conts_at s i (Suc n) =
     (case c_at s i of
        None \<Rightarrow> None
      | Some b \<Rightarrow> if b AND 0xC0 \<noteq> 0x80 then Some False else conts_at s (Suc i) n)"

function is_valid_utf8_from :: "bytes \<Rightarrow> nat \<Rightarrow> bool option" where
  "is_valid_utf8_from s i =
     (case c_at s i of
        None \<Rightarrow> None
      | Some b \<Rightarrow>
          if b = 0 then Some True
          else if b AND 0x80 = 0x00 then is_valid_utf8_from s (i + 1)
          else if b AND 0xE0 = 0xC0 then
            (case conts_at s (i + 1) 1 of
               Some True \<Rightarrow> is_valid_utf8_from s (i + 2) | r \<Rightarrow> r)
          else if b AND 0xF0 = 0xE0 then
            (case conts_at s (i + 1) 2 of
               Some True \<Rightarrow> is_valid_utf8_from s (i + 3) | r \<Rightarrow> r)
          else if b AND 0xF8 = 0xF0 then
            (case conts_at s (i + 1) 3 of
               Some True \<Rightarrow> is_valid_utf8_from s (i + 4) | r \<Rightarrow> r)
          else Some False)"
  by pat_completeness auto
termination
  by (relation "measure (\<lambda>(s, i). Suc (length s) - i)") (auto simp: c_at_def split: if_splits)

declare is_valid_utf8_from.simps [simp del]

definition is_valid_utf8 :: "bytes \<Rightarrow> bool option" where
  "is_valid_utf8 s = is_valid_utf8_from s 0"

text \<open>What it accepts: lead bytes by their high bits, each followed by its continuation bytes.\<close>

fun lenient :: "bytes \<Rightarrow> bool" where
  "lenient [] = True"
| "lenient (b0 # r) =
     (if b0 = 0 then True
      else if b0 < 0x80 then lenient r
      else if 0xC0 \<le> b0 \<and> b0 \<le> 0xDF then
        (case r of b1 # r1 \<Rightarrow> tail_byte b1 \<and> lenient r1 | _ \<Rightarrow> False)
      else if 0xE0 \<le> b0 \<and> b0 \<le> 0xEF then
        (case r of b1 # b2 # r2 \<Rightarrow> tail_byte b1 \<and> tail_byte b2 \<and> lenient r2 | _ \<Rightarrow> False)
      else if 0xF0 \<le> b0 \<and> b0 \<le> 0xF7 then
        (case r of b1 # b2 # b3 # r3 \<Rightarrow>
           tail_byte b1 \<and> tail_byte b2 \<and> tail_byte b3 \<and> lenient r3 | _ \<Rightarrow> False)
      else False)"

lemma rfc3629_lenient: "rfc3629 bs \<Longrightarrow> lenient bs"
proof (induction bs rule: rfc3629.induct)
  case (2 b0 r)
  note IH = "2.IH"
  have nz: "b0 \<noteq> 0" if "\<not> b0 < 0x80" using that by auto
  consider "b0 < 0x80" "rfc3629 r"
    | b1 r1 where "r = b1 # r1" "0xC2 \<le> b0" "b0 \<le> 0xDF" "tail_byte b1" "rfc3629 r1"
    | b1 b2 r2 where "r = b1 # b2 # r2" "0xE0 \<le> b0" "b0 \<le> 0xEF" "second3 b0 b1" "tail_byte b2" "rfc3629 r2"
    | b1 b2 b3 r3 where "r = b1 # b2 # b3 # r3" "0xF0 \<le> b0" "b0 \<le> 0xF4" "second4 b0 b1"
        "tail_byte b2" "tail_byte b3" "rfc3629 r3"
    using "2.prems" by (auto split: if_splits list.splits)
  then show ?case
  proof cases
    case 1
    then show ?thesis using IH by simp
  next
    case 2
    have "0xC0 \<le> b0" using 2 by (simp add: byte_nat_simps)
    then show ?thesis using 2 IH(2) nz lead2_tests [OF 2(2,3)] by simp
  next
    case 3
    then show ?thesis using IH(3) nz lead3_tests [OF 3(2,3)] by (simp add: second3_def)
  next
    case 4
    have "b0 \<le> 0xF7" using 4 by (simp add: byte_nat_simps)
    then show ?thesis using 4 IH(4) nz lead4_tests [OF 4(2,3)] by (simp add: second4_def)
  qed
qed simp

lemma conts_at_eq:
  "i \<le> length s \<Longrightarrow>
     conts_at s i n = Some (n \<le> length s - i \<and> list_all tail_byte (take n (drop i s)))"
proof (induction n arbitrary: i)
  case (Suc n)
  show ?case
  proof (cases "i < length s")
    case True
    then have "drop i s = s ! i # drop (Suc i) s" by (simp add: Cons_nth_drop_Suc)
    then show ?thesis using True Suc.IH [of "Suc i"] by (auto simp: c_at_def not_tail_mask)
  next
    case False
    then show ?thesis using Suc.prems by (simp add: c_at_def)
  qed
qed simp

lemma is_valid_utf8_from_drop:
  "i \<le> length s \<Longrightarrow> is_valid_utf8_from s i = Some (lenient (drop i s))"
proof (induction "length s - i" arbitrary: i rule: less_induct)
  case (less i)
  show ?case
  proof (cases "drop i s")
    case Nil
    then have "c_at s i = Some 0" using less.prems by (simp add: c_at_def)
    then show ?thesis using Nil by (simp add: is_valid_utf8_from.simps)
  next
    case (Cons b0 r)
    then have i: "i < length s" by (metis drop_eq_Nil list.discI not_le)
    have at: "c_at s i = Some b0" using Cons i nth_via_drop by (force simp: c_at_def)
    have r: "drop (Suc i) s = r" "length s - Suc i = length r"
      using Cons i by (metis drop_Suc tl_drop list.sel(3), metis drop_Suc tl_drop list.sel(3) length_drop)
    have IH: "is_valid_utf8_from s (Suc i + k) = Some (lenient (drop k r))" if "k \<le> length r" for k
    proof -
      have "drop (Suc i + k) s = drop k r" unfolding r(1) [symmetric] by (simp add: add.commute)
      then show ?thesis using less.hyps [of "Suc i + k"] that i r(2) by simp
    qed
    have cont: "conts_at s (i + 1) n = Some (n \<le> length r \<and> list_all tail_byte (take n r))" for n
      using conts_at_eq [of "Suc i" s n] i r by simp
    have next_at: "is_valid_utf8_from s (i + 1) = Some (lenient r)"
      "1 \<le> length r \<Longrightarrow> is_valid_utf8_from s (i + 2) = Some (lenient (drop 1 r))"
      "2 \<le> length r \<Longrightarrow> is_valid_utf8_from s (i + 3) = Some (lenient (drop 2 r))"
      "3 \<le> length r \<Longrightarrow> is_valid_utf8_from s (i + 4) = Some (lenient (drop 3 r))"
      using IH [of 0] IH [of 1] IH [of 2] IH [of 3] by (simp_all add: eval_nat_numeral)
    have branch:
      "(case conts_at s (i + 1) 1 of Some True \<Rightarrow> is_valid_utf8_from s (i + 2) | r \<Rightarrow> r) =
        Some (1 \<le> length r \<and> list_all tail_byte (take 1 r) \<and> lenient (drop 1 r))"
      "(case conts_at s (i + 1) 2 of Some True \<Rightarrow> is_valid_utf8_from s (i + 3) | r \<Rightarrow> r) =
        Some (2 \<le> length r \<and> list_all tail_byte (take 2 r) \<and> lenient (drop 2 r))"
      "(case conts_at s (i + 1) 3 of Some True \<Rightarrow> is_valid_utf8_from s (i + 4) | r \<Rightarrow> r) =
        Some (3 \<le> length r \<and> list_all tail_byte (take 3 r) \<and> lenient (drop 3 r))"
      unfolding cont using next_at by (auto split: bool.splits)
    have unf: "is_valid_utf8_from s i = Some
        (if b0 = 0 then True
         else if b0 < 0x80 then lenient r
         else if 0xC0 \<le> b0 \<and> b0 \<le> 0xDF then
           1 \<le> length r \<and> list_all tail_byte (take 1 r) \<and> lenient (drop 1 r)
         else if 0xE0 \<le> b0 \<and> b0 \<le> 0xEF then
           2 \<le> length r \<and> list_all tail_byte (take 2 r) \<and> lenient (drop 2 r)
         else if 0xF0 \<le> b0 \<and> b0 \<le> 0xF7 then
           3 \<le> length r \<and> list_all tail_byte (take 3 r) \<and> lenient (drop 3 r)
         else False)"
      unfolding is_valid_utf8_from.simps [of s i] at option.case byte_simps branch next_at(1)
      by (simp only: if_distrib [of Some])
    show ?thesis unfolding unf Cons lenient.simps(2) [of b0 r]
      by (cases r rule: short_list_cases) (simp_all del: lenient.simps(2))
  qed
qed

lemma is_valid_utf8_lenient: "is_valid_utf8 s = Some (lenient s)"
  by (simp add: is_valid_utf8_def is_valid_utf8_from_drop)

lemma isValidUtf8_iff: "isValidUtf8 bs \<longleftrightarrow> well_formed bs"
  by (simp add: isValidUtf8_def isValidUtf8_from_drop well_formed_iff)

section \<open>Properties\<close>

text \<open>C24: A text message passes the receiver's validation (reset, one chunk, final check) exactly
  when it is a concatenation of encodings of Unicode scalar values, whatever state the
  validator was left in by an earlier message.\<close>

theorem validateMessage_correct: "fst (validateMessage bs v) \<longleftrightarrow> well_formed bs"
  using utf8.feed_lang [of bs] by (auto simp: validateMessage_def split: prod.splits)

text \<open>Validation of a fragmented message does not depend on where the fragments are cut:
  feeding the fragments one by one and checking at the end accepts exactly the fragment lists
  whose concatenation is well formed.\<close>

theorem validateChunk_fragments:
  "(case feed_all validateChunk fragments Utf8Validator of (ok, v) \<Rightarrow> ok \<and> validateFinal v)
     \<longleftrightarrow> well_formed (concat fragments)"
  by (rule utf8.fragments_lang)

text \<open>The validator rejects as early as possible and never too early: a sequence of fragments
  is rejected exactly when no further bytes could make it well formed.\<close>

theorem validateChunk_fails_fast:
  "fst (feed_all validateChunk fragments Utf8Validator)
     \<longleftrightarrow> (\<exists>ext. well_formed (concat fragments @ ext))"
  by (rule utf8.rejection_final)

text \<open>The indexed check of close reasons accepts exactly the well-formed strings, so it agrees
  with the streaming validator.\<close>

theorem isValidUtf8_correct: "isValidUtf8 bs \<longleftrightarrow> well_formed bs"
  by (rule isValidUtf8_iff)

text \<open>The check of API arguments never reads past the terminator of its C string, and it
  accepts every well-formed string.\<close>

theorem is_valid_utf8_safe:
  "\<exists>ok. is_valid_utf8 s = Some ok \<and> (well_formed s \<longrightarrow> ok)"
  using is_valid_utf8_lenient rfc3629_lenient well_formed_iff by blast

theorem is_valid_utf8_safe_witness: "is_valid_utf8 [0xE2, 0x82, 0xAC] = Some True"
proof -
  have "well_formed [0xE2, 0x82, 0xAC]" unfolding well_formed_iff by code_simp
  then show ?thesis using is_valid_utf8_safe [of "[0xE2, 0x82, 0xAC]"] by auto
qed

text \<open>The check of API arguments is weaker than UTF-8: it accepts an overlong encoding, an
  encoded surrogate and a code point above the Unicode range.\<close>

theorem is_valid_utf8_too_weak:
  "is_valid_utf8 [0xC0, 0x80] = Some True \<and> \<not> well_formed [0xC0, 0x80] \<and>
   is_valid_utf8 [0xED, 0xA0, 0x80] = Some True \<and> \<not> well_formed [0xED, 0xA0, 0x80] \<and>
   is_valid_utf8 [0xF7, 0xBF, 0xBF, 0xBF] = Some True \<and> \<not> well_formed [0xF7, 0xBF, 0xBF, 0xBF]"
  unfolding is_valid_utf8_lenient well_formed_iff
  by (simp add: tail_byte_def second3_def)

end
