(* ===== verification/Compression.thy ===== *)
theory Compression
  imports Utf8
begin

text \<open>
  Per-message compression (RFC 7692) of WebSocketReceiver.cpp: the negotiated configuration,
  the transmitting half (\<open>txPrepare\<close>, \<open>txDeflate\<close> and their resets) and the receiving half
  (\<open>rxInflate\<close> and its resets). The class keeps both halves in one object; they share nothing
  but the configuration, which \<open>initializeCompression\<close> and \<open>shutdownCompression\<close> write to
  both, so they are two records here. zlib and libevent are parameters: the fields of the
  record \<open>ext\<close>, one per function the code calls, on abstract stream states \<open>'d\<close> and \<open>'i\<close>.
\<close>

section \<open>The configuration and the libraries\<close>

record pmd_config =
  enabled :: bool
  client_no_context_takeover :: bool
  server_no_context_takeover :: bool
  client_max_window_bits :: int
  server_max_window_bits :: int
  compression_level :: int

definition PerMessageDeflateConfig :: pmd_config where
  "PerMessageDeflateConfig = \<lparr>enabled = False, client_no_context_takeover = False,
     server_no_context_takeover = False, client_max_window_bits = 15,
     server_max_window_bits = 15, compression_level = - 1\<rparr>"

abbreviation "Z_OK \<equiv> 0 :: int"
abbreviation "Z_STREAM_END \<equiv> 1 :: int"
abbreviation "Z_BUF_ERROR \<equiv> - 5 :: int"

text \<open>\<open>deflate Z d inp cap\<close> is deflate(Z_SYNC_FLUSH) on the input \<open>inp\<close> with \<open>cap\<close> bytes of room:
  the return code, the new stream and the bytes written. \<open>inflate Z i src cap\<close> is
  inflate(Z_SYNC_FLUSH): the return code, the new stream, the input left and the bytes
  written. \<open>pullup Z buf n\<close> is evbuffer_pullup: the first \<open>n\<close> bytes, or a null pointer. The clock
  and the address that seed the mask generator are \<open>time_now\<close> and \<open>seed_address\<close>.\<close>

record ('d, 'i) ext =
  deflate_zero :: 'd
  deflateInit2 :: "'d \<Rightarrow> int \<Rightarrow> int \<Rightarrow> int \<times> 'd"
  deflateEnd :: "'d \<Rightarrow> 'd"
  deflateReset :: "'d \<Rightarrow> 'd"
  deflateBound :: "'d \<Rightarrow> nat \<Rightarrow> nat"
  deflate :: "'d \<Rightarrow> bytes \<Rightarrow> nat \<Rightarrow> int \<times> 'd \<times> bytes"
  inflate_zero :: 'i
  inflateInit2 :: "'i \<Rightarrow> int \<Rightarrow> int \<times> 'i"
  inflateEnd :: "'i \<Rightarrow> 'i"
  inflateReset :: "'i \<Rightarrow> 'i"
  inflate :: "'i \<Rightarrow> bytes \<Rightarrow> nat \<Rightarrow> int \<times> 'i \<times> bytes \<times> bytes"
  pullup :: "bytes \<Rightarrow> nat \<Rightarrow> bytes option"
  time_now :: u64
  seed_address :: u64

definition sync_trailer :: bytes where
  "sync_trailer = [0x00, 0x00, 0xFF, 0xFF]"

section \<open>The transmitting half\<close>

record 'd ws_tx =
  tx_cfg :: pmd_config
  deflate_stream :: 'd
  deflate_initialized :: bool
  tx_compressed_buf :: bytes
  tx_payload_len :: nat

definition txInitDeflate :: "('d, 'i) ext \<Rightarrow> 'd ws_tx \<Rightarrow> bool \<times> 'd ws_tx" where
  "txInitDeflate Z t =
     (case deflateInit2 Z (deflate_zero Z) (compression_level (tx_cfg t))
             (- client_max_window_bits (tx_cfg t)) of
        (ret, d) \<Rightarrow>
          if ret \<noteq> Z_OK then (False, t\<lparr>deflate_stream := d\<rparr>)
          else (True, t\<lparr>deflate_stream := d, deflate_initialized := True\<rparr>))"

definition txResetDeflate :: "('d, 'i) ext \<Rightarrow> 'd ws_tx \<Rightarrow> 'd ws_tx" where
  "txResetDeflate Z t =
     (if \<not> deflate_initialized t then t
      else t\<lparr>deflate_stream := deflateReset Z (deflate_stream t)\<rparr>)"

definition txReinitAfterNoContextTakeover :: "('d, 'i) ext \<Rightarrow> 'd ws_tx \<Rightarrow> bool \<times> 'd ws_tx" where
  "txReinitAfterNoContextTakeover Z t =
     (if \<not> deflate_initialized t then (False, t)
      else
        (let t1 = t\<lparr>deflate_initialized := False, deflate_stream := deflate_zero Z\<rparr> in
         case deflateInit2 Z (deflate_stream t1) (compression_level (tx_cfg t1))
                (- client_max_window_bits (tx_cfg t1)) of
           (init_ret, d) \<Rightarrow>
             if init_ret \<noteq> Z_OK then (False, t1\<lparr>deflate_stream := d\<rparr>)
             else (True, t1\<lparr>deflate_stream := d, deflate_initialized := True\<rparr>)))"

text \<open>\<open>std::vector::resize\<close>, and a C function writing \<open>out\<close> at the start of a buffer.\<close>

definition vec_resize :: "nat \<Rightarrow> bytes \<Rightarrow> bytes" where
  "vec_resize n buf = take n buf @ replicate (n - length buf) 0"

definition overwrite :: "bytes \<Rightarrow> bytes \<Rightarrow> bytes" where
  "overwrite out buf = out @ drop (length out) buf"

text \<open>\<open>avail_in\<close> and \<open>avail_out\<close> are 32-bit: the casts truncate.\<close>

text \<open>The checks of the loop body after the call of deflate, on the buffer of \<open>bound\<close> bytes:
  \<open>None\<close> where the code continues with a larger buffer.\<close>

definition txDeflate_check ::
    "('d, 'i) ext \<Rightarrow> nat \<Rightarrow> int \<Rightarrow> nat \<Rightarrow> 'd ws_tx \<Rightarrow> bool option \<times> 'd ws_tx" where
  "txDeflate_check Z bound ret avail_out t =
     (if ret \<noteq> Z_OK then
        if ret = Z_BUF_ERROR \<or> avail_out = 0 then (None, t) else (Some False, t)
      else
        (let n = bound - avail_out; buf = tx_compressed_buf t in
         if n < 4 then (None, t)
         else if \<not> (buf ! (n - 4) = 0x00 \<and> buf ! (n - 3) = 0x00 \<and>
                    buf ! (n - 2) = 0xFF \<and> buf ! (n - 1) = 0xFF) then (None, t)
         else
           (let t1 = t\<lparr>tx_payload_len := n - 4\<rparr> in
            if client_no_context_takeover (tx_cfg t1) then
              apfst Some (txReinitAfterNoContextTakeover Z t1)
            else (Some True, t1))))"

definition txDeflate_attempt ::
    "('d, 'i) ext \<Rightarrow> bytes \<Rightarrow> nat \<Rightarrow> 'd ws_tx \<Rightarrow> bool option \<times> 'd ws_tx" where
  "txDeflate_attempt Z inp attempt t =
     (let t1 = txResetDeflate Z t;
          extra = 64 * (attempt + 1);
          bound = deflateBound Z (deflate_stream t1) (length inp) + extra
      in case deflate Z (deflate_stream t1) (take (length inp mod 2 ^ 32) inp) (bound mod 2 ^ 32) of
           (ret, d, out) \<Rightarrow>
             txDeflate_check Z bound ret (bound mod 2 ^ 32 - length out)
               (t1\<lparr>deflate_stream := d,
                   tx_compressed_buf := overwrite out (vec_resize bound (tx_compressed_buf t1))\<rparr>))"

function txDeflate_loop :: "('d, 'i) ext \<Rightarrow> bytes \<Rightarrow> nat \<Rightarrow> 'd ws_tx \<Rightarrow> bool \<times> 'd ws_tx" where
  "txDeflate_loop Z inp attempt t =
     (if attempt < 4 then
        (case txDeflate_attempt Z inp attempt t of
           (None, t1) \<Rightarrow> txDeflate_loop Z inp (attempt + 1) t1
         | (Some ok, t1) \<Rightarrow> (ok, t1))
      else (False, t))"
  by pat_completeness auto
termination
  by (relation "measure (\<lambda>(Z, inp, attempt, t). 4 - attempt)") auto

declare txDeflate_loop.simps [simp del]

definition txDeflate :: "('d, 'i) ext \<Rightarrow> bytes \<Rightarrow> 'd ws_tx \<Rightarrow> bool \<times> 'd ws_tx" where
  "txDeflate Z inp t =
     (if \<not> deflate_initialized t then (False, t) else txDeflate_loop Z inp 0 t)"

text \<open>The result is the payload to send, whether it is compressed, and the new state.\<close>

definition txPrepare :: "('d, 'i) ext \<Rightarrow> bytes \<Rightarrow> bool \<Rightarrow> 'd ws_tx \<Rightarrow> bytes \<times> bool \<times> 'd ws_tx" where
  "txPrepare Z original request_compress t =
     (if \<not> request_compress then (original, False, t)
      else if \<not> enabled (tx_cfg t) then (original, False, t)
      else if \<not> deflate_initialized t then (original, False, t)
      else
        (case txDeflate Z original t of
           (False, t1) \<Rightarrow> (original, False, t1)
         | (True, t1) \<Rightarrow> (take (tx_payload_len t1) (tx_compressed_buf t1), True, t1)))"

section \<open>The receiving half\<close>

record 'i ws_rx =
  rx_cfg :: pmd_config
  inflate_stream :: 'i
  inflate_initialized :: bool
  message_in_progress :: bool
  compressed_message_in_progress :: bool
  fragmented_opcode :: nat
  fragmented_message :: bytes
  utf8Validator :: utf8v

definition rxInitInflate :: "('d, 'i) ext \<Rightarrow> 'i ws_rx \<Rightarrow> bool \<times> 'i ws_rx" where
  "rxInitInflate Z r =
     (case inflateInit2 Z (inflate_zero Z) (- server_max_window_bits (rx_cfg r)) of
        (ret, i) \<Rightarrow>
          if ret \<noteq> Z_OK then (False, r\<lparr>inflate_stream := i\<rparr>)
          else (True, r\<lparr>inflate_stream := i, inflate_initialized := True\<rparr>))"

definition rxResetInflate :: "('d, 'i) ext \<Rightarrow> 'i ws_rx \<Rightarrow> 'i ws_rx" where
  "rxResetInflate Z r =
     (if \<not> inflate_initialized r then r
      else snd (rxInitInflate Z
        (r\<lparr>inflate_stream := inflateEnd Z (inflate_stream r), inflate_initialized := False\<rparr>)))"

definition rxMaybeResetAfterMessage :: "('d, 'i) ext \<Rightarrow> 'i ws_rx \<Rightarrow> 'i ws_rx" where
  "rxMaybeResetAfterMessage Z r =
     (if enabled (rx_cfg r) \<and> server_no_context_takeover (rx_cfg r) then rxResetInflate Z r else r)"

text \<open>The loop of \<open>rxInflate\<close>: the verdict, the bytes appended to \<open>out\<close> and the stream. An
  iteration that meets Z_BUF_ERROR with a full buffer drops what it wrote, as the code does.\<close>

partial_function (option) rxInflate_loop ::
    "('d, 'i) ext \<Rightarrow> 'i \<Rightarrow> bytes \<Rightarrow> bytes \<Rightarrow> (bool \<times> bytes \<times> 'i) option" where
  "rxInflate_loop Z i src out =
     (let r = inflate Z i src 4096; ret = fst r; i1 = fst (snd r);
          src1 = fst (snd (snd r)); tmp = snd (snd (snd r));
          avail_out = 4096 - length tmp; avail_in = length src1
      in if ret = Z_BUF_ERROR then
           if avail_out = 0 then rxInflate_loop Z i1 src1 out
           else if avail_in = 0 then Some (True, out, i1)
           else Some (False, out, i1)
         else if ret \<noteq> Z_OK \<and> ret \<noteq> Z_STREAM_END then Some (False, out, i1)
         else
           (let out1 = out @ tmp in
            if ret = Z_STREAM_END then Some (True, out1, i1)
            else if avail_in = 0 \<and> avail_out \<noteq> 0 then Some (True, out1, i1)
            else rxInflate_loop Z i1 src1 out1))"

text \<open>\<open>None\<close> is a call that does not return.\<close>

definition rxInflate :: "('d, 'i) ext \<Rightarrow> bytes \<Rightarrow> 'i ws_rx \<Rightarrow> (bool \<times> bytes \<times> 'i ws_rx) option" where
  "rxInflate Z inp r =
     (if \<not> enabled (rx_cfg r) \<or> \<not> inflate_initialized r then Some (True, inp, r)
      else
        (let src = inp @ [0x00, 0x00, 0xFF, 0xFF];
             i0 = (if server_no_context_takeover (rx_cfg r) then inflateReset Z (inflate_stream r)
                   else inflate_stream r)
         in map_option (\<lambda>(ok, out, i). (ok, out, r\<lparr>inflate_stream := i\<rparr>))
              (rxInflate_loop Z i0 (take (length src mod 2 ^ 32) src) [])))"

section \<open>Set-up and shut-down of both halves\<close>

definition shutdownCompression ::
    "('d, 'i) ext \<Rightarrow> 'i ws_rx \<times> 'd ws_tx \<Rightarrow> 'i ws_rx \<times> 'd ws_tx" where
  "shutdownCompression Z s =
     (case s of (r, t) \<Rightarrow>
       (let r1 = (if inflate_initialized r then
                    r\<lparr>inflate_stream := inflateEnd Z (inflate_stream r), inflate_initialized := False\<rparr>
                  else r);
            t1 = (if deflate_initialized t then
                    t\<lparr>deflate_stream := deflateEnd Z (deflate_stream t), deflate_initialized := False\<rparr>
                  else t)
        in (r1\<lparr>rx_cfg := PerMessageDeflateConfig\<rparr>,
            t1\<lparr>tx_compressed_buf := [], tx_payload_len := 0, tx_cfg := PerMessageDeflateConfig\<rparr>)))"

definition initializeCompression ::
    "('d, 'i) ext \<Rightarrow> pmd_config \<Rightarrow> 'i ws_rx \<times> 'd ws_tx \<Rightarrow> bool \<times> 'i ws_rx \<times> 'd ws_tx" where
  "initializeCompression Z cfg s =
     (case shutdownCompression Z s of (r, t) \<Rightarrow>
       (let r1 = r\<lparr>rx_cfg := cfg\<rparr>; t1 = t\<lparr>tx_cfg := cfg\<rparr> in
        if \<not> enabled cfg then (True, r1, t1)
        else
          (case rxInitInflate Z r1 of
             (False, r2) \<Rightarrow> (False, shutdownCompression Z (r2, t1))
           | (True, r2) \<Rightarrow>
               (case txInitDeflate Z t1 of
                  (False, t2) \<Rightarrow>
                    (let r3 = (if inflate_initialized r2 then
                                 r2\<lparr>inflate_stream := inflateEnd Z (inflate_stream r2),
                                    inflate_initialized := False\<rparr>
                               else r2)
                     in (False, shutdownCompression Z (r3, t2)))
                | (True, t2) \<Rightarrow> (True, r2, t2)))))"

section \<open>What zlib and libevent document\<close>

text \<open>\<open>whole i src\<close> stands for the whole output a sync flush makes of \<open>src\<close> on the stream \<open>i\<close>,
  with the stream after it. inflate writes as much of that output as fits in its buffer; a call
  that has nothing to read and nothing to write reports Z_BUF_ERROR.\<close>

definition inflate_doc :: "('d, 'i) ext \<Rightarrow> ('i \<Rightarrow> bytes \<Rightarrow> (bytes \<times> 'i) option) \<Rightarrow> bool" where
  "inflate_doc Z whole \<longleftrightarrow>
     (\<forall>i src m i' cap. whole i src = Some (m, i') \<longrightarrow> 0 < cap \<longrightarrow>
        (m = [] \<and> src = [] \<longrightarrow> inflate Z i src cap = (Z_BUF_ERROR, i', [], [])) \<and>
        (\<not> (m = [] \<and> src = []) \<and> length m < cap \<longrightarrow> inflate Z i src cap = (Z_OK, i', [], m)) \<and>
        (cap \<le> length m \<longrightarrow>
           (\<exists>i1 src1. inflate Z i src cap = (Z_OK, i1, src1, take cap m) \<and>
              whole i1 src1 = Some (drop cap m, i'))))"

text \<open>A reset deflate stream never writes more than the room it has; deflateBound and 64 bytes
  leave room over; and a sync flush that leaves room over is complete, so that the peer's
  stream \<open>peer\<close> inflates it to the input.\<close>

definition deflate_doc ::
    "('d, 'i) ext \<Rightarrow> ('i \<Rightarrow> bytes \<Rightarrow> (bytes \<times> 'i) option) \<Rightarrow> 'i \<Rightarrow> bool" where
  "deflate_doc Z whole peer \<longleftrightarrow>
     (\<forall>d inp cap. case deflate Z (deflateReset Z d) inp cap of (ret, d', out) \<Rightarrow>
        length out \<le> cap \<and>
        (deflateBound Z (deflateReset Z d) (length inp) + 64 \<le> cap \<longrightarrow> length out < cap) \<and>
        (ret = Z_OK \<and> length out < cap \<longrightarrow> (\<exists>i'. whole peer out = Some (inp, i'))))"

text \<open>evbuffer_pullup makes the first bytes contiguous when there are that many; asked for more,
  or for none, it returns a null pointer.\<close>

definition pullup_doc :: "('d, 'i) ext \<Rightarrow> bool" where
  "pullup_doc Z \<longleftrightarrow> (\<forall>buf n. pullup Z buf n = (if 0 < n \<and> n \<le> length buf then Some (take n buf) else None))"

text \<open>A concrete instance for the witnesses: deflate stores its input and adds the trailer.\<close>

definition stored_whole :: "unit \<Rightarrow> bytes \<Rightarrow> (bytes \<times> unit) option" where
  "stored_whole i src =
     (if src = [] then Some ([], ())
      else if 4 \<le> length src \<and> drop (length src - 4) src = sync_trailer
        then Some (take (length src - 4) src, ())
      else None)"

definition stored_ext :: "(unit, unit) ext" where
  "stored_ext = \<lparr>
     deflate_zero = (), deflateInit2 = (\<lambda>d level bits. (Z_OK, ())), deflateEnd = (\<lambda>d. d),
     deflateReset = (\<lambda>d. d), deflateBound = (\<lambda>d n. n + 8),
     deflate = (\<lambda>d inp cap. if length inp + 4 \<le> cap then (Z_OK, (), inp @ sync_trailer)
                            else (Z_BUF_ERROR, (), [])),
     inflate_zero = (), inflateInit2 = (\<lambda>i bits. (Z_OK, ())), inflateEnd = (\<lambda>i. i),
     inflateReset = (\<lambda>i. i),
     inflate = (\<lambda>i src cap. case stored_whole i src of
                  None \<Rightarrow> (- 3, (), src, [])
                | Some (m, i') \<Rightarrow>
                    if src = [] then (Z_BUF_ERROR, (), [], [])
                    else if length m < cap then (Z_OK, (), [], m)
                    else (Z_OK, (), drop cap src, take cap src)),
     pullup = (\<lambda>buf n. if 0 < n \<and> n \<le> length buf then Some (take n buf) else None),
     time_now = 0x65000000, seed_address = 0x7F00DEADBEE8\<rparr>"

lemma stored_pullup_doc: "pullup_doc stored_ext"
  by (simp add: pullup_doc_def stored_ext_def)

lemma stored_deflate_doc: "deflate_doc stored_ext stored_whole ()"
  by (auto simp: deflate_doc_def stored_ext_def stored_whole_def sync_trailer_def)

lemma stored_inflate_doc: "inflate_doc stored_ext stored_whole"
  unfolding inflate_doc_def
proof (intro allI impI conjI, goal_cases)
  case (1 i src m i' cap)
  then show ?case by (simp add: stored_ext_def stored_whole_def)
next
  case (2 i src m i' cap)
  then show ?case by (auto simp: stored_ext_def stored_whole_def split: if_splits)
next
  case (3 i src m i' cap)
  have tr: "4 \<le> length src" "drop (length src - 4) src = sync_trailer" "m = take (length src - 4) src"
    using 3 by (auto simp: stored_whole_def split: if_splits)
  have "stored_whole () (drop cap src) = Some (drop cap m, ())"
  proof -
    have "length src - cap - 4 + cap = length src - 4" "4 \<le> length src - cap" using 3(3) tr by auto
    then show ?thesis using tr by (auto simp: stored_whole_def drop_take add.commute)
  qed
  moreover have "inflate stored_ext i src cap = (Z_OK, (), drop cap src, take cap m)"
    using 3(1,3) tr by (simp add: stored_ext_def min_absorb1) (auto simp: sync_trailer_def)
  ultimately show ?case by auto
qed

section \<open>Inflating a message\<close>

lemma rxInflate_loop_correct:
  assumes doc: "inflate_doc Z whole" and "whole i src = Some (m, i')"
  shows "rxInflate_loop Z i src out = Some (True, out @ m, i')"
  using assms(2)
proof (induction "length m" arbitrary: i src m out rule: less_induct)
  case less
  consider "m = []" "src = []" | "\<not> (m = [] \<and> src = [])" "length m < 4096" | "4096 \<le> length m"
    by linarith
  then show ?case
  proof cases
    case 1
    then have "inflate Z i src 4096 = (Z_BUF_ERROR, i', [], [])"
      using doc less.prems by (auto simp: inflate_doc_def)
    then show ?thesis using 1 by (subst rxInflate_loop.simps) simp
  next
    case 2
    then have "inflate Z i src 4096 = (Z_OK, i', [], m)"
      using doc less.prems by (auto simp: inflate_doc_def)
    then show ?thesis using 2 by (subst rxInflate_loop.simps) simp
  next
    case 3
    obtain i1 src1 where step: "inflate Z i src 4096 = (Z_OK, i1, src1, take 4096 m)"
      "whole i1 src1 = Some (drop 4096 m, i')"
      using doc less.prems 3 unfolding inflate_doc_def by (metis zero_less_numeral)
    have "rxInflate_loop Z i1 src1 (out @ take 4096 m) = Some (True, (out @ take 4096 m) @ drop 4096 m, i')"
      by (rule less.hyps [OF _ step(2)]) (use 3 in simp)
    then show ?thesis using 3 step(1) by (subst rxInflate_loop.simps) simp
  qed
qed

definition rx_stream :: "('d, 'i) ext \<Rightarrow> 'i ws_rx \<Rightarrow> 'i" where
  "rx_stream Z r = (if server_no_context_takeover (rx_cfg r) then inflateReset Z (inflate_stream r)
     else inflate_stream r)"

lemma rxInflate_message:
  assumes "inflate_doc Z whole" "enabled (rx_cfg r)" "inflate_initialized r"
    and "length inp + 4 < 2 ^ 32" "whole (rx_stream Z r) (inp @ sync_trailer) = Some (m, i')"
  shows "rxInflate Z inp r = Some (True, m, r\<lparr>inflate_stream := i'\<rparr>)"
  using assms rxInflate_loop_correct [OF assms(1,5), of "[]"]
  by (simp add: rxInflate_def rx_stream_def sync_trailer_def Let_def)

lemma rxInflate_raw:
  "\<not> enabled (rx_cfg r) \<Longrightarrow> rxInflate Z inp r = Some (True, inp, r)"
  by (simp add: rxInflate_def)

section \<open>Deflating a message\<close>

text \<open>What a successful \<open>txDeflate\<close> leaves behind: the output of one flush of the whole message,
  with its trailer stripped.\<close>

definition tx_payload :: "'d ws_tx \<Rightarrow> bytes" where
  "tx_payload t = take (tx_payload_len t) (tx_compressed_buf t)"

lemma txReinit_payload [simp]:
  "tx_payload (snd (txReinitAfterNoContextTakeover Z t)) = tx_payload t"
  by (simp add: txReinitAfterNoContextTakeover_def tx_payload_def Let_def split: prod.split)

lemma deflate_initialized_reset [simp]:
  "deflate_initialized (txResetDeflate Z t) = deflate_initialized t"
  by (simp add: txResetDeflate_def)

lemma txDeflate_check_None: "txDeflate_check Z bound ret avail t = (None, t1) \<Longrightarrow> t1 = t"
  by (simp add: txDeflate_check_def Let_def apfst_def map_prod_def split: if_split_asm prod.split_asm)

lemma txDeflate_check_True:
  assumes "txDeflate_check Z bound ret avail t = (Some True, t1)"
  shows "ret = Z_OK" "4 \<le> bound - avail"
    "tx_payload t1 = take (bound - avail - 4) (tx_compressed_buf t)"
    "map (\<lambda>k. tx_compressed_buf t ! (bound - avail - k)) [4, 3, 2, 1] = sync_trailer"
proof -
  have "txReinitAfterNoContextTakeover Z t' = (ok, t1) \<Longrightarrow> tx_payload t1 = tx_payload t'" for t' ok
    using txReinit_payload [of Z t'] by simp
  then show "ret = Z_OK" "4 \<le> bound - avail"
    "tx_payload t1 = take (bound - avail - 4) (tx_compressed_buf t)"
    "map (\<lambda>k. tx_compressed_buf t ! (bound - avail - k)) [4, 3, 2, 1] = sync_trailer"
    using assms by (auto simp: txDeflate_check_def Let_def sync_trailer_def apfst_def map_prod_def
        split: if_split_asm prod.split_asm) (simp_all add: tx_payload_def)
qed

lemma txDeflate_attempt_initialized:
  "deflate_initialized t \<Longrightarrow> txDeflate_attempt Z inp attempt t = (None, t1) \<Longrightarrow> deflate_initialized t1"
  by (auto simp: txDeflate_attempt_def Let_def dest!: txDeflate_check_None split: prod.splits)

lemma trailer_at_end:
  assumes "4 \<le> length out" "map (\<lambda>k. out ! (length out - k)) [4, 3, 2, 1] = sync_trailer"
  shows "take (length out - 4) out @ sync_trailer = out"
proof -
  have "drop (length out - 4) out = map (\<lambda>k. out ! (length out - k)) [4, 3, 2, 1]"
    using assms(1) by (intro nth_equalityI) (auto simp: numeral_eq_Suc less_Suc_eq nth_Cons')
  then show ?thesis using assms append_take_drop_id [of "length out - 4" out] by simp
qed

lemma txDeflate_attempt_sound:
  assumes doc: "deflate_doc Z whole peer" and init: "deflate_initialized t"
    and room: "length inp < 2 ^ 32" "\<And>d. deflateBound Z d (length inp) + 256 < 2 ^ 32" "attempt < 4"
    and res: "txDeflate_attempt Z inp attempt t = (Some True, t')"
  shows "(\<exists>i'. whole peer (tx_payload t' @ sync_trailer) = Some (inp, i')) \<and> length (tx_payload t') < 2 ^ 32"
proof -
  define t1 where "t1 = txResetDeflate Z t"
  define bound where "bound = deflateBound Z (deflate_stream t1) (length inp) + 64 * (attempt + 1)"
  obtain ret d out where step: "deflate Z (deflate_stream t1) inp bound = (ret, d, out)"
    by (metis prod_cases3)
  define buf where "buf = overwrite out (vec_resize bound (tx_compressed_buf t1))"
  have bound: "bound mod 2 ^ 32 = bound" "length inp mod 2 ^ 32 = length inp"
    "deflateBound Z (deflate_stream t1) (length inp) + 64 \<le> bound"
    using room(1,3) room(2) [of "deflate_stream t1"] by (simp_all add: bound_def)
  have stream: "deflate_stream t1 = deflateReset Z (deflate_stream t)"
    using init by (simp add: t1_def txResetDeflate_def)
  have out: "length out < bound" "ret = Z_OK \<Longrightarrow> \<exists>i'. whole peer out = Some (inp, i')"
    using doc [unfolded deflate_doc_def, THEN spec [where x = "deflate_stream t"], THEN spec [where x = inp],
        THEN spec [where x = bound]]
      bound(3) step by (auto simp: stream)
  have n: "bound - (bound - length out) = length out" using out(1) by simp
  have buf: "k < length out \<Longrightarrow> buf ! k = out ! k" "k \<le> length out \<Longrightarrow> take k buf = take k out" for k
    by (simp_all add: buf_def overwrite_def nth_append)
  have "txDeflate_check Z bound ret (bound - length out)
      (t1\<lparr>deflate_stream := d, tx_compressed_buf := buf\<rparr>) = (Some True, t')"
    using res unfolding txDeflate_attempt_def Let_def t1_def [symmetric] bound_def [symmetric] bound(1,2)
    by (simp add: step buf_def)
  note chk = txDeflate_check_True [OF this, unfolded n, simplified]
  have "take (length out - 4) out @ sync_trailer = out"
    using chk(2,4) by (intro trailer_at_end) (simp_all add: buf)
  moreover have "bound < 2 ^ 32" using room(2) [of "deflate_stream t1"] room(3) by (simp add: bound_def)
  ultimately show ?thesis using out chk(1,3) buf(2) by simp
qed

lemma txDeflate_loop_sound:
  assumes doc: "deflate_doc Z whole peer"
    and room: "length inp < 2 ^ 32" "\<And>d. deflateBound Z d (length inp) + 256 < 2 ^ 32"
  shows "deflate_initialized t \<Longrightarrow> txDeflate_loop Z inp attempt t = (True, t') \<Longrightarrow>
    (\<exists>i'. whole peer (tx_payload t' @ sync_trailer) = Some (inp, i')) \<and> length (tx_payload t') < 2 ^ 32"
proof (induction "4 - attempt" arbitrary: attempt t rule: less_induct)
  case less
  have attempt: "attempt < 4" using less.prems(2) by (cases "attempt < 4") (simp_all add: txDeflate_loop.simps)
  obtain r t1 where r: "txDeflate_attempt Z inp attempt t = (r, t1)" by fastforce
  show ?case
  proof (cases r)
    case None
    then have "txDeflate_loop Z inp (attempt + 1) t1 = (True, t')"
      using less.prems(2) attempt r by (subst (asm) txDeflate_loop.simps) simp
    then show ?thesis
      using less.hyps [of "attempt + 1" t1] attempt txDeflate_attempt_initialized [OF less.prems(1), of Z inp attempt t1] r None by auto
  next
    case (Some ok)
    then have "txDeflate_attempt Z inp attempt t = (Some True, t')"
      using less.prems(2) attempt r by (subst (asm) txDeflate_loop.simps) simp
    then show ?thesis using txDeflate_attempt_sound [OF doc less.prems(1) room attempt] by blast
  qed
qed

lemma txPrepare_sound:
  assumes "deflate_doc Z whole peer" "length msg < 2 ^ 32"
    and "\<And>d. deflateBound Z d (length msg) + 256 < 2 ^ 32"
    and "txPrepare Z msg request t = (payload, compressed, t')"
  shows "if compressed then (\<exists>i'. whole peer (payload @ sync_trailer) = Some (msg, i')) \<and> length payload < 2 ^ 32
    else payload = msg"
proof (cases "compressed")
  case False
  then show ?thesis using assms(4) by (auto simp: txPrepare_def split: if_splits prod.splits bool.splits)
next
  case True
  then have "deflate_initialized t" "txDeflate_loop Z msg 0 t = (True, t')" "payload = tx_payload t'"
    using assms(4) by (auto simp: txPrepare_def txDeflate_def tx_payload_def split: if_splits prod.splits bool.splits)
  then show ?thesis using True txDeflate_loop_sound [OF assms(1-3)] by auto
qed

section \<open>Properties\<close>

text \<open>A message prepared for sending is recovered by the peer: what \<open>txPrepare\<close> marks as
  compressed, the peer that appends 00 00 FF FF and inflates (RFC 7692) turns back into the
  message, at whichever of the four attempts the deflation succeeded and whether or not the
  context is dropped after it; what it does not mark is the message itself.\<close>

theorem txPrepare_recovered:
  assumes "deflate_doc Z whole peer" "length msg < 2 ^ 32"
    and "\<And>d. deflateBound Z d (length msg) + 256 < 2 ^ 32"
    and "txPrepare Z msg request t = (payload, compressed, t')"
  shows "if compressed then \<exists>i'. whole peer (payload @ sync_trailer) = Some (msg, i') else payload = msg"
  using txPrepare_sound [OF assms] by (auto split: if_splits)

theorem txPrepare_recovered_witness:
  "\<exists>payload t'. txPrepare stored_ext [1, 2, 3] True
       \<lparr>tx_cfg = PerMessageDeflateConfig\<lparr>enabled := True, client_no_context_takeover := True\<rparr>,
        deflate_stream = (), deflate_initialized = True, tx_compressed_buf = [], tx_payload_len = 0\<rparr>
     = (payload, True, t') \<and> stored_whole () (payload @ sync_trailer) = Some ([1, 2, 3], ())"
proof -
  let ?t = "\<lparr>tx_cfg = PerMessageDeflateConfig\<lparr>enabled := True, client_no_context_takeover := True\<rparr>,
        deflate_stream = (), deflate_initialized = True, tx_compressed_buf = [], tx_payload_len = 0\<rparr>"
  have compressed: "fst (snd (txPrepare stored_ext [1, 2, 3] True ?t))"
    by (simp add: txPrepare_def txDeflate_def txDeflate_loop.simps [of _ _ 0] txDeflate_attempt_def txDeflate_check_def
        txResetDeflate_def stored_ext_def sync_trailer_def overwrite_def vec_resize_def PerMessageDeflateConfig_def
        txReinitAfterNoContextTakeover_def Let_def)
  obtain payload c t' where "txPrepare stored_ext [1, 2, 3] True ?t = (payload, c, t')" by (metis prod_cases3)
  with compressed have res: "txPrepare stored_ext [1, 2, 3] True ?t = (payload, True, t')" by simp
  show ?thesis using txPrepare_recovered [OF stored_deflate_doc _ _ res] res
    by (auto simp: stored_ext_def)
qed

text \<open>C35: \<open>rxInflate\<close> returns on every message the peer compressed, however many buffers of
  4096 bytes the output fills, and yields that output; with \<open>server_no_context_takeover\<close> the
  stream is reset first. Without negotiated compression it yields its input.\<close>

theorem rxInflate_correct:
  assumes "inflate_doc Z whole" "length inp + 4 < 2 ^ 32"
    and "enabled (rx_cfg r) \<Longrightarrow> inflate_initialized r \<Longrightarrow>
      whole (rx_stream Z r) (inp @ sync_trailer) = Some (m, i')"
    and "\<not> (enabled (rx_cfg r) \<and> inflate_initialized r) \<Longrightarrow> m = inp \<and> i' = inflate_stream r"
  shows "rxInflate Z inp r = Some (True, m, r\<lparr>inflate_stream := i'\<rparr>)"
proof (cases "enabled (rx_cfg r) \<and> inflate_initialized r")
  case True
  then show ?thesis using rxInflate_message [OF assms(1)] assms(2,3) by blast
next
  case False
  then show ?thesis using assms(4) by (auto simp: rxInflate_def)
qed

theorem rxInflate_correct_witness:
  "rxInflate stored_ext [7, 8]
     \<lparr>rx_cfg = PerMessageDeflateConfig\<lparr>enabled := True\<rparr>, inflate_stream = (),
      inflate_initialized = True, message_in_progress = False,
      compressed_message_in_progress = False, fragmented_opcode = 0, fragmented_message = [],
      utf8Validator = Utf8Validator\<rparr>
   = Some (True, [7, 8],
     \<lparr>rx_cfg = PerMessageDeflateConfig\<lparr>enabled := True\<rparr>, inflate_stream = (),
      inflate_initialized = True, message_in_progress = False,
      compressed_message_in_progress = False, fragmented_opcode = 0, fragmented_message = [],
      utf8Validator = Utf8Validator\<rparr>)"
  by (subst rxInflate_correct [OF stored_inflate_doc, where m = "[7, 8]" and i' = "()"])
    (simp_all add: stored_whole_def sync_trailer_def PerMessageDeflateConfig_def)

text \<open>\<open>initializeCompression\<close> sets both directions up or neither. Where it succeeds both
  hold the given configuration and their streams are initialised exactly if it is enabled;
  where it fails both are shut down, so that messages pass unchanged in both directions. It
  never touches a message that is being assembled.\<close>

theorem initializeCompression_both:
  "case initializeCompression Z cfg (r, t) of (ok, r', t') \<Rightarrow>
     inflate_initialized r' = (ok \<and> enabled cfg) \<and> deflate_initialized t' = (ok \<and> enabled cfg) \<and>
     rx_cfg r' = (if ok then cfg else PerMessageDeflateConfig) \<and> tx_cfg t' = rx_cfg r' \<and>
     (ok \<or> enabled cfg) \<and>
     message_in_progress r' = message_in_progress r \<and> fragmented_message r' = fragmented_message r \<and>
     fragmented_opcode r' = fragmented_opcode r \<and> utf8Validator r' = utf8Validator r \<and>
     compressed_message_in_progress r' = compressed_message_in_progress r"
  by (auto simp: initializeCompression_def shutdownCompression_def rxInitInflate_def txInitDeflate_def
      Let_def split: prod.split bool.split)

end
