(* ===== verification/Frame.thy ===== *)
theory Frame
  imports ByteOrder Compression
begin

text \<open>
  The frames the client sends: \<open>WebSocketContext::send\<close> with its mask generator, against a
  parser for client frames written from RFC 6455. An evbuffer that is only appended to is the
  list of the bytes appended.
\<close>

section \<open>Model\<close>

datatype MessageType = TEXT | BINARY | PING | PONG | CLOSE

definition is_control_frame :: "MessageType \<Rightarrow> bool" where
  "is_control_frame type \<longleftrightarrow> type = CLOSE \<or> type = PING \<or> type = PONG"

fun opcode_bits :: "MessageType \<Rightarrow> byte" where
  "opcode_bits TEXT = 0x01"
| "opcode_bits BINARY = 0x02"
| "opcode_bits CLOSE = 0x08"
| "opcode_bits PING = 0x09"
| "opcode_bits PONG = 0x0A"

text \<open>The thread-local generator: seeded once from the clock and its own address.\<close>

definition mask_seed :: "('d, 'i) ext \<Rightarrow> u32 \<Rightarrow> u32" where
  "mask_seed Z s =
     (if s = 0 then ucast ((time_now Z XOR drop_bit 32 (time_now Z) XOR seed_address Z) OR 1) else s)"

definition mix_u32 :: "u32 \<Rightarrow> u32" where
  "mix_u32 z0 =
     (let z1 = z0 XOR drop_bit 16 z0; z2 = z1 * 0x85EBCA6B; z3 = z2 XOR drop_bit 13 z2;
          z4 = z3 * 0xC2B2AE35 in z4 XOR drop_bit 16 z4)"

definition next_u32 :: "u32 \<Rightarrow> u32 \<times> u32" where
  "next_u32 s = (let s1 = s + 0x9E3779B9 in (mix_u32 s1, s1))"

definition mask_payload :: "bytes \<Rightarrow> bytes \<Rightarrow> bytes" where
  "mask_payload key src = map (\<lambda>i. src ! i XOR key ! (i mod 4)) [0..<length src]"

definition length_byte :: "nat \<Rightarrow> byte" where
  "length_byte n =
     (if n \<le> 125 then 0x80 OR word_of_nat n else if n \<le> 65535 then 0x80 OR 126 else 0x80 OR 127)"

definition length_field :: "byte \<Rightarrow> nat \<Rightarrow> bytes" where
  "length_field b2 n =
     (if b2 AND 0x7F = 126 then mem16 (htons (word_of_nat n))
      else if b2 AND 0x7F = 127 then mem64 (htonll (word_of_nat n))
      else [])"

text \<open>\<open>send\<close>: the bytes appended to the output, and the deflater and the generator after it.\<close>

definition ws_send ::
    "('d, 'i) ext \<Rightarrow> bool \<Rightarrow> bytes \<Rightarrow> MessageType \<Rightarrow> 'd ws_tx \<times> u32 \<Rightarrow> bytes \<times> 'd ws_tx \<times> u32" where
  "ws_send Z use_compression raw type st =
     (case st of (t, s) \<Rightarrow>
      if is_control_frame type \<and> length raw > 125 then ([], t, s)
      else
        (let request_compress = (\<not> is_control_frame type \<and> use_compression \<and> (type = TEXT \<or> type = BINARY))
         in case txPrepare Z raw request_compress t of
              (payload, do_compress, t1) \<Rightarrow>
                (let b1 = (0x80 OR (if do_compress then 0x40 else 0)) OR opcode_bits type;
                     b2 = length_byte (length payload);
                     (mask32, s1) = next_u32 (mask_seed Z s);
                     mask_key = mem32 mask32
                 in ([b1, b2] @ length_field b2 (length payload) @ mask_key @ mask_payload mask_key payload,
                     t1, s1))))"

section \<open>RFC 6455 frames, as a server reads them\<close>

record frame =
  frame_fin :: bool
  frame_rsv :: "bool \<times> bool \<times> bool"
  frame_opcode :: nat
  frame_payload :: bytes

text \<open>The payload length in its minimal encoding: the length and the bytes it takes.\<close>

definition rfc_length :: "byte \<Rightarrow> bytes \<Rightarrow> (nat \<times> bytes) option" where
  "rfc_length b rest =
     (let n = unat b mod 128 in
      if n \<le> 125 then Some (n, rest)
      else if n = 126 then
        (if 2 \<le> length rest \<and> 126 \<le> be_val (take 2 rest) then Some (be_val (take 2 rest), drop 2 rest) else None)
      else
        (if 8 \<le> length rest \<and> 65536 \<le> be_val (take 8 rest) \<and> be_val (take 8 rest) < 2 ^ 63
         then Some (be_val (take 8 rest), drop 8 rest) else None))"

text \<open>Octet \<open>i\<close> of the payload is octet \<open>i\<close> of the masked data XOR octet \<open>i\<close> mod 4 of the key.\<close>

fun rfc_unmask :: "bytes \<Rightarrow> bytes \<Rightarrow> bytes" where
  "rfc_unmask (k # ks) (b # bs) = (b XOR k) # rfc_unmask (ks @ [k]) bs"
| "rfc_unmask _ _ = []"

definition rfc_client_frame :: "bytes \<Rightarrow> (frame \<times> bytes) option" where
  "rfc_client_frame bs =
     (case bs of
        b1 # b2 # rest \<Rightarrow>
          (case rfc_length b2 rest of
             None \<Rightarrow> None
           | Some (n, rest1) \<Rightarrow>
               if unat b2 < 128 \<or> length rest1 < 4 + n \<or> (8 \<le> unat b1 mod 16 \<and> 125 < n) then None
               else Some (\<lparr>frame_fin = (128 \<le> unat b1),
                           frame_rsv = (odd (unat b1 div 64), odd (unat b1 div 32), odd (unat b1 div 16)),
                           frame_opcode = unat b1 mod 16,
                           frame_payload = rfc_unmask (take 4 rest1) (take n (drop 4 rest1))\<rparr>,
                         drop (4 + n) rest1))
      | _ \<Rightarrow> None)"

fun rfc_opcode :: "MessageType \<Rightarrow> nat" where
  "rfc_opcode TEXT = 1"
| "rfc_opcode BINARY = 2"
| "rfc_opcode CLOSE = 8"
| "rfc_opcode PING = 9"
| "rfc_opcode PONG = 10"

section \<open>The parser reads back what is sent\<close>

lemma length_mask_payload [simp]: "length (mask_payload key src) = length src"
  by (simp add: mask_payload_def)

lemma mask_payload_Cons:
  assumes "length key = 4"
  shows "mask_payload key (b # bs) = (b XOR key ! 0) # mask_payload (drop 1 key @ take 1 key) bs"
proof -
  obtain k0 k1 k2 k3 where key: "key = [k0, k1, k2, k3]"
    using assms by (auto simp: numeral_eq_Suc length_Suc_conv)
  have "key ! (Suc i mod 4) = (drop 1 key @ take 1 key) ! (i mod 4)" for i
  proof -
    have "i mod 4 < 4" by simp
    then consider "i mod 4 = 0" | "i mod 4 = 1" | "i mod 4 = 2" | "i mod 4 = 3" by linarith
    then show ?thesis by cases (simp_all add: key mod_Suc)
  qed
  then show ?thesis by (simp add: mask_payload_def upt_conv_Cons map_Suc_upt [symmetric] del: upt_Suc)
qed

lemma rfc_unmask_mask:
  "length key = 4 \<Longrightarrow> rfc_unmask key (mask_payload key src) = src"
proof (induction src arbitrary: key)
  case Nil
  then show ?case by (cases key) (simp_all add: mask_payload_def)
next
  case (Cons b src)
  obtain k ks where key: "key = k # ks" using Cons.prems by (cases key) auto
  then show ?case using Cons by (simp add: mask_payload_Cons xor.assoc)
qed

lemma unat_or_80: "n < 128 \<Longrightarrow> unat (0x80 OR word_of_nat n :: byte) = 128 + n"
proof -
  assume n: "n < 128"
  have "\<not> bit n 7" using n bit_imp_le_length [of "word_of_nat n :: 7 word" 7]
    by (simp add: bit_iff_odd)
  then have "0x80 AND word_of_nat n = (0::byte)" by (simp add: byte_eq_iff bit_simps)
  then have "0x80 OR word_of_nat n = (0x80 + word_of_nat n :: byte)" by (simp add: disjunctive_add_eq_or)
  also have "\<dots> = word_of_nat (128 + n)" by simp
  finally show ?thesis using n unat_of_small [of "128 + n"] by simp
qed

lemma unat_length_byte:
  "unat (length_byte n) = 128 + (if n \<le> 125 then n else if n \<le> 65535 then 126 else 127)"
  using unat_or_80 [of n] by (simp add: length_byte_def)

lemma and_7F: "b AND 0x7F = c \<longleftrightarrow> unat b mod 128 = unat (c::byte)"
proof -
  have "b AND 0x7F = take_bit 7 b" by (simp add: byte_eq_iff bit_simps)
  moreover have "unat (take_bit 7 b) = unat b mod 128"
    using unsigned_take_bit_eq [of 7 b] by (simp add: take_bit_eq_mod)
  ultimately show ?thesis by (simp add: word_unat_eq_iff)
qed

lemma length_field_bytes:
  "length_field (length_byte n) n = (if n \<le> 125 then [] else if n \<le> 65535 then be_bytes 2 n else be_bytes 8 n)"
  unfolding length_field_def and_7F unat_length_byte by (simp add: codec_simps)

lemma rfc_length_field:
  assumes "n < 2 ^ 63"
  shows "rfc_length (length_byte n) (length_field (length_byte n) n @ rest) = Some (n, rest)"
proof -
  consider "n \<le> 125" | "126 \<le> n" "n \<le> 65535" | "65536 \<le> n" by linarith
  then show ?thesis
  proof cases
    case 1
    then show ?thesis by (simp add: rfc_length_def length_field_bytes unat_length_byte)
  next
    case 2
    then show ?thesis by (simp add: rfc_length_def length_field_bytes unat_length_byte be_val_bytes)
  next
    case 3
    then show ?thesis using assms
      by (simp add: rfc_length_def length_field_bytes unat_length_byte be_val_bytes)
  qed
qed

lemma length_mem32 [simp]: "length (mem32 w) = 4"
  by (simp add: mem32_def)

lemma rfc_client_frame_built:
  assumes "length payload < 2 ^ 63" "length key = 4" "unat b1 mod 16 < 8 \<or> length payload \<le> 125"
  shows "rfc_client_frame ([b1, length_byte (length payload)]
      @ length_field (length_byte (length payload)) (length payload) @ key @ mask_payload key payload @ rest)
    = Some (\<lparr>frame_fin = (128 \<le> unat b1),
             frame_rsv = (odd (unat b1 div 64), odd (unat b1 div 32), odd (unat b1 div 16)),
             frame_opcode = unat b1 mod 16, frame_payload = payload\<rparr>, rest)"
proof -
  have "128 \<le> unat (length_byte (length payload))" by (simp add: unat_length_byte)
  moreover have "\<not> (8 \<le> unat b1 mod 16 \<and> 125 < length payload)" using assms(3) by linarith
  ultimately show ?thesis
    using assms(2) rfc_length_field [OF assms(1), of "key @ mask_payload key payload @ rest"] rfc_unmask_mask [OF assms(2)]
    by (simp add: rfc_client_frame_def)
qed

text \<open>What \<open>send\<close> writes, for a message the code does not refuse.\<close>

lemma ws_send_bytes:
  assumes "\<not> (is_control_frame type \<and> length raw > 125)"
    and "txPrepare Z raw (\<not> is_control_frame type \<and> use_compression) t = (payload, compressed, t1)"
  obtains key s1 b1 where
    "ws_send Z use_compression raw type (t, s) = ([b1, length_byte (length payload)]
      @ length_field (length_byte (length payload)) (length payload) @ key @ mask_payload key payload, t1, s1)"
    "b1 = (0x80 OR (if compressed then 0x40 else 0)) OR opcode_bits type" "length key = 4"
proof -
  have "(\<not> is_control_frame type \<and> use_compression \<and> (type = TEXT \<or> type = BINARY))
      = (\<not> is_control_frame type \<and> use_compression)"
    by (cases type) (simp_all add: is_control_frame_def)
  then show ?thesis
    using assms that [of _ "mem32 (fst (next_u32 (mask_seed Z s)))" "snd (next_u32 (mask_seed Z s))"]
    by (simp add: ws_send_def Let_def case_prod_beta)
qed

lemma txPrepare_control:
  "txPrepare Z raw False t = (raw, False, t)"
  by (simp add: txPrepare_def)

lemma first_byte:
  assumes "is_control_frame type \<longrightarrow> \<not> compressed"
  shows "unat ((0x80 OR (if compressed then 0x40 else 0)) OR opcode_bits type :: byte)
    = 128 + (if compressed then 64 else 0) + rfc_opcode type"
  using assms by (cases type) (simp_all add: is_control_frame_def)

section \<open>The mask generator\<close>

lemma xorshift_injective:
  fixes x y :: u32
  assumes "x XOR drop_bit k x = y XOR drop_bit k y" "0 < k"
  shows "x = y"
proof -
  have eq: "bit (x XOR drop_bit k x) n = bit (y XOR drop_bit k y) n" for n using assms(1) by simp
  have "x XOR y = drop_bit k (x XOR y)"
    by (rule bit_word_eqI) (use eq in \<open>auto simp: bit_simps\<close>)
  then have "unat (x XOR y) = unat (x XOR y) div 2 ^ k"
    by (metis drop_bit_eq_div unat_drop_bit_eq)
  moreover have "n div 2 ^ k < n" if "0 < n" for n :: nat
    using assms(2) that using one_less_power [of "2::nat" k] by (intro div_less_dividend) simp_all
  ultimately have "unat (x XOR y) = 0" by (metis gr0I less_irrefl)
  then have "x XOR y = 0" by (simp add: unat_eq_0)
  then show ?thesis by (metis xor.assoc xor.right_neutral xor_self_eq)
qed

lemma mult_odd_injective:
  fixes x y c d :: u32
  assumes "x * c = y * c" "c * d = 1"
  shows "x = y"
proof -
  have "x * (c * d) = y * (c * d)" using assms(1) by (simp only: mult.assoc [symmetric])
  then show ?thesis by (simp add: assms(2))
qed

lemma mix_u32_injective: "mix_u32 x = mix_u32 y \<Longrightarrow> x = y"
  unfolding mix_u32_def Let_def
  by (drule xorshift_injective, simp, drule mult_odd_injective [where d = "0x7ED1B41D"], simp,
      drule xorshift_injective, simp, drule mult_odd_injective [where d = "0xA5CB9243"], simp,
      drule xorshift_injective, simp, assumption)

lemma mem32_injective: "mem32 x = mem32 y \<Longrightarrow> x = y"
proof (rule bit_word_eqI)
  fix n assume eq: "mem32 x = mem32 y" and "n < LENGTH(32)"
  then consider "n < 8" | "8 \<le> n" "n < 16" | "16 \<le> n" "n < 24" | "24 \<le> n" "n < 32"
    by (simp, linarith)
  moreover have "bit (ucast (drop_bit k x) :: byte) (n - k) = bit (ucast (drop_bit k y) :: byte) (n - k)"
    if "k \<in> {0, 8, 16, 24}" for k
    using eq that by (auto simp: mem32_def)
  note this [of 0] this [of 8] this [of 16] this [of 24]
  ultimately show "bit x n = bit y n"
    by cases (simp_all add: bit_simps less_diff_conv2)
qed

text \<open>The frame of a message, whatever follows it.\<close>

lemma ws_send_frame:
  assumes "deflate_doc Z whole peer" "length raw < 2 ^ 32"
    and "\<And>d. deflateBound Z d (length raw) + 256 < 2 ^ 32"
    and "ws_send Z use_compression raw type (t, s) = (out, t', s')" "\<not> (is_control_frame type \<and> 125 < length raw)"
  shows "\<exists>f. (\<forall>rest. rfc_client_frame (out @ rest) = Some (f, rest)) \<and> frame_fin f \<and>
      frame_opcode f = rfc_opcode type \<and> snd (frame_rsv f) = (False, False) \<and>
      (if fst (frame_rsv f) then \<not> is_control_frame type \<and> use_compression \<and>
           (\<exists>i'. whole peer (frame_payload f @ sync_trailer) = Some (raw, i'))
       else frame_payload f = raw)"
proof -
  let ?req = "\<not> is_control_frame type \<and> use_compression"
  obtain payload compressed t1 where prep: "txPrepare Z raw ?req t = (payload, compressed, t1)"
    by (metis prod_cases3)
  have comp: "compressed \<longrightarrow> ?req" "\<not> compressed \<longrightarrow> payload = raw"
    using prep by (auto simp: txPrepare_def split: if_splits prod.splits bool.splits)
  note sound = txPrepare_sound [OF assms(1,2,3) prep]
  have len: "length payload < 2 ^ 63"
    using sound comp assms(2) by (auto split: if_splits)
  obtain key s1 b1 where send: "out = [b1, length_byte (length payload)]
      @ length_field (length_byte (length payload)) (length payload) @ key @ mask_payload key payload"
    "b1 = (0x80 OR (if compressed then 0x40 else 0)) OR opcode_bits type" "length key = 4"
    using ws_send_bytes [OF assms(5) prep, of s] assms(4) by (metis prod.inject)
  have b1: "unat b1 = 128 + (if compressed then 64 else 0) + rfc_opcode type"
    unfolding send(2) using first_byte comp(1) by blast
  have "unat b1 mod 16 < 8 \<or> length payload \<le> 125"
    unfolding b1 using assms(5) comp by (cases type) (auto simp: is_control_frame_def)
  note parsed = rfc_client_frame_built [OF len send(3) this]
  have "128 \<le> unat b1" "odd (unat b1 div 64) = compressed" "even (unat b1 div 32)" "even (unat b1 div 16)"
    "unat b1 mod 16 = rfc_opcode type"
    unfolding b1 by (cases type; simp)+
  then show ?thesis
    using parsed assms(5) comp sound
    by (auto simp: send(1))
qed

section \<open>Properties\<close>

text \<open>C33: every frame the client sends is well formed for an RFC 6455 server: masked, with
  FIN set, RSV2 and RSV3 clear, the opcode of its type, a minimal length field, and RSV1 set
  exactly if it was compressed. The server recovers the message: from the payload as it is, or by
  inflating it with the trailer appended where RSV1 is set. Whatever is queued after the frame
  is left for the next one. Control messages longer than 125 bytes produce no frame at all.\<close>

theorem ws_send_parsed:
  assumes "deflate_doc Z whole peer" "length raw < 2 ^ 32"
    and "\<And>d. deflateBound Z d (length raw) + 256 < 2 ^ 32"
    and "ws_send Z use_compression raw type (t, s) = (out, t', s')"
  shows "if is_control_frame type \<and> 125 < length raw then out = [] \<and> t' = t \<and> s' = s
    else \<exists>f. rfc_client_frame (out @ rest) = Some (f, rest) \<and> frame_fin f \<and>
      frame_opcode f = rfc_opcode type \<and> snd (frame_rsv f) = (False, False) \<and>
      (if fst (frame_rsv f) then \<not> is_control_frame type \<and> use_compression \<and>
           (\<exists>i'. whole peer (frame_payload f @ sync_trailer) = Some (raw, i'))
       else frame_payload f = raw)"
proof (cases "is_control_frame type \<and> 125 < length raw")
  case True
  then show ?thesis using assms(4) by (simp add: ws_send_def)
next
  case False
  from ws_send_frame [OF assms False] show ?thesis unfolding if_not_P [OF False] by blast
qed

theorem ws_send_parsed_witness:
  "\<exists>f out t' s'. ws_send stored_ext False [0x68, 0x69] PONG
       (\<lparr>tx_cfg = PerMessageDeflateConfig, deflate_stream = (), deflate_initialized = False,
         tx_compressed_buf = [], tx_payload_len = 0\<rparr>, 0) = (out, t', s') \<and>
     rfc_client_frame (out @ [1]) = Some (f, [1]) \<and> frame_opcode f = 10 \<and> frame_payload f = [0x68, 0x69]"
proof -
  let ?t = "\<lparr>tx_cfg = PerMessageDeflateConfig, deflate_stream = (), deflate_initialized = False,
         tx_compressed_buf = [], tx_payload_len = 0\<rparr>"
  obtain out t' s' where send: "ws_send stored_ext False [0x68, 0x69] PONG (?t, 0) = (out, t', s')"
    by (metis prod_cases3)
  show ?thesis
    using ws_send_parsed [OF stored_deflate_doc _ _ send, of "[1]"] send
    by (auto simp: is_control_frame_def stored_ext_def split: if_splits)
qed

text \<open>The masking key of a frame determines the state of the generator it was drawn from, so a key
  repeats only where the state does, and each draw changes the state.\<close>

theorem mask_key_fresh:
  "(mem32 (fst (next_u32 s)) = mem32 (fst (next_u32 s')) \<longleftrightarrow> s = s') \<and> snd (next_u32 s) \<noteq> s"
  by (auto simp: next_u32_def Let_def dest!: mem32_injective mix_u32_injective)

end
