(* ===== verification/Receiver.thy ===== *)
theory Receiver
  imports Frame
begin

text \<open>
  The receiving side of WebSocketReceiver.cpp: the frame loop \<open>onData\<close>, the handlers of
  continuation, data, close and ping frames, and the interface \<open>IWebSocketSinks\<close> they call.
  The receiver keeps its own half of the object (\<^typ>\<open>'i ws_rx\<close>); the object behind the
  sinks is an abstract state \<open>'c\<close> that every callback updates. An evbuffer is the list of its
  bytes. A result \<open>None\<close> is a call that does not return (zlib never finishing).
\<close>

section \<open>The interface IWebSocketSinks\<close>

record 'c rx_sinks =
  rxCompressionEnabled :: "'c \<Rightarrow> bool"
  onRxPing :: "bytes \<Rightarrow> 'c \<Rightarrow> 'c"
  onRxClose :: "u16 \<Rightarrow> bytes \<Rightarrow> 'c \<Rightarrow> 'c"
  onRxProtocolError :: "u16 \<Rightarrow> string \<Rightarrow> 'c \<Rightarrow> 'c"
  onRxText :: "bytes \<Rightarrow> 'c \<Rightarrow> 'c"
  onRxBinary :: "bytes \<Rightarrow> 'c \<Rightarrow> 'c"
  rxIsTerminating :: "'c \<Rightarrow> bool"

definition WebSocketReceiver :: "('d, 'i) ext \<Rightarrow> 'i ws_rx" where
  "WebSocketReceiver Z = \<lparr>rx_cfg = PerMessageDeflateConfig, inflate_stream = inflate_zero Z,
     inflate_initialized = False, message_in_progress = False,
     compressed_message_in_progress = False, fragmented_opcode = 0, fragmented_message = [],
     utf8Validator = Utf8Validator\<rparr>"

section \<open>Handlers\<close>

definition rx_reset_utf8 :: "'i ws_rx \<Rightarrow> 'i ws_rx" where
  "rx_reset_utf8 r = r\<lparr>utf8Validator := utf8_reset (utf8Validator r)\<rparr>"

definition rx_validateChunk :: "bytes \<Rightarrow> 'i ws_rx \<Rightarrow> bool \<times> 'i ws_rx" where
  "rx_validateChunk bs r =
     (case validateChunk bs (utf8Validator r) of (ok, v) \<Rightarrow> (ok, r\<lparr>utf8Validator := v\<rparr>))"

text \<open>The switch at the end of \<open>handleContinuationFrame\<close> and the reset after it.\<close>

definition finishFragmented :: "'c rx_sinks \<Rightarrow> 'i ws_rx \<Rightarrow> 'c \<Rightarrow> 'i ws_rx \<times> 'c" where
  "finishFragmented S r c =
     (let done = (\<lambda>r. r\<lparr>message_in_progress := False, compressed_message_in_progress := False,
                        fragmented_message := [], fragmented_opcode := 0\<rparr>)
      in if fragmented_opcode r = 0x01 then
           (case (if compressed_message_in_progress r
                  then rx_validateChunk (fragmented_message r) (rx_reset_utf8 r) else (True, r)) of
              (chunk_ok, r1) \<Rightarrow>
                if \<not> (chunk_ok \<and> validateFinal (utf8Validator r1)) then
                  (rx_reset_utf8 r1, onRxProtocolError S 1007 ''Invalid UTF-8 in text message'' c)
                else
                  (done (rx_reset_utf8 r1), onRxText S (fragmented_message r1) c))
         else if fragmented_opcode r = 0x02 then
           (done r, onRxBinary S (fragmented_message r) c)
         else (r, onRxProtocolError S 1002 ''Unknown fragmented opcode'' c))"

definition handleContinuationFrame ::
    "('d, 'i) ext \<Rightarrow> 'c rx_sinks \<Rightarrow> bytes \<Rightarrow> bool \<Rightarrow> 'i ws_rx \<Rightarrow> 'c \<Rightarrow> ('i ws_rx \<times> 'c) option" where
  "handleContinuationFrame Z S payload fin r c =
     (if \<not> message_in_progress r then
        Some (r, onRxProtocolError S 1002 ''continuation frame without initial frame'' c)
      else
        (let r1 = r\<lparr>fragmented_message := fragmented_message r @ payload\<rparr> in
         case (if \<not> compressed_message_in_progress r1 \<and> fragmented_opcode r1 = 0x01
               then rx_validateChunk payload r1 else (True, r1)) of
           (False, r2) \<Rightarrow>
             Some (rx_reset_utf8 r2, onRxProtocolError S 1007 ''Invalid UTF-8 in text message'' c)
         | (True, r2) \<Rightarrow>
             if \<not> fin then Some (r2, c)
             else if compressed_message_in_progress r2 then
               (case rxInflate Z (fragmented_message r2) r2 of
                  None \<Rightarrow> None
                | Some (False, output, r3) \<Rightarrow>
                    Some (rx_reset_utf8 r3, onRxProtocolError S 1007 ''Decompression failed'' c)
                | Some (True, output, r3) \<Rightarrow>
                    Some (finishFragmented S
                      (rxMaybeResetAfterMessage Z (r3\<lparr>fragmented_message := output\<rparr>)) c))
             else Some (finishFragmented S r2 c)))"

text \<open>The end of \<open>handleDataFrame\<close>, for the bytes of an unfragmented message.\<close>

definition deliverSingle :: "'c rx_sinks \<Rightarrow> bytes \<Rightarrow> nat \<Rightarrow> 'i ws_rx \<Rightarrow> 'c \<Rightarrow> 'i ws_rx \<times> 'c" where
  "deliverSingle S msg opcode r c =
     (if opcode = 0x01 then
        (case rx_validateChunk msg (rx_reset_utf8 r) of
           (ok, r1) \<Rightarrow>
             if \<not> ok \<or> \<not> validateFinal (utf8Validator r1) then
               (rx_reset_utf8 r1, onRxProtocolError S 1007 ''Invalid UTF-8 in text message'' c)
             else (r1, onRxText S msg c))
      else if opcode = 0x02 then (r, onRxBinary S msg c)
      else (r, onRxProtocolError S 1002 ''Unsupported opcode'' c))"

definition handleDataFrame ::
    "('d, 'i) ext \<Rightarrow> 'c rx_sinks \<Rightarrow> bytes \<Rightarrow> bool \<Rightarrow> nat \<Rightarrow> bool \<Rightarrow> 'i ws_rx \<Rightarrow> 'c
      \<Rightarrow> ('i ws_rx \<times> 'c) option" where
  "handleDataFrame Z S payload fin opcode rsv1 r c =
     (if message_in_progress r then
        Some (r, onRxProtocolError S 1002
          ''Received new data frame when expecting continuation frame'' c)
      else
        (let compressed = (rsv1 \<and> rxCompressionEnabled S c) in
         if \<not> fin then
           (let r1 = r\<lparr>message_in_progress := True, fragmented_opcode := opcode,
                       fragmented_message := payload, compressed_message_in_progress := compressed\<rparr>
            in if opcode = 0x01 \<and> \<not> compressed_message_in_progress r1 then
                 (case rx_validateChunk payload (rx_reset_utf8 r1) of
                    (False, r2) \<Rightarrow>
                      Some (rx_reset_utf8 r2,
                        onRxProtocolError S 1007 ''Invalid UTF-8 in text message'' c)
                  | (True, r2) \<Rightarrow> Some (r2, c))
               else Some (r1, c))
         else if compressed then
           (case rxInflate Z payload r of
              None \<Rightarrow> None
            | Some (False, out, r1) \<Rightarrow> Some (r1, onRxProtocolError S 1007 ''Decompression failed'' c)
            | Some (True, out, r1) \<Rightarrow>
                Some (deliverSingle S out opcode (rxMaybeResetAfterMessage Z r1) c))
         else Some (deliverSingle S payload opcode r c)))"

definition valid_close_code :: "u16 \<Rightarrow> bool" where
  "valid_close_code code \<longleftrightarrow>
     (code \<ge> 1000 \<and> code \<le> 1011 \<and> code \<noteq> 1004 \<and> code \<noteq> 1005 \<and> code \<noteq> 1006) \<or>
     (code \<ge> 3000 \<and> code \<le> 4999)"

text \<open>The verdict of \<open>handleCloseFrame\<close>: whether it is a protocol error, the code and the reason.\<close>

definition parse_close :: "bytes \<Rightarrow> bool \<times> u16 \<times> bytes" where
  "parse_close payload =
     (let payload_len = length payload in
      if payload_len > 125 then (True, 1002, [])
      else if payload_len = 1 then (True, 1002, [])
      else if payload_len \<ge> 2 then
        (let received = ntohs (load16 (take 2 payload));
             bad_code = (\<not> valid_close_code received);
             close_code = (if bad_code then 1002 else received)
         in if payload_len > 2 then
              (let reason_len = (if payload_len - 2 > 123 then 123 else payload_len - 2);
                   reason = take reason_len (drop 2 payload)
               in if \<not> isValidUtf8 reason then (True, 1002, [])
                  else (bad_code, close_code, reason))
            else (bad_code, close_code, []))
      else (False, 1000, []))"

definition handleCloseFrame :: "'c rx_sinks \<Rightarrow> bytes \<Rightarrow> 'c \<Rightarrow> 'c" where
  "handleCloseFrame S payload c =
     (case parse_close payload of
        (protocol_error, close_code, close_reason) \<Rightarrow>
          (let reply_code = (if protocol_error then 1002 else close_code);
               reply_reason = (if protocol_error then [] else close_reason)
           in onRxClose S reply_code reply_reason c))"

definition handlePingFrame :: "'c rx_sinks \<Rightarrow> bytes \<Rightarrow> 'c \<Rightarrow> 'c" where
  "handlePingFrame S payload c =
     (if length payload > 125 then onRxProtocolError S 1002 ''Control frame payload too large'' c
      else onRxPing S payload c)"

section \<open>The frame loop\<close>

datatype rx_header =
    HdrWait
  | HdrError string
  | Hdr (hdr_fin: bool) (hdr_rsv1: bool) (hdr_opcode: nat) (hdr_len: nat) (hdr_payload_len: u64)

text \<open>The checks of the loop body up to the test whether the whole frame has arrived.\<close>

definition rx_header :: "bool \<Rightarrow> bytes \<Rightarrow> rx_header" where
  "rx_header compression buf =
     (let data_len = length buf in
      if data_len < 2 then HdrWait
      else
        (let hdr = take 14 buf;
             fin = (hdr ! 0 AND 0x80 \<noteq> 0); rsv1 = (hdr ! 0 AND 0x40 \<noteq> 0);
             rsv2 = (hdr ! 0 AND 0x20 \<noteq> 0); rsv3 = (hdr ! 0 AND 0x10 \<noteq> 0);
             opcode = hdr ! 0 AND 0x0F;
             mask = (hdr ! 1 AND 0x80 \<noteq> 0);
             len7 = ucast (hdr ! 1 AND 0x7F) :: u64;
             control = (opcode AND 0x08 \<noteq> 0)
         in if (\<not> compression \<and> rsv1) \<or> rsv2 \<or> rsv3 then HdrError ''Unexpected RSV bits''
            else if control \<and> \<not> fin then HdrError ''Control frame fragmented''
            else if mask then HdrError ''Masked frame from server''
            else if (len7 = 126 \<and> data_len < 4) \<or> (len7 = 127 \<and> data_len < 10) then HdrWait
            else
              (let header_len = (if len7 = 126 then 4 else if len7 = 127 then 10 else 2);
                   payload_len = (if len7 = 126 then ucast (ntohs (load16 (take 2 (drop 2 hdr))))
                                  else if len7 = 127 then ntohll (load64 (take 8 (drop 2 hdr)))
                                  else len7)
               in if control \<and> payload_len > 125 then HdrError ''Control frame payload too large''
                  else Hdr fin rsv1 (unat opcode) header_len payload_len)))"

text \<open>The switch over the opcode. The boolean says whether the loop goes on.\<close>

definition rx_dispatch ::
    "('d, 'i) ext \<Rightarrow> 'c rx_sinks \<Rightarrow> nat \<Rightarrow> bool \<Rightarrow> bool \<Rightarrow> bytes \<Rightarrow> 'i ws_rx \<Rightarrow> 'c
      \<Rightarrow> (bool \<times> 'i ws_rx \<times> 'c) option" where
  "rx_dispatch Z S opcode fin rsv1 payload r c =
     (if opcode = 0x00 then
        map_option (\<lambda>(r1, c1). (True, r1, c1)) (handleContinuationFrame Z S payload fin r c)
      else if opcode = 0x01 \<or> opcode = 0x02 then
        map_option (\<lambda>(r1, c1). (True, r1, c1)) (handleDataFrame Z S payload fin opcode rsv1 r c)
      else if opcode = 0x08 then Some (True, r, handleCloseFrame S payload c)
      else if opcode = 0x09 then Some (True, r, handlePingFrame S payload c)
      else if opcode = 0x0A then Some (True, r, c)
      else Some (False, r, onRxProtocolError S 1002 ''Unsupported opcode'' c))"

text \<open>How one pass through the loop body ends: it leaves the loop (break or return), lets
  std::length_error out, or drains a frame and goes on.\<close>

datatype rx_outcome = RxLeave | RxThrow | RxDrain nat

definition onData_step ::
    "('d, 'i) ext \<Rightarrow> 'c rx_sinks \<Rightarrow> bytes \<Rightarrow> 'i ws_rx \<Rightarrow> 'c
      \<Rightarrow> (rx_outcome \<times> 'i ws_rx \<times> 'c) option" where
  "onData_step Z S buf r c =
     (if rxIsTerminating S c then Some (RxLeave, r, c)
      else
        (case rx_header (rxCompressionEnabled S c) buf of
           HdrWait \<Rightarrow> Some (RxLeave, r, c)
         | HdrError why \<Rightarrow> Some (RxLeave, r, onRxProtocolError S 1002 why c)
         | Hdr fin rsv1 opcode header_len payload_len \<Rightarrow>
             (let need = word_of_nat header_len + payload_len in
              if length buf < unat need then Some (RxLeave, r, c)
              else
                (case pullup Z buf (unat need) of
                   None \<Rightarrow> Some (RxLeave, r, onRxProtocolError S 1002 ''Failed to pullup frame buffer'' c)
                 | Some frame \<Rightarrow>
                     if unat payload_len > 2 ^ 63 - 1 then Some (RxThrow, r, c)
                     else
                       (case rx_dispatch Z S opcode fin rsv1
                               (take (unat payload_len) (drop header_len frame)) r c of
                          None \<Rightarrow> None
                        | Some (go_on, r1, c1) \<Rightarrow>
                            Some (if go_on then RxDrain (unat need) else RxLeave, r1, c1))))))"

section \<open>The loop ends\<close>

lemma rx_header_Hdr:
  assumes "rx_header compression buf = Hdr fin rsv1 opcode header_len payload_len"
  shows "2 \<le> header_len" "header_len \<le> 10" "header_len \<le> length buf"
  using assms by (auto simp: rx_header_def Let_def split: if_split_asm)

lemma need_no_wrap:
  assumes "h \<le> 10" "unat (p::u64) \<le> 2 ^ 63 - 1"
  shows "unat (word_of_nat h + p) = h + unat p"
proof -
  have "unat (word_of_nat h :: u64) = h" using assms(1) by (simp add: unat_of_nat)
  then show ?thesis using assms by (simp add: unat_word_ariths)
qed

lemma onData_step_drain:
  assumes "onData_step Z S buf r c = Some (RxDrain n, r', c')"
  shows "2 \<le> n" "n \<le> length buf"
proof -
  obtain fin rsv1 opcode hl pl where h: "rx_header (rxCompressionEnabled S c) buf = Hdr fin rsv1 opcode hl pl"
    "n = unat (word_of_nat hl + pl)" "n \<le> length buf" "\<not> unat pl > 2 ^ 63 - 1"
    using assms by (auto simp: onData_step_def Let_def split: if_split_asm rx_header.split_asm option.split_asm)
  then show "2 \<le> n" "n \<le> length buf" using rx_header_Hdr [OF h(1)] need_no_wrap [of hl pl] by simp_all
qed

text \<open>The loop. The result says whether std::length_error left it, and carries the bytes still
  in the buffer.\<close>

function onData ::
    "('d, 'i) ext \<Rightarrow> 'c rx_sinks \<Rightarrow> bytes \<Rightarrow> 'i ws_rx \<Rightarrow> 'c
      \<Rightarrow> (bool \<times> bytes \<times> 'i ws_rx \<times> 'c) option" where
  "onData Z S buf r c =
     (case onData_step Z S buf r c of
        None \<Rightarrow> None
      | Some (RxLeave, r1, c1) \<Rightarrow> Some (False, buf, r1, c1)
      | Some (RxThrow, r1, c1) \<Rightarrow> Some (True, buf, r1, c1)
      | Some (RxDrain n, r1, c1) \<Rightarrow> onData Z S (drop n buf) r1 c1)"
  by pat_completeness auto
termination
proof (relation "measure (\<lambda>(Z, S, buf, r, c). length buf)", goal_cases)
  case (2 Z S buf r c)
  then show ?case using onData_step_drain by fastforce
qed simp

declare onData.simps [simp del]

section \<open>Frames and messages, in the words of RFC 6455\<close>

text \<open>A frame from a server, read with arithmetic on its octets. A length of \<open>2^63\<close> or more
  violates the RFC; \<open>TooLong\<close> keeps it apart.\<close>

datatype parse = NeedMore | BadFrame | TooLong | Got frame bytes

definition rfc_server_length :: "bytes \<Rightarrow> (nat \<times> nat) option" where
  "rfc_server_length bs =
     (let n = unat (bs ! 1) mod 128 in
      if n \<le> 125 then Some (2, n)
      else if n = 126 then (if length bs < 4 then None else Some (4, be_val (take 2 (drop 2 bs))))
      else (if length bs < 10 then None else Some (10, be_val (take 8 (drop 2 bs)))))"

definition rfc_server_frame :: "bool \<Rightarrow> bytes \<Rightarrow> parse" where
  "rfc_server_frame compression bs =
     (if length bs < 2 then NeedMore
      else
        (let b = unat (bs ! 0); fin = (128 \<le> b); rsv1 = odd (b div 64); control = (8 \<le> b mod 16)
         in if (rsv1 \<and> \<not> compression) \<or> odd (b div 32) \<or> odd (b div 16) \<or> (control \<and> \<not> fin)
               \<or> 128 \<le> unat (bs ! 1) then BadFrame
            else
              (case rfc_server_length bs of
                 None \<Rightarrow> NeedMore
               | Some (h, n) \<Rightarrow>
                   if control \<and> 125 < n then BadFrame
                   else if 2 ^ 63 \<le> n then TooLong
                   else if length bs < h + n then NeedMore
                   else Got \<lparr>frame_fin = fin, frame_rsv = (rsv1, False, False),
                             frame_opcode = b mod 16, frame_payload = take n (drop h bs)\<rparr>
                          (drop (h + n) bs))))"

text \<open>What the endpoint makes of a frame: the events it reports, and whether it goes on.\<close>

datatype rx_event = EvText bytes | EvBinary bytes | EvPing bytes | EvClose nat bytes | EvError nat

datatype assembly = Idle | Collecting nat bytes

definition rfc_close_code :: "nat \<Rightarrow> bool" where
  "rfc_close_code n \<longleftrightarrow> n \<in> {1000, 1001, 1002, 1003, 1007, 1008, 1009, 1010, 1011} \<or> (3000 \<le> n \<and> n \<le> 4999)"

definition rfc_close :: "bytes \<Rightarrow> rx_event" where
  "rfc_close p =
     (if p = [] then EvClose 1000 []
      else if length p = 1 \<or> \<not> rfc_close_code (be_val (take 2 p)) \<or> \<not> well_formed (drop 2 p)
        then EvClose 1002 []
      else EvClose (be_val (take 2 p)) (drop 2 p))"

definition rfc_fragment :: "nat \<Rightarrow> bool \<Rightarrow> bytes \<Rightarrow> rx_event list \<times> assembly option" where
  "rfc_fragment opcode fin msg =
     (if opcode = 1 then
        (if fin then (if well_formed msg then ([EvText msg], Some Idle) else ([EvError 1007], None))
         else if \<exists>ext. well_formed (msg @ ext) then ([], Some (Collecting 1 msg))
         else ([EvError 1007], None))
      else if fin then ([EvBinary msg], Some Idle) else ([], Some (Collecting opcode msg)))"

definition rfc_message :: "frame \<Rightarrow> assembly \<Rightarrow> rx_event list \<times> assembly option" where
  "rfc_message f a =
     (let opcode = frame_opcode f; p = frame_payload f; fin = frame_fin f in
      if opcode = 0 then
        (case a of Idle \<Rightarrow> ([EvError 1002], None) | Collecting k acc \<Rightarrow> rfc_fragment k fin (acc @ p))
      else if opcode = 1 \<or> opcode = 2 then
        (case a of Idle \<Rightarrow> rfc_fragment opcode fin p | Collecting k acc \<Rightarrow> ([EvError 1002], None))
      else if opcode = 8 then ([rfc_close p], None)
      else if opcode = 9 then ([EvPing p], Some a)
      else if opcode = 10 then ([], Some a)
      else ([EvError 1002], None))"

text \<open>A stream of bytes without compression: the events, what stays unread while the endpoint
  goes on, and \<open>None\<close> for a length beyond the RFC.\<close>

lemma rfc_server_frame_rest:
  "rfc_server_frame compression bs = Got f rest \<Longrightarrow> length rest < length bs"
  by (auto simp: rfc_server_frame_def rfc_server_length_def Let_def split: if_split_asm option.split_asm)

function rfc_stream :: "bytes \<Rightarrow> assembly \<Rightarrow> (rx_event list \<times> assembly option) option" where
  "rfc_stream bs a =
     (case rfc_server_frame False bs of
        NeedMore \<Rightarrow> Some ([], Some a)
      | BadFrame \<Rightarrow> Some ([EvError 1002], None)
      | TooLong \<Rightarrow> None
      | Got f rest \<Rightarrow>
          (case rfc_message f a of
             (evs, None) \<Rightarrow> Some (evs, None)
           | (evs, Some a1) \<Rightarrow> map_option (apfst (append evs)) (rfc_stream rest a1)))"
  by pat_completeness auto
termination
  by (relation "measure (\<lambda>(bs, a). length bs)") (auto dest: rfc_server_frame_rest)

declare rfc_stream.simps [simp del]

section \<open>The header tests are the arithmetic of the RFC\<close>

lemma bit_byte_odd: "bit (b::byte) k \<longleftrightarrow> odd (unat b div 2 ^ k)"
  by (simp add: bit_iff_odd [of "unat b" k, symmetric] bit_unsigned_iff)

lemma flag_bits:
  "(b AND 0x80 \<noteq> 0) = (128 \<le> unat (b::byte))" "(b AND 0x40 \<noteq> 0) = odd (unat b div 64)"
  "(b AND 0x20 \<noteq> 0) = odd (unat b div 32)" "(b AND 0x10 \<noteq> 0) = odd (unat b div 16)"
proof -
  show "(b AND 0x80 \<noteq> 0) = (128 \<le> unat b)"
    by (simp add: byte_simps not_less word_le_nat_alt)
  have "(b AND 0x40 \<noteq> 0) = bit b 6" "(b AND 0x20 \<noteq> 0) = bit b 5" "(b AND 0x10 \<noteq> 0) = bit b 4"
    by (simp_all add: byte_eq_iff bit_simps)
  then show "(b AND 0x40 \<noteq> 0) = odd (unat b div 64)" "(b AND 0x20 \<noteq> 0) = odd (unat b div 32)"
    "(b AND 0x10 \<noteq> 0) = odd (unat b div 16)"
    by (simp_all add: bit_byte_odd)
qed

lemma opcode_bits_mod: "unat (b AND 0x0F :: byte) = unat b mod 16"
proof -
  have "b AND 0x0F = take_bit 4 b" by (simp add: byte_eq_iff bit_simps)
  moreover have "unat (take_bit 4 b) = unat b mod 16"
    using unsigned_take_bit_eq [of 4 b] by (simp add: take_bit_eq_mod)
  ultimately show ?thesis by simp
qed

lemma control_bit: "((b AND 0x0F) AND 0x08 \<noteq> 0) = (8 \<le> unat (b::byte) mod 16)"
proof -
  have "((b AND 0x0F) AND 0x08 \<noteq> 0) = bit b 3" by (simp add: byte_eq_iff bit_simps)
  also have "\<dots> = odd (unat b div 8)" by (simp add: bit_byte_odd)
  also have "\<dots> = (8 \<le> unat b mod 16)"
  proof -
    have eq: "unat b mod 16 = 8 * (unat b div 8 mod 2) + unat b mod 8"
      using mod_mult2_eq [of "unat b" 8 2] by simp
    have "unat b mod 8 < 8" by simp
    then show ?thesis unfolding eq by (cases "even (unat b div 8)") (simp_all add: odd_iff_mod_2_eq_one not_le)
  qed
  finally show ?thesis .
qed

lemma unat_ucast_small: "LENGTH('a::len) \<le> LENGTH('b::len) \<Longrightarrow> unat (ucast (w :: 'a word) :: 'b word) = unat w"
  by (rule unsigned_ucast_eq [THEN trans]) (simp add: take_bit_nat_eq_self_iff order_less_le_trans [OF unsigned_less])

lemma len7_mod: "unat (ucast (b AND 0x7F :: byte) :: u64) = unat b mod 128"
proof -
  have "b AND 0x7F = take_bit 7 b" by (simp add: byte_eq_iff bit_simps)
  moreover have "unat (take_bit 7 b) = unat b mod 128"
    using unsigned_take_bit_eq [of 7 b] by (simp add: take_bit_eq_mod)
  ultimately show ?thesis by (simp add: unat_ucast_small)
qed

lemma header_lengths:
  assumes "2 \<le> length buf"
  defines "len7 \<equiv> ucast (take 14 buf ! 1 AND 0x7F) :: u64"
  shows "((len7 = 126 \<and> length buf < 4) \<or> (len7 = 127 \<and> length buf < 10)) = (rfc_server_length buf = None)"
    and "rfc_server_length buf = Some (h, n) \<Longrightarrow>
      (if len7 = 126 then 4 else if len7 = 127 then 10 else 2) = h"
    and "rfc_server_length buf = Some (h, n) \<Longrightarrow>
      unat (if len7 = 126 then ucast (ntohs (load16 (take 2 (drop 2 (take 14 buf)))))
       else if len7 = 127 then ntohll (load64 (take 8 (drop 2 (take 14 buf)))) else len7) = n"
    and "rfc_server_length buf = Some (h, n) \<Longrightarrow> h \<le> 10"
proof -
  define m where "m = unat (buf ! 1) mod 128"
  have m: "unat len7 = m" using assms(1) by (simp add: len7_def len7_mod m_def)
  have eqs: "len7 = 126 \<longleftrightarrow> m = 126" "len7 = 127 \<longleftrightarrow> m = 127" by (simp_all add: word_unat_eq_iff m)
  have "m < 128" by (simp add: m_def)
  then have c127: "\<not> m \<le> 125 \<Longrightarrow> m \<noteq> 126 \<Longrightarrow> m = 127" by simp
  have t: "take 2 (drop 2 (take 14 buf)) = take 2 (drop 2 buf)" "take 8 (drop 2 (take 14 buf)) = take 8 (drop 2 buf)"
    by (simp_all add: drop_take min_def)
  note defs = rfc_server_length_def m_def [symmetric] Let_def eqs
  show "((len7 = 126 \<and> length buf < 4) \<or> (len7 = 127 \<and> length buf < 10)) = (rfc_server_length buf = None)"
    unfolding defs using c127 by auto
  assume some: "rfc_server_length buf = Some (h, n)"
  show "(if len7 = 126 then 4 else if len7 = 127 then 10 else 2) = h" "h \<le> 10"
  proof -
    consider "m \<le> 125" | "m = 126" | "m = 127" using c127 by blast
    then have "(if len7 = 126 then 4 else if len7 = 127 then 10 else 2) = h \<and> h \<le> 10"
      using some unfolding defs by cases (simp_all split: if_split_asm)
    then show "(if len7 = 126 then 4 else if len7 = 127 then 10 else 2) = h" "h \<le> 10" by simp_all
  qed
  show "unat (if len7 = 126 then ucast (ntohs (load16 (take 2 (drop 2 (take 14 buf)))))
       else if len7 = 127 then ntohll (load64 (take 8 (drop 2 (take 14 buf)))) else len7) = n"
  proof -
    consider "m \<le> 125" | "m = 126" | "m = 127" using c127 by blast
    then show ?thesis
    proof cases
      case 1
      then show ?thesis using some m unfolding defs t by simp
    next
      case 2
      then have "4 \<le> length buf" "n = be_val (take 2 (drop 2 buf))"
        using some unfolding defs by (simp_all split: if_split_asm)
      moreover from this have "unat (ntohs (load16 (take 2 (drop 2 buf)))) = be_val (take 2 (drop 2 buf))"
        by (intro ntohs_value) simp
      ultimately show ?thesis using 2 unfolding eqs t by (simp add: unat_ucast_small)
    next
      case 3
      then have "10 \<le> length buf" "n = be_val (take 8 (drop 2 buf))"
        using some unfolding defs by (simp_all split: if_split_asm)
      moreover from this have "unat (ntohll (load64 (take 8 (drop 2 buf)))) = be_val (take 8 (drop 2 buf))"
        by (intro ntohll_value) simp
      ultimately show ?thesis using 3 unfolding eqs t by simp
    qed
  qed
qed

lemma rx_header_rfc:
  "case rfc_server_frame compression buf of
     NeedMore \<Rightarrow> rx_header compression buf = HdrWait \<or>
       (\<exists>fin rsv1 opc h p. rx_header compression buf = Hdr fin rsv1 opc h p \<and>
          unat p < 2 ^ 63 \<and> length buf < h + unat p)
   | BadFrame \<Rightarrow> \<exists>why. rx_header compression buf = HdrError why
   | TooLong \<Rightarrow> \<exists>fin rsv1 opc h p. rx_header compression buf = Hdr fin rsv1 opc h p \<and> 2 ^ 63 \<le> unat p
   | Got f rest \<Rightarrow> \<exists>h p. rx_header compression buf =
         Hdr (frame_fin f) (fst (frame_rsv f)) (frame_opcode f) h p \<and>
       unat p = length (frame_payload f) \<and> unat p < 2 ^ 63 \<and> h + unat p \<le> length buf \<and>
       frame_payload f = take (unat p) (drop h buf) \<and> rest = drop (h + unat p) buf"
proof (cases "length buf < 2")
  case True
  then show ?thesis by (simp add: rfc_server_frame_def rx_header_def)
next
  case False
  have nth0: "take 14 buf ! 0 = buf ! 0" "take 14 buf ! 1 = buf ! 1" using False by simp_all
  show ?thesis
  proof (cases "rfc_server_length buf")
    case None
    then have "(ucast (take 14 buf ! 1 AND 0x7F) = (126::u64) \<and> length buf < 4) \<or>
        (ucast (take 14 buf ! 1 AND 0x7F) = (127::u64) \<and> length buf < 10)"
      using header_lengths(1) [of buf] False by simp
    then show ?thesis using False None
      unfolding rfc_server_frame_def rx_header_def Let_def flag_bits control_bit nth0
      by auto
  next
    case (Some hn)
    obtain h n where hn: "rfc_server_length buf = Some (h, n)" using Some by (cases hn) simp
    have le: "2 \<le> length buf" using False by simp
    note hl = header_lengths(2-4) [OF le hn] header_lengths(1) [OF le]
    define p where "p = (let len7 = ucast (take 14 buf ! 1 AND 0x7F) :: u64 in
      if len7 = 126 then ucast (ntohs (load16 (take 2 (drop 2 (take 14 buf)))))
      else if len7 = 127 then ntohll (load64 (take 8 (drop 2 (take 14 buf)))) else len7)"
    have p: "unat p = n" using hl(2) unfolding p_def Let_def .
    have ctl: "(p > 125) = (125 < n)" by (simp add: word_less_nat_alt p)
    have wait: "((ucast (take 14 buf ! 1 AND 0x7F) = (126::u64) \<and> length buf < 4) \<or>
        (ucast (take 14 buf ! 1 AND 0x7F) = (127::u64) \<and> length buf < 10)) = False"
      using hl(4) hn by simp
    have short: "(length buf < 2) = False" using False by simp
    have "rx_header compression buf =
      (let b = unat (buf ! 0) in
       if (\<not> compression \<and> odd (b div 64)) \<or> odd (b div 32) \<or> odd (b div 16) then HdrError ''Unexpected RSV bits''
       else if 8 \<le> b mod 16 \<and> \<not> 128 \<le> b then HdrError ''Control frame fragmented''
       else if 128 \<le> unat (buf ! 1) then HdrError ''Masked frame from server''
       else if 8 \<le> b mod 16 \<and> 125 < n then HdrError ''Control frame payload too large''
       else Hdr (128 \<le> b) (odd (b div 64)) (b mod 16) h p)"
      unfolding rx_header_def Let_def flag_bits control_bit opcode_bits_mod nth0 short
        wait [unfolded nth0] hl(1) [unfolded nth0] p_def [unfolded Let_def nth0, symmetric] ctl if_False disj_assoc ..
    then show ?thesis using False hn p
      by (auto simp: rfc_server_frame_def Let_def)
  qed
qed

section \<open>The contract of the sinks\<close>

text \<open>What the receiver relies on: delivering a message or answering a ping leaves the endpoint
  going, a close or an error stops it, compression does not change under way, and the endpoint
  reports each call once. \<open>good\<close> is the endpoint's invariant and \<open>log\<close> its report.\<close>

locale rx_endpoint =
  fixes S :: "'c rx_sinks" and good :: "'c \<Rightarrow> bool" and log :: "'c \<Rightarrow> rx_event list"
  assumes goes_on: "good c \<Longrightarrow> \<not> rxIsTerminating S c \<Longrightarrow> length p \<le> 125 \<Longrightarrow>
      c' \<in> {onRxText S m c, onRxBinary S m c, onRxPing S p c} \<Longrightarrow>
      good c' \<and> \<not> rxIsTerminating S c' \<and> rxCompressionEnabled S c' = rxCompressionEnabled S c"
    and stops: "good c \<Longrightarrow> \<not> rxIsTerminating S c \<Longrightarrow> close_code \<in> {1002, 1007} \<Longrightarrow>
      c' \<in> {onRxClose S code reason c, onRxProtocolError S close_code why c} \<Longrightarrow>
      good c' \<and> rxIsTerminating S c'"
    and log_text: "good c \<Longrightarrow> \<not> rxIsTerminating S c \<Longrightarrow> log (onRxText S m c) = log c @ [EvText m]"
    and log_binary: "good c \<Longrightarrow> \<not> rxIsTerminating S c \<Longrightarrow> log (onRxBinary S m c) = log c @ [EvBinary m]"
    and log_ping: "good c \<Longrightarrow> \<not> rxIsTerminating S c \<Longrightarrow> length p \<le> 125 \<Longrightarrow>
      log (onRxPing S p c) = log c @ [EvPing p]"
    and log_close: "good c \<Longrightarrow> \<not> rxIsTerminating S c \<Longrightarrow>
      log (onRxClose S code reason c) = log c @ [EvClose (unat code) reason]"
    and log_error: "good c \<Longrightarrow> \<not> rxIsTerminating S c \<Longrightarrow> close_code \<in> {1002, 1007} \<Longrightarrow>
      log (onRxProtocolError S close_code why c) = log c @ [EvError (unat close_code)]"

text \<open>How the receiver represents a message being assembled.\<close>

fun rx_assembling :: "assembly \<Rightarrow> 'i ws_rx \<Rightarrow> bool" where
  "rx_assembling Idle r \<longleftrightarrow> \<not> message_in_progress r"
| "rx_assembling (Collecting k acc) r \<longleftrightarrow>
     message_in_progress r \<and> \<not> compressed_message_in_progress r \<and> fragmented_opcode r = k \<and>
     k \<in> {1, 2} \<and> fragmented_message r = acc \<and>
     (k = 1 \<longrightarrow> validateChunk acc Utf8Validator = (True, utf8Validator r))"

definition rx_realises ::
    "'c rx_sinks \<Rightarrow> ('c \<Rightarrow> bool) \<Rightarrow> ('c \<Rightarrow> rx_event list) \<Rightarrow> 'c \<Rightarrow> rx_event list \<times> assembly option
      \<Rightarrow> 'i ws_rx \<Rightarrow> 'c \<Rightarrow> bool" where
  "rx_realises S good log c res r' c' \<longleftrightarrow>
     good c' \<and> log c' = log c @ fst res \<and>
     (case snd res of
        None \<Rightarrow> rxIsTerminating S c'
      | Some a \<Rightarrow> \<not> rxIsTerminating S c' \<and> rxCompressionEnabled S c' = rxCompressionEnabled S c \<and>
                  rx_assembling a r')"

lemma utf8_reset_fresh [simp]: "utf8_reset v = Utf8Validator"
  by (simp add: utf8_reset_def Utf8Validator_def)

lemma validateChunk_cases:
  assumes "validateChunk bs Utf8Validator = (ok, v)"
  shows "ok \<longleftrightarrow> (\<exists>ext. well_formed (bs @ ext))" "ok \<and> validateFinal v \<longleftrightarrow> well_formed bs"
  using utf8.feed_viable [of bs] utf8.feed_lang [of bs] assms by simp_all

lemma valid_close_code_rfc: "valid_close_code code = rfc_close_code (unat code)"
proof -
  have "code = n \<longleftrightarrow> unat code = unat n" for n by (simp add: word_unat_eq_iff)
  moreover have "(1000 \<le> n \<and> n \<le> 1011 \<and> n \<noteq> 1004 \<and> n \<noteq> 1005 \<and> n \<noteq> 1006)
      = (n \<in> {1000, 1001, 1002, 1003, 1007, 1008, 1009, 1010, 1011})" for n :: nat
    by (simp, presburger)
  ultimately show ?thesis
    by (simp add: valid_close_code_def rfc_close_code_def word_le_nat_alt)
qed

lemma parse_close_rfc:
  assumes "length p \<le> 125"
  shows "case parse_close p of (bad, code, reason) \<Rightarrow>
    rfc_close p = EvClose (unat (if bad then 1002 else code)) (if bad then [] else reason)"
proof -
  have code: "2 \<le> length p \<Longrightarrow> unat (ntohs (load16 (take 2 p))) = be_val (take 2 p)"
    by (rule ntohs_value) simp
  have empty: "well_formed []" by (simp add: well_formed_iff)
  consider "p = []" | "length p = 1" | "length p = 2" | "2 < length p"
    by (cases p rule: short_list_cases) auto
  then show ?thesis
  proof cases
    case 4
    then show ?thesis using assms code
      by (auto simp: parse_close_def rfc_close_def Let_def valid_close_code_rfc isValidUtf8_iff)
  next
    case 3
    then have "drop 2 p = []" "take 2 p = p" by simp_all
    then show ?thesis using 3 code empty
      by (auto simp: parse_close_def rfc_close_def Let_def valid_close_code_rfc)
  qed (auto simp: parse_close_def rfc_close_def)
qed

lemma handleCloseFrame_rfc:
  assumes "length p \<le> 125"
  obtains code reason where "handleCloseFrame S p c = onRxClose S code reason c"
    "rfc_close p = EvClose (unat code) reason"
  using parse_close_rfc [OF assms] by (auto simp: handleCloseFrame_def Let_def split: prod.splits)

lemma rx_header_append:
  "rx_header compression buf \<noteq> HdrWait \<Longrightarrow> rx_header compression (buf @ later) = rx_header compression buf"
proof -
  assume ready: "rx_header compression buf \<noteq> HdrWait"
  then have len: "2 \<le> length buf" unfolding rx_header_def Let_def by (cases "length buf < 2") simp_all
  then have hdr: "take 14 (buf @ later) ! 0 = take 14 buf ! 0" "take 14 (buf @ later) ! 1 = take 14 buf ! 1"
    using len by (auto simp: nth_append)
  have two: "take 2 (drop 2 (take 14 (buf @ later))) = take 2 (drop 2 (take 14 buf))" if "4 \<le> length buf"
    using that by (auto simp add: drop_take min_def)
  have eight: "take 8 (drop 2 (take 14 (buf @ later))) = take 8 (drop 2 (take 14 buf))" if "10 \<le> length buf"
    using that by (auto simp add: drop_take min_def)
  define len7 where "len7 = (ucast (take 14 buf ! 1 AND 0x7F) :: u64)"
  consider "len7 = 126" "4 \<le> length buf" | "len7 = 127" "10 \<le> length buf" | "len7 \<noteq> 126" "len7 \<noteq> 127"
    | "(len7 = 126 \<and> length buf < 4) \<or> (len7 = 127 \<and> length buf < 10)" by linarith
  then show ?thesis
  proof cases
    case 1
    then show ?thesis using len two unfolding rx_header_def Let_def hdr len7_def [symmetric] by simp
  next
    case 2
    then show ?thesis using len eight unfolding rx_header_def Let_def hdr len7_def [symmetric] by simp
  next
    case 3
    then show ?thesis using len unfolding rx_header_def Let_def hdr len7_def [symmetric] by simp
  next
    case 4
    then show ?thesis using len ready unfolding rx_header_def Let_def hdr len7_def [symmetric] by auto
  qed
qed

context rx_endpoint
begin

lemma error_realises:
  assumes "good c" "\<not> rxIsTerminating S c" "close_code \<in> {1002, 1007}" "n = unat close_code"
  shows "rx_realises S good log c ([EvError n], None) r' (onRxProtocolError S close_code why c)"
  using assms stops [OF assms(1-3)] log_error [OF assms(1-3)] by (simp add: rx_realises_def) blast

lemma text_realises:
  assumes "good c" "\<not> rxIsTerminating S c" "\<not> message_in_progress r'"
  shows "rx_realises S good log c ([EvText m], Some Idle) r' (onRxText S m c)"
  using assms goes_on [OF assms(1,2), of "[]"] log_text [OF assms(1,2)] by (simp add: rx_realises_def) blast

lemma binary_realises:
  assumes "good c" "\<not> rxIsTerminating S c" "\<not> message_in_progress r'"
  shows "rx_realises S good log c ([EvBinary m], Some Idle) r' (onRxBinary S m c)"
  using assms goes_on [OF assms(1,2), of "[]"] log_binary [OF assms(1,2)] by (simp add: rx_realises_def) blast

lemma silent_realises:
  assumes "good c" "\<not> rxIsTerminating S c" "rx_assembling a r'"
  shows "rx_realises S good log c ([], Some a) r' c"
  using assms by (simp add: rx_realises_def)

lemma deliverSingle_realises:
  assumes "good c" "\<not> rxIsTerminating S c" "opcode = 1 \<or> opcode = 2" "\<not> message_in_progress r"
  shows "case deliverSingle S msg opcode r c of (r', c') \<Rightarrow>
    rx_realises S good log c (rfc_fragment opcode True msg) r' c'"
proof (cases "opcode = 1")
  case True
  obtain ok v where v: "validateChunk msg Utf8Validator = (ok, v)" by fastforce
  show ?thesis using True v assms validateChunk_cases [OF v]
    by (auto simp: deliverSingle_def rfc_fragment_def rx_validateChunk_def rx_reset_utf8_def
        intro!: error_realises text_realises)
next
  case False
  then show ?thesis using assms by (auto simp: deliverSingle_def rfc_fragment_def intro!: binary_realises)
qed

lemma handleDataFrame_realises:
  assumes "good c" "\<not> rxIsTerminating S c" "\<not> (rsv1 \<and> rxCompressionEnabled S c)"
    and "rx_assembling a r" "opcode = 1 \<or> opcode = 2"
  shows "\<exists>r' c'. handleDataFrame Z S p fin opcode rsv1 r c = Some (r', c') \<and>
    rx_realises S good log c
      (case a of Idle \<Rightarrow> rfc_fragment opcode fin p | Collecting k acc \<Rightarrow> ([EvError 1002], None)) r' c'"
proof (cases a)
  case (Collecting k acc)
  then show ?thesis using assms by (auto simp: handleDataFrame_def intro!: error_realises)
next
  case Idle
  then have idle: "\<not> message_in_progress r" using assms(4) by simp
  show ?thesis
  proof (cases fin)
    case True
    then show ?thesis
      using deliverSingle_realises [OF assms(1,2,5) idle, of p] assms(3) idle Idle
      by (auto simp: handleDataFrame_def split: prod.splits)
  next
    case False
    obtain ok v where v: "validateChunk p Utf8Validator = (ok, v)" by fastforce
    show ?thesis using False v assms idle Idle validateChunk_cases(1) [OF v]
      by (auto simp: handleDataFrame_def rfc_fragment_def rx_validateChunk_def rx_reset_utf8_def Let_def
          intro!: error_realises silent_realises split: bool.splits)
  qed
qed

lemma finishFragmented_realises:
  assumes "good c" "\<not> rxIsTerminating S c" "rx_assembling (Collecting k acc) r"
  shows "case finishFragmented S r c of (r', c') \<Rightarrow>
    rx_realises S good log c (rfc_fragment k True acc) r' c'"
proof (cases "k = 1")
  case True
  then have v: "validateChunk acc Utf8Validator = (True, utf8Validator r)" using assms(3) by simp
  show ?thesis using True assms validateChunk_cases [OF v]
    by (auto simp: finishFragmented_def rfc_fragment_def rx_reset_utf8_def Let_def
        intro!: error_realises text_realises)
next
  case False
  then show ?thesis using assms
    by (auto simp: finishFragmented_def rfc_fragment_def Let_def intro!: binary_realises)
qed

lemma handleContinuationFrame_realises:
  assumes "good c" "\<not> rxIsTerminating S c" "rx_assembling a r"
  shows "\<exists>r' c'. handleContinuationFrame Z S p fin r c = Some (r', c') \<and>
    rx_realises S good log c
      (case a of Idle \<Rightarrow> ([EvError 1002], None) | Collecting k acc \<Rightarrow> rfc_fragment k fin (acc @ p)) r' c'"
proof (cases a)
  case Idle
  then show ?thesis using assms by (auto simp: handleContinuationFrame_def intro!: error_realises)
next
  case (Collecting k acc)
  define r1 where "r1 = r\<lparr>fragmented_message := acc @ p\<rparr>"
  have r: "message_in_progress r" "\<not> compressed_message_in_progress r" "fragmented_opcode r = k"
    "k = 1 \<or> k = 2" "fragmented_message r = acc"
    "k = 1 \<Longrightarrow> validateChunk acc Utf8Validator = (True, utf8Validator r)"
    using assms(3) Collecting by auto
  show ?thesis
  proof (cases "k = 1")
    case False
    then have "rx_assembling (Collecting k (acc @ p)) r1" using r by (simp add: r1_def)
    then show ?thesis
      using False r finishFragmented_realises [OF assms(1,2), of k "acc @ p" r1] assms Collecting
      by (auto simp: handleContinuationFrame_def r1_def rfc_fragment_def Let_def
          intro!: silent_realises split: prod.splits)
  next
    case True
    obtain ok v where v: "validateChunk p (utf8Validator r) = (ok, v)" by fastforce
    then have whole: "validateChunk (acc @ p) Utf8Validator = (ok, v)"
      using r(6) [OF True] by (cases ok) (simp_all add: validateChunk_append)
    note viable = validateChunk_cases(1) [OF whole]
    show ?thesis
    proof (cases ok)
      case False
      then have "\<not> well_formed (acc @ p)" using validateChunk_cases(2) [OF whole] by simp
      then show ?thesis using False True r v viable assms Collecting
        by (auto simp: handleContinuationFrame_def rx_validateChunk_def rfc_fragment_def Let_def
            intro!: error_realises)
    next
      case ok: True
      then have sim: "rx_assembling (Collecting k (acc @ p)) (r1\<lparr>utf8Validator := v\<rparr>)"
        using True r whole by (simp add: r1_def)
      show ?thesis
        using ok True r v viable sim finishFragmented_realises [OF assms(1,2) sim] assms Collecting
        by (auto simp: handleContinuationFrame_def rx_validateChunk_def r1_def rfc_fragment_def Let_def
            intro!: silent_realises split: prod.splits)
    qed
  qed
qed

lemma close_realises:
  assumes "good c" "\<not> rxIsTerminating S c" "length p \<le> 125"
  shows "rx_realises S good log c ([rfc_close p], None) r' (handleCloseFrame S p c)"
proof -
  obtain code reason where h: "handleCloseFrame S p c = onRxClose S code reason c"
    "rfc_close p = EvClose (unat code) reason"
    using handleCloseFrame_rfc [OF assms(3)] by metis
  show ?thesis using stops [OF assms(1,2), of 1002] log_close [OF assms(1,2)]
    unfolding h by (simp add: rx_realises_def) blast
qed

lemma ping_realises:
  assumes "good c" "\<not> rxIsTerminating S c" "length p \<le> 125" "rx_assembling a r'"
  shows "rx_realises S good log c ([EvPing p], Some a) r' (handlePingFrame S p c)"
  using assms goes_on [OF assms(1,2,3)] log_ping [OF assms(1-3)]
  by (simp add: handlePingFrame_def rx_realises_def)

lemma rx_dispatch_realises:
  assumes "good c" "\<not> rxIsTerminating S c" "\<not> (fst (frame_rsv f) \<and> rxCompressionEnabled S c)"
    and "rx_assembling a r" "8 \<le> frame_opcode f \<longrightarrow> length (frame_payload f) \<le> 125"
  shows "\<exists>go_on r' c'. rx_dispatch Z S (frame_opcode f) (frame_fin f) (fst (frame_rsv f)) (frame_payload f) r c
      = Some (go_on, r', c') \<and> rx_realises S good log c (rfc_message f a) r' c' \<and>
    (\<not> go_on \<longrightarrow> snd (rfc_message f a) = None)"
proof -
  note cont = handleContinuationFrame_realises [OF assms(1,2,4), of Z "frame_payload f" "frame_fin f"]
  note data = handleDataFrame_realises [OF assms(1-4), of "frame_opcode f" Z "frame_payload f" "frame_fin f"]
  consider "frame_opcode f = 0" | "frame_opcode f = 1 \<or> frame_opcode f = 2" | "frame_opcode f = 8"
    | "frame_opcode f = 9" | "frame_opcode f = 10" | "frame_opcode f \<notin> {0, 1, 2, 8, 9, 10}" by auto
  then show ?thesis
  proof cases
    case 1
    then show ?thesis using cont by (auto simp: rx_dispatch_def rfc_message_def)
  next
    case 2
    then show ?thesis using data by (auto simp: rx_dispatch_def rfc_message_def)
  next
    case 3
    then show ?thesis using close_realises [OF assms(1,2), of "frame_payload f" r] assms(5)
      by (auto simp add: rx_dispatch_def rfc_message_def)
  next
    case 4
    then show ?thesis using ping_realises [OF assms(1,2) _ assms(4), of "frame_payload f"] assms(5)
      by (auto simp add: rx_dispatch_def rfc_message_def)
  next
    case 5
    then show ?thesis using silent_realises [OF assms(1,2,4)] by (auto simp add: rx_dispatch_def rfc_message_def)
  next
    case 6
    then show ?thesis using error_realises [OF assms(1,2), of 1002 1002 r "''Unsupported opcode''"]
      by (auto simp add: rx_dispatch_def rfc_message_def)
  qed
qed

lemma onData_terminating: "rxIsTerminating S c \<Longrightarrow> onData Z S buf r c = Some (False, buf, r, c)"
  by (simp add: onData.simps onData_step_def)

lemma onData_step_realises:
  assumes "pullup_doc Z" "good c" "\<not> rxIsTerminating S c" "\<not> rxCompressionEnabled S c" "rx_assembling a r"
  shows "case rfc_server_frame False buf of
      NeedMore \<Rightarrow> onData_step Z S buf r c = Some (RxLeave, r, c)
    | BadFrame \<Rightarrow> \<exists>c'. onData_step Z S buf r c = Some (RxLeave, r, c') \<and>
        rx_realises S good log c ([EvError 1002], None) r c'
    | TooLong \<Rightarrow> True
    | Got f rest \<Rightarrow> \<exists>n go_on r' c'.
        onData_step Z S buf r c = Some (if go_on then RxDrain n else RxLeave, r', c') \<and>
        rest = drop n buf \<and> rx_realises S good log c (rfc_message f a) r' c' \<and>
        (\<not> go_on \<longrightarrow> snd (rfc_message f a) = None)"
proof (cases "rfc_server_frame False buf")
  case NeedMore
  show ?thesis using rx_header_rfc [of False buf] assms(3,4) need_no_wrap rx_header_Hdr
    by (auto simp: NeedMore onData_step_def Let_def) fastforce?
next
  case BadFrame
  then obtain why where "rx_header False buf = HdrError why" using rx_header_rfc [of False buf] by auto
  then show ?thesis using assms(2-4) error_realises [OF assms(2,3), of 1002 1002]
    by (auto simp: BadFrame onData_step_def)
next
  case TooLong
  then show ?thesis by simp
next
  case (Got f rest)
  obtain h p where hdr: "rx_header False buf = Hdr (frame_fin f) (fst (frame_rsv f)) (frame_opcode f) h p"
    "unat p = length (frame_payload f)" "unat p < 2 ^ 63" "h + unat p \<le> length buf"
    "frame_payload f = take (unat p) (drop h buf)" "rest = drop (h + unat p) buf"
    using rx_header_rfc [of False buf] unfolding Got by auto
  have h: "2 \<le> h" "h \<le> 10" using rx_header_Hdr [OF hdr(1)] by simp_all
  then have need: "unat (word_of_nat h + p) = h + unat p" using need_no_wrap [of h p] hdr(3) by simp
  have pull: "pullup Z buf (h + unat p) = Some (take (h + unat p) buf)"
    using assms(1) hdr(4) h by (simp add: pullup_doc_def)
  have payload: "take (unat p) (drop h (take (h + unat p) buf)) = frame_payload f"
    by (simp add: hdr(5) drop_take)
  have ctl: "8 \<le> frame_opcode f \<longrightarrow> length (frame_payload f) \<le> 125" "\<not> fst (frame_rsv f)"
    using Got by (auto simp: rfc_server_frame_def Let_def split: if_split_asm option.split_asm)
  obtain go_on r' c' where d: "rx_dispatch Z S (frame_opcode f) (frame_fin f) (fst (frame_rsv f)) (frame_payload f) r c
      = Some (go_on, r', c')" "rx_realises S good log c (rfc_message f a) r' c'"
      "\<not> go_on \<longrightarrow> snd (rfc_message f a) = None"
    using rx_dispatch_realises [OF assms(2,3) _ assms(5), of f Z] ctl by auto
  have "onData_step Z S buf r c = Some (if go_on then RxDrain (h + unat p) else RxLeave, r', c')"
    using assms(3,4) hdr(1,3,4) d(1)
    by (simp add: onData_step_def Let_def need pull payload not_less)
  then show ?thesis using d(2,3) hdr(6) by (auto simp: Got)
qed

lemma onData_realises:
  assumes "pullup_doc Z"
  shows "rfc_stream buf a = Some res \<Longrightarrow> good c \<Longrightarrow> \<not> rxIsTerminating S c \<Longrightarrow>
    \<not> rxCompressionEnabled S c \<Longrightarrow> rx_assembling a r \<Longrightarrow>
    \<exists>rest r' c'. onData Z S buf r c = Some (False, rest, r', c') \<and> rx_realises S good log c res r' c'"
proof (induction buf a arbitrary: r c res rule: rfc_stream.induct)
  case (1 buf a)
  note step = onData_step_realises [OF assms 1(3-6), of buf]
  show ?case
  proof (cases "rfc_server_frame False buf")
    case NeedMore
    then show ?thesis using step 1(2-6) silent_realises [OF 1(3,4,6)]
      by (simp add: rfc_stream.simps [of buf] onData.simps [of Z S buf])
  next
    case BadFrame
    then show ?thesis using step 1(2-6)
      by (auto simp add: rfc_stream.simps [of buf] onData.simps [of Z S buf])
  next
    case TooLong
    then show ?thesis using 1(2) by (simp add: rfc_stream.simps [of buf])
  next
    case (Got f rest)
    obtain n go_on r1 c1 where s: "onData_step Z S buf r c = Some (if go_on then RxDrain n else RxLeave, r1, c1)"
      "rest = drop n buf" "rx_realises S good log c (rfc_message f a) r1 c1"
      "\<not> go_on \<longrightarrow> snd (rfc_message f a) = None"
      using step by (auto simp: Got)
    obtain evs nxt where m: "rfc_message f a = (evs, nxt)" by fastforce
    show ?thesis
    proof (cases nxt)
      case None
      then have "rxIsTerminating S c1" "res = (evs, None)"
        using s(3) m 1(2) by (simp_all add: rx_realises_def rfc_stream.simps [of buf] Got)
      then show ?thesis using s(1,3) m None onData_terminating [of c1 Z "drop n buf" r1]
        by (cases go_on) (auto simp add: onData.simps [of Z S buf])
    next
      case (Some a1)
      obtain evs2 next2 where tail: "rfc_stream rest a1 = Some (evs2, next2)" "res = (evs @ evs2, next2)"
        using 1(2) m Some by (auto simp: rfc_stream.simps [of buf] Got)
      have live: "good c1" "\<not> rxIsTerminating S c1" "\<not> rxCompressionEnabled S c1" "rx_assembling a1 r1"
        "log c1 = log c @ evs" "rxCompressionEnabled S c1 = rxCompressionEnabled S c" "go_on"
        using s(3,4) m Some 1(5) by (auto simp: rx_realises_def)
      obtain rest' r' c' where "onData Z S rest r1 c1 = Some (False, rest', r', c')"
        "rx_realises S good log c1 (evs2, next2) r' c'"
        using "1.IH" [OF Got m [symmetric] Some tail(1) live(1-4)] by auto
      then show ?thesis using s(1,2) live tail(2)
        by (simp add: onData.simps [of Z S buf] rx_realises_def split: option.splits)
    qed
  qed
qed

text \<open>A handler makes at most one call of the sinks.\<close>

definition one_call :: "'c \<Rightarrow> 'c \<Rightarrow> bool" where
  "one_call c c' \<longleftrightarrow> c' = c \<or> (\<exists>m. c' = onRxText S m c) \<or> (\<exists>m. c' = onRxBinary S m c) \<or>
     (\<exists>p. length p \<le> 125 \<and> c' = onRxPing S p c) \<or> (\<exists>code reason. c' = onRxClose S code reason c) \<or>
     (\<exists>code why. code \<in> {1002, 1007} \<and> c' = onRxProtocolError S code why c)"

lemma one_call_intros:
  "one_call c c" "one_call c (onRxText S m c)" "one_call c (onRxBinary S m c)"
  "length p \<le> 125 \<Longrightarrow> one_call c (onRxPing S p c)" "one_call c (onRxClose S code reason c)"
  "one_call c (onRxProtocolError S 1002 why c)" "one_call c (onRxProtocolError S 1007 why c)"
  unfolding one_call_def by blast+

lemma one_call_good: "one_call c c' \<Longrightarrow> good c \<Longrightarrow> \<not> rxIsTerminating S c \<Longrightarrow> good c'"
  using goes_on [of c] stops [of c] unfolding one_call_def by (metis insertCI list.size(3) zero_le)

lemma finishFragmented_call: "finishFragmented S r c = (r', c') \<Longrightarrow> one_call c c'"
  by (auto simp: finishFragmented_def Let_def intro: one_call_intros split: if_split_asm prod.split_asm)

lemma deliverSingle_call: "deliverSingle S msg opcode r c = (r', c') \<Longrightarrow> one_call c c'"
  by (auto simp: deliverSingle_def intro: one_call_intros split: if_split_asm prod.split_asm)

lemma handleContinuationFrame_call:
  "handleContinuationFrame Z S p fin r c = Some (r', c') \<Longrightarrow> one_call c c'"
  by (auto simp: handleContinuationFrame_def Let_def dest: finishFragmented_call
      intro: one_call_intros split: if_split_asm prod.split_asm bool.split_asm option.split_asm)

lemma handleDataFrame_call:
  "handleDataFrame Z S p fin opcode rsv1 r c = Some (r', c') \<Longrightarrow> one_call c c'"
  by (auto simp: handleDataFrame_def Let_def dest: deliverSingle_call
      intro: one_call_intros split: if_split_asm prod.split_asm bool.split_asm option.split_asm)

lemma rx_dispatch_call:
  assumes "rx_dispatch Z S opcode fin rsv1 p r c = Some (go_on, r', c')"
  shows "one_call c c'" "\<not> go_on \<Longrightarrow> good c \<Longrightarrow> \<not> rxIsTerminating S c \<Longrightarrow> rxIsTerminating S c'"
proof -
  show "one_call c c'" using assms
    by (auto simp: rx_dispatch_def handleCloseFrame_def handlePingFrame_def Let_def
        dest: handleContinuationFrame_call handleDataFrame_call intro: one_call_intros
        split: if_split_asm prod.split_asm)
  show "rxIsTerminating S c'" if "\<not> go_on" "good c" "\<not> rxIsTerminating S c"
    using assms that stops [OF that(2,3), of 1002]
    by (auto simp: rx_dispatch_def split: if_split_asm)
qed

lemma onData_step_call:
  "onData_step Z S buf r c = Some (out, r', c') \<Longrightarrow>
    (if rxIsTerminating S c then c' = c else one_call c c')"
  by (auto simp: onData_step_def Let_def intro: one_call_intros dest: rx_dispatch_call(1)
      split: if_split_asm rx_header.split_asm option.split_asm)

lemma onData_step_good:
  "onData_step Z S buf r c = Some (out, r', c') \<Longrightarrow> good c \<Longrightarrow> good c'"
  using onData_step_call [of Z buf r c out r' c'] one_call_good [of c c'] by (simp split: if_split_asm)

lemma onData_good:
  "onData Z S buf r c = Some (threw, rest, r', c') \<Longrightarrow> good c \<Longrightarrow> good c'"
proof (induction "length buf" arbitrary: buf r c rule: less_induct)
  case less
  obtain out r1 c1 where step: "onData_step Z S buf r c = Some (out, r1, c1)"
    using less.prems(1) by (auto simp: onData.simps [of Z S buf] split: option.split_asm prod.split_asm)
  have good1: "good c1" using onData_step_good step less.prems(2) by blast
  show ?case
  proof (cases out)
    case (RxDrain n)
    note n = onData_step_drain [OF step [unfolded RxDrain]]
    show ?thesis using less.hyps [of "drop n buf" r1 c1] less.prems(1) step good1 RxDrain n
      by (simp add: onData.simps [of Z S buf])
  qed (use less.prems(1) step good1 in \<open>simp_all add: onData.simps [of Z S buf]\<close>)
qed

text \<open>More input changes nothing for a frame that is already complete or already refused.\<close>

lemma onData_step_append:
  assumes "pullup_doc Z" "good c" "\<not> rxIsTerminating S c" "onData_step Z S buf r c = res"
  shows "(res = Some (RxLeave, r, c)) \<or>
    (\<exists>r1 c1. res = Some (RxLeave, r1, c1) \<and> rxIsTerminating S c1 \<and> onData_step Z S (buf @ later) r c = res) \<or>
    ((\<forall>r1 c1. res \<noteq> Some (RxLeave, r1, c1)) \<and> onData_step Z S (buf @ later) r c = res)"
proof (cases "rx_header (rxCompressionEnabled S c) buf")
  case HdrWait
  then show ?thesis using assms(3,4) by (auto simp: onData_step_def)
next
  case (HdrError why)
  then have "rx_header (rxCompressionEnabled S c) (buf @ later) = HdrError why"
    by (simp add: rx_header_append)
  moreover have "rxIsTerminating S (onRxProtocolError S 1002 why c)"
    using stops [OF assms(2,3), of 1002] by blast
  ultimately show ?thesis using assms(3,4) HdrError by (auto simp: onData_step_def)
next
  case (Hdr fin rsv1 opcode h p)
  then have same: "rx_header (rxCompressionEnabled S c) (buf @ later) = Hdr fin rsv1 opcode h p"
    by (simp add: rx_header_append)
  define n where "n = unat (word_of_nat h + p)"
  show ?thesis
  proof (cases "length buf < n")
    case True
    then show ?thesis using assms(3,4) Hdr by (auto simp: onData_step_def Let_def n_def)
  next
    case False
    then have same_step: "onData_step Z S (buf @ later) r c = res"
    proof -
      have "pullup Z (buf @ later) n = pullup Z buf n" "(length (buf @ later) < n) = False" "(length buf < n) = False"
        using assms(1) False by (simp_all add: pullup_doc_def)
      note unf = onData_step_def Hdr same Let_def n_def [symmetric] this rx_header.case if_False
      show ?thesis unfolding assms(4) [symmetric] unf using assms(3) by simp
    qed
    have "rxIsTerminating S c1" if "res = Some (RxLeave, r1, c1)" for r1 c1
      using that assms(3,4) Hdr False stops [OF assms(2,3), of 1002]
      by (auto simp: onData_step_def Let_def n_def [symmetric] dest: rx_dispatch_call(2) [OF _ _ assms(2,3)]
          split: option.split_asm if_split_asm)
    then show ?thesis using same_step by blast
  qed
qed

text \<open>The buffer may be filled in any pieces.\<close>

lemma onData_append:
  assumes "pullup_doc Z" "good c"
  shows "onData Z S (buf @ later) r c =
    (case onData Z S buf r c of
       None \<Rightarrow> None
     | Some (True, rest, r1, c1) \<Rightarrow> Some (True, rest @ later, r1, c1)
     | Some (False, rest, r1, c1) \<Rightarrow> onData Z S (rest @ later) r1 c1)"
  using assms(2)
proof (induction "length buf" arbitrary: buf r c rule: less_induct)
  case less
  show ?case
  proof (cases "rxIsTerminating S c")
    case True
    then show ?thesis by (simp add: onData_terminating)
  next
    case False
    note split = onData_step_append [OF assms(1) less.prems False refl, of buf r later]
    show ?thesis
    proof (cases "onData_step Z S buf r c")
      case None
      then have "onData_step Z S (buf @ later) r c = None" using split by simp
      then show ?thesis using None by (simp add: onData.simps [of Z S buf] onData.simps [of Z S "buf @ later"])
    next
      case (Some res)
      obtain out r1 c1 where res: "onData_step Z S buf r c = Some (out, r1, c1)" using Some by (cases res) auto
      show ?thesis
      proof (cases out)
        case RxLeave
        then have "(r1 = r \<and> c1 = c) \<or>
            (rxIsTerminating S c1 \<and> onData_step Z S (buf @ later) r c = Some (RxLeave, r1, c1))"
          using split res by auto
        then show ?thesis using res RxLeave onData_terminating [of c1 Z "buf @ later" r1]
          by (auto simp: onData.simps [of Z S buf] onData.simps [of Z S "buf @ later" r c])
      next
        case RxThrow
        then have "onData_step Z S (buf @ later) r c = Some (RxThrow, r1, c1)" using split res by auto
        then show ?thesis using res RxThrow
          by (simp add: onData.simps [of Z S buf] onData.simps [of Z S "buf @ later"])
      next
        case (RxDrain n)
        then have step: "onData_step Z S (buf @ later) r c = Some (RxDrain n, r1, c1)" using split res by auto
        have n: "2 \<le> n" "n \<le> length buf" using onData_step_drain [OF res [unfolded RxDrain]] by simp_all
        have "good c1" using onData_step_good res RxDrain less.prems by blast
        then show ?thesis using res RxDrain step n less.hyps [of "drop n buf" c1 r1]
          by (simp add: onData.simps [of Z S buf] onData.simps [of Z S "buf @ later" r c])
      qed
    qed
  qed
qed

end

section \<open>Properties\<close>

text \<open>C34: the length arithmetic of \<open>onData\<close> wraps. A frame header that announces a length from
  \<open>2^64 - 9\<close> up to \<open>2^64 - 1\<close> makes \<open>need\<close> small enough to be satisfied by the header itself, and
  std::length_error leaves the loop from the reserve of the payload vector: ten bytes from the
  server suffice, whatever the endpoint's state, unless it is terminating.\<close>

theorem onData_length_overflow:
  assumes "pullup_doc Z" "\<not> rxIsTerminating S c" "2 ^ 64 - 9 \<le> n" "n < 2 ^ 64"
  shows "onData Z S ([0x82, 0x7F] @ be_bytes 8 n @ rest) r c
    = Some (True, [0x82, 0x7F] @ be_bytes 8 n @ rest, r, c)"
proof -
  let ?buf = "[0x82, 0x7F] @ be_bytes 8 n @ rest"
  have "take 8 (drop 2 (take 14 ?buf)) = be_bytes 8 n" by (simp add: take_Cons')
  then have len: "unat (ntohll (load64 (take 8 (drop 2 (take 14 ?buf))))) = n"
    using ntohll_value [of "be_bytes 8 n"] assms(4) by (simp add: be_val_bytes)
  define p where "p = ntohll (load64 (take 8 (drop 2 (take 14 ?buf))))"
  have p: "unat p = n" using len by (simp only: p_def)
  have hdr: "rx_header (rxCompressionEnabled S c) ?buf = Hdr True False 2 10 p"
    unfolding rx_header_def Let_def p_def [symmetric] by simp
  have "unat (word_of_nat 10 + p) = (10 + n) mod 2 ^ 64" by (simp add: unat_word_ariths p)
  also have "\<dots> = n - (2 ^ 64 - 10)"
    using assms(3,4) by (subst mod_if) (simp add: mod_if)
  finally have need: "unat (word_of_nat 10 + p) = n - (2 ^ 64 - 10)" .
  have small: "0 < n - (2 ^ 64 - 10)" "n - (2 ^ 64 - 10) \<le> length ?buf" "2 ^ 63 - 1 < n"
    using assms(3,4) by simp_all
  have "onData_step Z S ?buf r c = Some (RxThrow, r, c)"
    using assms(1,2) small unfolding onData_step_def hdr rx_header.case Let_def need
    by (simp add: pullup_doc_def p)
  then show ?thesis by (simp add: onData.simps)
qed

definition recording_sinks :: "rx_event list rx_sinks" where
  "recording_sinks = \<lparr>rxCompressionEnabled = (\<lambda>c. False), onRxPing = (\<lambda>p c. c @ [EvPing p]),
     onRxClose = (\<lambda>code reason c. c @ [EvClose (unat code) reason]),
     onRxProtocolError = (\<lambda>code why c. c @ [EvError (unat code)]),
     onRxText = (\<lambda>m c. c @ [EvText m]), onRxBinary = (\<lambda>m c. c @ [EvBinary m]),
     rxIsTerminating = (\<lambda>c. c \<noteq> [] \<and> (case last c of EvClose _ _ \<Rightarrow> True | EvError _ \<Rightarrow> True | _ \<Rightarrow> False))\<rparr>"

theorem onData_length_overflow_witness:
  "onData stored_ext recording_sinks ([0x82, 0x7F] @ be_bytes 8 (2 ^ 64 - 1) @ []) (WebSocketReceiver stored_ext) []
    = Some (True, [0x82, 0x7F] @ be_bytes 8 (2 ^ 64 - 1) @ [], WebSocketReceiver stored_ext, [])"
  by (rule onData_length_overflow [OF stored_pullup_doc]) (simp_all add: recording_sinks_def)

end
