(* ===== verification/Text.thy ===== *)
theory Text
  imports Prelude
begin

text \<open>
  The std::string operations the handshake, the URL parser and the glue use, on byte strings:
  literals, \<open>tolower\<close> of the C locale, \<open>find\<close>, \<open>find_first_of\<close>, \<open>substr\<close> and \<open>stoi\<close>.
\<close>

section \<open>Operations\<close>

definition ascii :: "string \<Rightarrow> bytes" where
  "ascii s = map of_char s"

abbreviation "CRLF \<equiv> [0x0D, 0x0A] :: bytes"

definition tolower :: "byte \<Rightarrow> byte" where
  "tolower b = (if 0x41 \<le> b \<and> b \<le> 0x5A then b + 0x20 else b)"

definition lower :: "bytes \<Rightarrow> bytes" where
  "lower s = map tolower s"

text \<open>\<open>s.find(needle, pos)\<close>; \<open>None\<close> is npos.\<close>

definition find_sub :: "bytes \<Rightarrow> bytes \<Rightarrow> nat \<Rightarrow> nat option" where
  "find_sub s needle pos =
     List.find (\<lambda>i. take (length needle) (drop i s) = needle) [pos..<Suc (length s)]"

definition find_first_of :: "bytes \<Rightarrow> bytes \<Rightarrow> nat \<Rightarrow> nat option" where
  "find_first_of s chars pos = List.find (\<lambda>i. s ! i \<in> set chars) [pos..<length s]"

definition substr :: "bytes \<Rightarrow> nat \<Rightarrow> nat \<Rightarrow> bytes" where
  "substr s pos n = take n (drop pos s)"

text \<open>A \<open>%s\<close> conversion prints a C string: up to the first NUL.\<close>

definition c_str :: "bytes \<Rightarrow> bytes" where
  "c_str s = takeWhile (\<lambda>b. b \<noteq> 0) s"

section \<open>Numbers\<close>

definition is_space :: "byte \<Rightarrow> bool" where
  "is_space b \<longleftrightarrow> b = 0x20 \<or> (0x09 \<le> b \<and> b \<le> 0x0D)"

definition is_digit :: "byte \<Rightarrow> bool" where
  "is_digit b \<longleftrightarrow> 0x30 \<le> b \<and> b \<le> 0x39"

definition digits_value :: "bytes \<Rightarrow> int" where
  "digits_value ds = foldl (\<lambda>n d. n * 10 + (int (unat d) - 48)) 0 ds"

text \<open>\<open>std::stoi\<close> in base 10: leading space, a sign, the longest run of digits. \<open>None\<close> is one of
  its two exceptions, no digits or a value outside int.\<close>

definition stoi :: "bytes \<Rightarrow> int option" where
  "stoi s =
     (let s1 = dropWhile is_space s;
          neg = (s1 \<noteq> [] \<and> hd s1 = 0x2D);
          s2 = (if s1 \<noteq> [] \<and> (hd s1 = 0x2D \<or> hd s1 = 0x2B) then tl s1 else s1);
          ds = takeWhile is_digit s2;
          v = (if neg then - digits_value ds else digits_value ds)
      in if ds = [] \<or> v < - (2 ^ 31) \<or> 2 ^ 31 \<le> v then None else Some v)"

text \<open>\<open>std::to_string\<close> and \<open>%d\<close>.\<close>

fun nat_digits :: "nat \<Rightarrow> bytes" where
  "nat_digits n = (if n < 10 then [word_of_nat (48 + n)] else nat_digits (n div 10) @ [word_of_nat (48 + n mod 10)])"

declare nat_digits.simps [simp del]

section \<open>Facts\<close>

lemma tolower_idem [simp]: "tolower (tolower b) = tolower b"
proof -
  have "\<not> (0x41 \<le> b + 0x20 \<and> b + 0x20 \<le> 0x5A)" if "0x41 \<le> b" "b \<le> 0x5A" for b :: byte
    using that by (simp add: word_le_nat_alt unat_word_ariths)
  then show ?thesis by (auto simp: tolower_def)
qed

lemma lower_lower [simp]: "lower (lower s) = lower s"
  by (simp add: lower_def)

lemma length_lower [simp]: "length (lower s) = length s"
  by (simp add: lower_def)

lemma find_sub_Some:
  assumes "find_sub s needle pos = Some i"
  shows "pos \<le> i" "i + length needle \<le> length s" "take (length needle) (drop i s) = needle"
    "\<And>j. pos \<le> j \<Longrightarrow> j < i \<Longrightarrow> take (length needle) (drop j s) \<noteq> needle"
proof -
  obtain k where k: "k < Suc (length s) - pos" "take (length needle) (drop (pos + k) s) = needle" "i = pos + k"
    "\<forall>j<k. take (length needle) (drop (pos + j) s) \<noteq> needle"
  proof -
    have "\<exists>k<length [pos..<Suc (length s)]. take (length needle) (drop ([pos..<Suc (length s)] ! k) s) = needle \<and>
        i = [pos..<Suc (length s)] ! k \<and>
        (\<forall>j<k. take (length needle) (drop ([pos..<Suc (length s)] ! j) s) \<noteq> needle)"
      using assms unfolding find_sub_def find_Some_iff .
    then obtain k where "k < Suc (length s) - pos" "take (length needle) (drop ([pos..<Suc (length s)] ! k) s) = needle"
      "i = [pos..<Suc (length s)] ! k"
      "\<forall>j<k. take (length needle) (drop ([pos..<Suc (length s)] ! j) s) \<noteq> needle"
      unfolding length_upt by blast
    moreover have "[pos..<Suc (length s)] ! j = pos + j" if "j \<le> k" for j
      using that calculation(1) by (intro nth_upt) simp
    ultimately show ?thesis using that [of k] by simp
  qed
  have "min (length needle) (length s - i) = length needle"
    using arg_cong [OF k(2), of length] k(3) by (simp only: length_take length_drop min.commute)
  then show "pos \<le> i" "i + length needle \<le> length s" "take (length needle) (drop i s) = needle"
    using k(1-3) by auto
  fix j assume "pos \<le> j" "j < i"
  then have "j - pos < k" using k(3) by simp
  then have "take (length needle) (drop (pos + (j - pos)) s) \<noteq> needle" using k(4) by blast
  then show "take (length needle) (drop j s) \<noteq> needle" using \<open>pos \<le> j\<close> by simp
qed

lemma find_sub_None:
  "find_sub s needle pos = None \<longleftrightarrow> (\<forall>i. pos \<le> i \<longrightarrow> i \<le> length s \<longrightarrow> take (length needle) (drop i s) \<noteq> needle)"
  by (auto simp: find_sub_def find_None_iff)

text \<open>\<open>find\<close> succeeds exactly on the strings that have the needle as a factor.\<close>

lemma find_sub_factor:
  "(find_sub s needle 0 \<noteq> None) \<longleftrightarrow> (\<exists>u v. s = u @ needle @ v)"
proof
  assume "find_sub s needle 0 \<noteq> None"
  then obtain i where "find_sub s needle 0 = Some i" by blast
  note i = find_sub_Some [OF this]
  have "s = take i s @ take (length needle) (drop i s) @ drop (i + length needle) s"
    by (metis append_take_drop_id drop_drop add.commute)
  then show "\<exists>u v. s = u @ needle @ v" using i(3) by metis
next
  assume "\<exists>u v. s = u @ needle @ v"
  then obtain u v where "s = u @ needle @ v" by blast
  then have "take (length needle) (drop (length u) s) = needle" "length u \<le> length s" by simp_all
  then show "find_sub s needle 0 \<noteq> None" by (subst find_sub_None) auto
qed

lemma digits_value_snoc [simp]: "digits_value (ds @ [d]) = digits_value ds * 10 + (int (unat d) - 48)"
  by (simp add: digits_value_def)

lemma unat_digit: "k < 10 \<Longrightarrow> unat (word_of_nat (48 + k) :: byte) = 48 + k"
  by (rule unat_of_small) simp

lemma nat_digits_value: "digits_value (nat_digits n) = int n \<and> list_all is_digit (nat_digits n) \<and> nat_digits n \<noteq> []"
proof (induction n rule: nat_digits.induct)
  case (1 n)
  have digit: "is_digit (word_of_nat (48 + k))" "int (unat (word_of_nat (48 + k) :: byte)) - 48 = int k"
    if "k < 10" for k
    using unat_digit [OF that] that by (simp_all add: is_digit_def word_le_nat_alt del: of_nat_add)
  show ?case
  proof (cases "n < 10")
    case True
    then have "nat_digits n = [word_of_nat (48 + n)]" by (simp add: nat_digits.simps)
    then show ?thesis using digit [OF True] by (simp add: digits_value_def del: of_nat_add)
  next
    case False
    then have eq: "nat_digits n = nat_digits (n div 10) @ [word_of_nat (48 + n mod 10)]"
      by (simp add: nat_digits.simps)
    have "int n = int (n div 10) * 10 + int (n mod 10)" by (metis div_mult_mod_eq of_nat_add of_nat_mult of_nat_numeral)
    then show ?thesis using 1 [OF False] digit [of "n mod 10"] unfolding eq digits_value_snoc by simp
  qed
qed

text \<open>Reading back a printed number, whatever follows it.\<close>

lemma stoi_nat_digits:
  assumes "n < 2 ^ 31" "rest = [] \<or> \<not> is_digit (hd rest)"
  shows "stoi (nat_digits n @ rest) = Some (int n)"
proof -
  have n: "digits_value (nat_digits n) = int n" "list_all is_digit (nat_digits n)" "nat_digits n \<noteq> []"
    using nat_digits_value by blast+
  have tw: "takeWhile is_digit (nat_digits n @ rest) = nat_digits n"
    using n(2) assms(2) by (cases rest) (auto simp: list_all_iff takeWhile_append)
  obtain d ds where d: "nat_digits n = d # ds" using n(3) by (cases "nat_digits n") auto
  then have "is_digit d" using n(2) by simp
  then have "\<not> is_space d" "d \<noteq> 0x2D" "d \<noteq> 0x2B"
    by (auto simp: is_digit_def is_space_def word_le_nat_alt word_unat_eq_iff)
  then show ?thesis using n tw assms(1) by (simp add: stoi_def d Let_def)
qed

end
