(* ===== verification/Tls.thy ===== *)
theory Tls
  imports Text
begin

text \<open>
  WebSocketTLSOptions.h and WebSocketTLSContext.cpp: the options and the setting up of the SSL
  context. OpenSSL is a parameter: whether a call succeeds and the error string it leaves may
  depend on every call made before. The state is the sequence of calls made, so that the lemmas
  say which calls a context has seen.
\<close>

section \<open>Options\<close>

record WebSocketTLSOptions =
  certFile :: bytes
  keyFile :: bytes
  caFile :: bytes
  ciphers :: bytes
  disableHostnameValidation :: bool

definition getDefaultCiphers :: bytes where
  "getDefaultCiphers = ascii (concat [
     ''ECDHE-ECDSA-AES128-GCM-SHA256:'', ''ECDHE-ECDSA-AES256-GCM-SHA384:'',
     ''ECDHE-ECDSA-AES128-SHA:'', ''ECDHE-ECDSA-AES256-SHA:'', ''ECDHE-ECDSA-AES128-SHA256:'',
     ''ECDHE-ECDSA-AES256-SHA384:'', ''ECDHE-RSA-AES128-GCM-SHA256:'',
     ''ECDHE-RSA-AES256-GCM-SHA384:'', ''ECDHE-RSA-AES128-SHA:'', ''ECDHE-RSA-AES256-SHA:'',
     ''ECDHE-RSA-AES128-SHA256:'', ''ECDHE-RSA-AES256-SHA384:'', ''DHE-RSA-AES128-GCM-SHA256:'',
     ''DHE-RSA-AES256-GCM-SHA384:'', ''DHE-RSA-AES128-SHA:'', ''DHE-RSA-AES256-SHA:'',
     ''DHE-RSA-AES128-SHA256:'', ''DHE-RSA-AES256-SHA256:'', ''AES128-SHA''])"

definition hasCertAndKey :: "WebSocketTLSOptions \<Rightarrow> bool" where
  "hasCertAndKey opt \<longleftrightarrow> certFile opt \<noteq> [] \<and> keyFile opt \<noteq> []"

definition isUsingSystemCA :: "WebSocketTLSOptions \<Rightarrow> bool" where
  "isUsingSystemCA opt \<longleftrightarrow> caFile opt = ascii ''SYSTEM'' \<or> caFile opt = []"

definition isPeerVerifyDisabled :: "WebSocketTLSOptions \<Rightarrow> bool" where
  "isPeerVerifyDisabled opt \<longleftrightarrow> caFile opt = ascii ''NONE''"

definition isUsingCustomCA :: "WebSocketTLSOptions \<Rightarrow> bool" where
  "isUsingCustomCA opt \<longleftrightarrow> \<not> isUsingSystemCA opt \<and> \<not> isPeerVerifyDisabled opt"

definition isUsingDefaultCiphers :: "WebSocketTLSOptions \<Rightarrow> bool" where
  "isUsingDefaultCiphers opt \<longleftrightarrow> ciphers opt = [] \<or> ciphers opt = ascii ''DEFAULT''"

section \<open>The SSL context\<close>

datatype ssl_call =
    CtxNew | SetOptions | SetCipherList bytes | VerifyNone | VerifyPeer | DefaultVerifyPaths
  | LoadVerifyLocations bytes | UseCertificateFile bytes | UsePrivateKeyFile bytes
  | CheckPrivateKey | CtxFree | SslNew

record openssl =
  ssl_ok :: "ssl_call list \<Rightarrow> ssl_call \<Rightarrow> bool"
  ssl_error_string :: "ssl_call list \<Rightarrow> bytes"

type_synonym 'a ssl_run = "ssl_call list \<Rightarrow> (bytes + 'a) \<times> ssl_call list"

text \<open>A call whose failure frees the context and returns with an error, a call without a
  result, and the sequence of two parts of \<open>init\<close>.\<close>

definition ssl_must :: "openssl \<Rightarrow> ssl_call \<Rightarrow> bytes \<Rightarrow> unit ssl_run" where
  "ssl_must Lib call err h =
     (let h1 = h @ [call] in
      if ssl_ok Lib h call then (Inr (), h1) else (Inl (err @ ssl_error_string Lib h1), h1 @ [CtxFree]))"

definition ssl_do :: "ssl_call \<Rightarrow> unit ssl_run" where
  "ssl_do call h = (Inr (), h @ [call])"

definition ssl_then :: "unit ssl_run \<Rightarrow> unit ssl_run \<Rightarrow> unit ssl_run" where
  "ssl_then p q h = (case p h of (Inl e, h1) \<Rightarrow> (Inl e, h1) | (Inr _, h1) \<Rightarrow> q h1)"

definition ssl_skip :: "unit ssl_run" where
  "ssl_skip h = (Inr (), h)"

definition tls_ciphers :: "openssl \<Rightarrow> WebSocketTLSOptions \<Rightarrow> unit ssl_run" where
  "tls_ciphers Lib opt =
     (let cipherStr = (if isUsingDefaultCiphers opt then getDefaultCiphers else ciphers opt) in
      if cipherStr \<noteq> [] then
        ssl_must Lib (SetCipherList (c_str cipherStr)) (ascii ''SSL_CTX_set_cipher_list failed: '')
      else ssl_skip)"

definition tls_verification :: "openssl \<Rightarrow> WebSocketTLSOptions \<Rightarrow> unit ssl_run" where
  "tls_verification Lib opt =
     (if isPeerVerifyDisabled opt then ssl_do VerifyNone
      else ssl_then (ssl_do VerifyPeer)
        (if isUsingSystemCA opt then
           ssl_must Lib DefaultVerifyPaths (ascii ''SSL_CTX_set_default_verify_paths failed: '')
         else if isUsingCustomCA opt then
           ssl_must Lib (LoadVerifyLocations (c_str (caFile opt)))
             (ascii ''SSL_CTX_load_verify_locations failed for CA file '' @ [0x27] @ caFile opt
              @ [0x27] @ ascii '': '')
         else ssl_skip))"

definition tls_certificate :: "openssl \<Rightarrow> WebSocketTLSOptions \<Rightarrow> unit ssl_run" where
  "tls_certificate Lib opt =
     (if hasCertAndKey opt then
        ssl_then (ssl_must Lib (UseCertificateFile (c_str (certFile opt)))
            (ascii ''SSL_CTX_use_certificate_file failed for '' @ [0x27] @ certFile opt @ [0x27] @ ascii '': ''))
          (ssl_then (ssl_must Lib (UsePrivateKeyFile (c_str (keyFile opt)))
              (ascii ''SSL_CTX_use_PrivateKey_file failed for '' @ [0x27] @ keyFile opt @ [0x27] @ ascii '': ''))
            (ssl_must Lib CheckPrivateKey (ascii ''SSL_CTX_check_private_key failed: '')))
      else ssl_skip)"

text \<open>The context object: the calls its SSL_CTX has seen, or a null pointer. \<open>init\<close> returns
  the error, the new pointer and all calls, those on a freed context included.\<close>

type_synonym WebSocketTLSContext = "ssl_call list option"

definition tls_init ::
    "openssl \<Rightarrow> WebSocketTLSOptions \<Rightarrow> (bytes + unit) \<times> WebSocketTLSContext \<times> ssl_call list" where
  "tls_init Lib opt =
     (if \<not> ssl_ok Lib [] CtxNew then
        (Inl (ascii ''SSL_CTX_new failed: '' @ ssl_error_string Lib [CtxNew]), None, [])
      else
        (case ssl_then (ssl_do SetOptions) (ssl_then (tls_ciphers Lib opt)
                (ssl_then (tls_verification Lib opt) (tls_certificate Lib opt))) [CtxNew] of
           (Inl err, h) \<Rightarrow> (Inl err, None, h)
         | (Inr _, h) \<Rightarrow> (Inr (), Some h, h)))"

definition createSsl :: "openssl \<Rightarrow> WebSocketTLSContext \<Rightarrow> bytes + ssl_call list" where
  "createSsl Lib ctx =
     (case ctx of
        None \<Rightarrow> Inl (ascii ''TLS context not initialized (SSL_CTX is null)'')
      | Some h \<Rightarrow>
          if ssl_ok Lib h SslNew then Inr (h @ [SslNew])
          else Inl (ascii ''SSL_new failed: '' @ ssl_error_string Lib (h @ [SslNew])))"

section \<open>Lemmas\<close>

lemma ssl_then_Inr: "ssl_then p q h = (Inr u, h2) \<longleftrightarrow> (\<exists>h1. p h = (Inr (), h1) \<and> q h1 = (Inr u, h2))"
  by (auto simp: ssl_then_def split: prod.splits sum.splits)

lemma ssl_then_Inl:
  "ssl_then p q h = (Inl e, h2) \<longleftrightarrow>
     p h = (Inl e, h2) \<or> (\<exists>h1. p h = (Inr (), h1) \<and> q h1 = (Inl e, h2))"
  by (auto simp: ssl_then_def split: prod.splits sum.splits)

lemma ssl_must_Inr: "ssl_must Lib call err h = (Inr u, h1) \<longleftrightarrow> ssl_ok Lib h call \<and> h1 = h @ [call]"
  by (auto simp: ssl_must_def Let_def)

lemma ssl_must_Inl:
  "ssl_must Lib call err h = (Inl e, h1) \<longleftrightarrow>
     \<not> ssl_ok Lib h call \<and> e = err @ ssl_error_string Lib (h @ [call]) \<and> h1 = h @ [call, CtxFree]"
  by (auto simp: ssl_must_def Let_def)

lemma ssl_do_simp: "ssl_do call h = (r, h1) \<longleftrightarrow> r = Inr () \<and> h1 = h @ [call]"
  by (auto simp: ssl_do_def)

lemma ssl_skip_simp: "ssl_skip h = (r, h1) \<longleftrightarrow> r = Inr () \<and> h1 = h"
  by (auto simp: ssl_skip_def)

lemmas ssl_simps = ssl_then_Inr ssl_then_Inl ssl_must_Inr ssl_must_Inl ssl_do_simp ssl_skip_simp

text \<open>The calls a configuration asks for, and whether each of a sequence succeeds where it can
  fail. \<open>SSL_CTX_set_options\<close> and \<open>SSL_CTX_set_verify\<close> return nothing that the code reads.\<close>

definition tls_plan :: "WebSocketTLSOptions \<Rightarrow> ssl_call list" where
  "tls_plan opt =
     [CtxNew, SetOptions,
      SetCipherList (c_str (if isUsingDefaultCiphers opt then getDefaultCiphers else ciphers opt))] @
     (if caFile opt = ascii ''NONE'' then [VerifyNone]
      else [VerifyPeer, if isUsingSystemCA opt then DefaultVerifyPaths
                        else LoadVerifyLocations (c_str (caFile opt))]) @
     (if hasCertAndKey opt
      then [UseCertificateFile (c_str (certFile opt)), UsePrivateKeyFile (c_str (keyFile opt)), CheckPrivateKey]
      else [])"

definition may_fail :: "ssl_call \<Rightarrow> bool" where
  "may_fail call \<longleftrightarrow> call \<notin> {SetOptions, VerifyNone, VerifyPeer}"

fun calls_succeed :: "openssl \<Rightarrow> ssl_call list \<Rightarrow> ssl_call list \<Rightarrow> bool" where
  "calls_succeed Lib h [] \<longleftrightarrow> True"
| "calls_succeed Lib h (call # calls) \<longleftrightarrow>
     (may_fail call \<longrightarrow> ssl_ok Lib h call) \<and> calls_succeed Lib (h @ [call]) calls"

text \<open>A part of \<open>init\<close> realises a piece of the plan: it succeeds when the calls do, and a failure
  leaves some of the piece and the call that frees the context.\<close>

definition realises :: "openssl \<Rightarrow> unit ssl_run \<Rightarrow> ssl_call list \<Rightarrow> bool" where
  "realises Lib p calls \<longleftrightarrow>
     (\<forall>h u h1. p h = (Inr u, h1) \<longrightarrow> h1 = h @ calls \<and> calls_succeed Lib h calls) \<and>
     (\<forall>h e h1. p h = (Inl e, h1) \<longrightarrow>
        \<not> calls_succeed Lib h calls \<and> (\<exists>n. h1 = h @ take n calls @ [CtxFree]))"

lemma realises_Inr:
  "realises Lib p calls \<Longrightarrow> p h = (Inr u, h1) \<Longrightarrow> h1 = h @ calls \<and> calls_succeed Lib h calls"
  unfolding realises_def by blast

lemma realises_Inl:
  "realises Lib p calls \<Longrightarrow> p h = (Inl e, h1) \<Longrightarrow>
     \<not> calls_succeed Lib h calls \<and> (\<exists>n. h1 = h @ take n calls @ [CtxFree])"
  unfolding realises_def by blast

lemma calls_succeed_append [simp]:
  "calls_succeed Lib h (xs @ ys) \<longleftrightarrow> calls_succeed Lib h xs \<and> calls_succeed Lib (h @ xs) ys"
  by (induction xs arbitrary: h) auto

lemma realises_must: "may_fail call \<Longrightarrow> realises Lib (ssl_must Lib call err) [call]"
  unfolding realises_def ssl_must_Inr ssl_must_Inl
  by (auto intro: exI [of _ "Suc 0"])

lemma realises_do: "\<not> may_fail call \<Longrightarrow> realises Lib (ssl_do call) [call]"
  by (simp add: realises_def ssl_do_def)

lemma realises_skip: "realises Lib ssl_skip []"
  by (simp add: realises_def ssl_skip_def)

lemma realises_then:
  assumes p: "realises Lib p xs" and q: "realises Lib q ys"
  shows "realises Lib (ssl_then p q) (xs @ ys)"
  unfolding realises_def
proof (intro conjI allI impI)
  fix h u h2 assume "ssl_then p q h = (Inr u, h2)"
  then obtain h1 where "p h = (Inr (), h1)" "q h1 = (Inr u, h2)" by (auto simp: ssl_then_Inr)
  then show "h2 = h @ xs @ ys" "calls_succeed Lib h (xs @ ys)"
    using realises_Inr [OF p, of h "()" h1] realises_Inr [OF q, of h1 u h2] by simp_all
next
  fix h e h2 assume "ssl_then p q h = (Inl e, h2)"
  then consider "p h = (Inl e, h2)" | h1 where "p h = (Inr (), h1)" "q h1 = (Inl e, h2)"
    by (auto simp: ssl_then_Inl)
  then have "\<not> calls_succeed Lib h (xs @ ys) \<and> (\<exists>n. h2 = h @ take n (xs @ ys) @ [CtxFree])"
  proof cases
    case 1
    then obtain n where "\<not> calls_succeed Lib h xs" "h2 = h @ take n xs @ [CtxFree]"
      using realises_Inl [OF p] by blast
    moreover from this have "h2 = h @ take (min n (length xs)) (xs @ ys) @ [CtxFree]" by (simp add: min_def)
    ultimately show ?thesis unfolding calls_succeed_append by blast
  next
    case 2
    then have first: "h1 = h @ xs" using realises_Inr [OF p] by simp
    then obtain n where "\<not> calls_succeed Lib (h @ xs) ys" "h2 = (h @ xs) @ take n ys @ [CtxFree]"
      using realises_Inl [OF q] 2(2) by blast
    then show ?thesis by (auto intro: exI [of _ "length xs + n"])
  qed
  then show "\<not> calls_succeed Lib h (xs @ ys)" "\<exists>n. h2 = h @ take n (xs @ ys) @ [CtxFree]" by simp_all
qed

lemma realises_seq:
  assumes "realises Lib p [c]" "realises Lib q cs"
  shows "realises Lib (ssl_then p q) (c # cs)"
  using realises_then [OF assms] by simp

lemma getDefaultCiphers_nonempty: "getDefaultCiphers \<noteq> []"
  by (simp add: getDefaultCiphers_def ascii_def)

lemma tls_init_plan:
  "realises Lib (ssl_then (ssl_do SetOptions) (ssl_then (tls_ciphers Lib opt)
      (ssl_then (tls_verification Lib opt) (tls_certificate Lib opt)))) (tl (tls_plan opt))"
proof -
  have "realises Lib (tls_ciphers Lib opt)
      [SetCipherList (c_str (if isUsingDefaultCiphers opt then getDefaultCiphers else ciphers opt))]"
    using getDefaultCiphers_nonempty
    by (auto simp: tls_ciphers_def Let_def isUsingDefaultCiphers_def may_fail_def intro: realises_must)
  moreover have "realises Lib (tls_verification Lib opt)
      (if caFile opt = ascii ''NONE'' then [VerifyNone]
       else [VerifyPeer, if isUsingSystemCA opt then DefaultVerifyPaths
                         else LoadVerifyLocations (c_str (caFile opt))])"
    by (auto simp: tls_verification_def isPeerVerifyDisabled_def isUsingCustomCA_def may_fail_def
        intro!: realises_seq realises_must realises_do)
  moreover have "realises Lib (tls_certificate Lib opt)
      (if hasCertAndKey opt
       then [UseCertificateFile (c_str (certFile opt)), UsePrivateKeyFile (c_str (keyFile opt)), CheckPrivateKey]
       else [])"
    by (auto simp: tls_certificate_def may_fail_def intro!: realises_seq realises_must realises_skip)
  moreover have "realises Lib (ssl_do SetOptions) [SetOptions]"
    by (rule realises_do) (simp add: may_fail_def)
  ultimately have "realises Lib (ssl_then (ssl_do SetOptions) (ssl_then (tls_ciphers Lib opt)
      (ssl_then (tls_verification Lib opt) (tls_certificate Lib opt)))) ([SetOptions] @
      [SetCipherList (c_str (if isUsingDefaultCiphers opt then getDefaultCiphers else ciphers opt))] @
      (if caFile opt = ascii ''NONE'' then [VerifyNone]
       else [VerifyPeer, if isUsingSystemCA opt then DefaultVerifyPaths
                         else LoadVerifyLocations (c_str (caFile opt))]) @
      (if hasCertAndKey opt
       then [UseCertificateFile (c_str (certFile opt)), UsePrivateKeyFile (c_str (keyFile opt)), CheckPrivateKey]
       else []))"
    by (intro realises_then)
  then show ?thesis by (simp add: tls_plan_def)
qed

lemma tls_init_outcome:
  "case tls_init Lib opt of
     (Inr _, ctx, h) \<Rightarrow>
       calls_succeed Lib [] (tls_plan opt) \<and> h = tls_plan opt \<and> ctx = Some h
   | (Inl _, ctx, h) \<Rightarrow>
       \<not> calls_succeed Lib [] (tls_plan opt) \<and> ctx = None \<and>
       (h = [] \<or> (\<exists>n. h = take n (tls_plan opt) @ [CtxFree]))"
proof -
  obtain rest where plan: "tls_plan opt = CtxNew # rest" "tl (tls_plan opt) = rest"
    by (simp add: tls_plan_def)
  let ?rest = "ssl_then (ssl_do SetOptions) (ssl_then (tls_ciphers Lib opt)
      (ssl_then (tls_verification Lib opt) (tls_certificate Lib opt)))"
  have succ: "calls_succeed Lib [] (tls_plan opt) \<longleftrightarrow>
      ssl_ok Lib [] CtxNew \<and> calls_succeed Lib [CtxNew] rest"
    by (simp add: plan may_fail_def)
  note real = tls_init_plan [of Lib opt, unfolded plan(2)]
  obtain r h where run: "?rest [CtxNew] = (r, h)" by fastforce
  show ?thesis
  proof (cases "ssl_ok Lib [] CtxNew")
    case False
    then show ?thesis by (simp add: tls_init_def succ)
  next
    case True
    show ?thesis
    proof (cases r)
      case (Inl e)
      then obtain n where "\<not> calls_succeed Lib [CtxNew] rest" "h = [CtxNew] @ take n rest @ [CtxFree]"
        using realises_Inl [OF real, of "[CtxNew]" e h] run by auto
      then show ?thesis using True run Inl succ plan(1)
        by (auto simp: tls_init_def intro: exI [of _ "Suc n"])
    next
      case (Inr u)
      then have "calls_succeed Lib [CtxNew] rest" "h = tls_plan opt"
        using realises_Inr [OF real, of "[CtxNew]" u h] run plan(1) by auto
      then show ?thesis using True run Inr succ by (simp add: tls_init_def)
    qed
  qed
qed

section \<open>Properties\<close>

text \<open>C38: a TLS context that \<open>init\<close> hands out has seen exactly the calls its options ask for, in
  order, and every call that can fail has succeeded: peer verification is on unless the CA file is
  NONE, the trust anchors come from the system or exactly the configured file, and a certificate
  is used only with its key and after the check of the pair. Otherwise \<open>init\<close> hands out nothing.\<close>

theorem tls_init_exact:
  "case tls_init Lib opt of
     (Inr _, ctx, h) \<Rightarrow>
       calls_succeed Lib [] (tls_plan opt) \<and> h = tls_plan opt \<and> ctx = Some h
   | (Inl _, ctx, h) \<Rightarrow>
       \<not> calls_succeed Lib [] (tls_plan opt) \<and> ctx = None \<and>
       (h = [] \<or> (\<exists>n. h = take n (tls_plan opt) @ [CtxFree]))"
  by (rule tls_init_outcome)

end
