(* ===== verification/Handshake.thy ===== *)
theory Handshake
  imports Tls Compression
begin

text \<open>
  The opening handshake on the wire: the request \<open>sendHandshakeRequest\<close> writes, and the way
  \<open>handleRead\<close> reads the response (end of the headers, status, the accept header, and the
  negotiation of permessage-deflate with \<open>hasToken\<close> and \<open>parseBits\<close>).
\<close>

section \<open>The request\<close>

record ws_config =
  cfg_host :: bytes
  cfg_port :: u16
  cfg_uri :: bytes
  cfg_secure :: bool
  cfg_is_ip_address :: bool
  cfg_ping_interval :: u32
  cfg_connection_timeout :: u32
  cfg_headers :: "(bytes \<times> bytes) list"
  cfg_tls :: WebSocketTLSOptions
  cfg_compression_requested :: bool

definition handshakeRequest :: "ws_config \<Rightarrow> bytes \<Rightarrow> bytes" where
  "handshakeRequest cfg key =
     ascii ''GET '' @ c_str (cfg_uri cfg) @ ascii '' HTTP/1.1'' @ CRLF @
     ascii ''Host:'' @ c_str (cfg_host cfg) @ ascii '':'' @ nat_digits (unat (cfg_port cfg)) @ CRLF @
     ascii ''Upgrade:websocket'' @ CRLF @
     ascii ''Connection:upgrade'' @ CRLF @
     ascii ''Sec-WebSocket-Key:'' @ c_str key @ CRLF @
     ascii ''Sec-WebSocket-Version:13'' @ CRLF @
     (if cfg_compression_requested cfg then
        ascii ''Sec-WebSocket-Extensions:permessage-deflate; client_no_context_takeover; server_no_context_takeover; client_max_window_bits=9'' @ CRLF
      else []) @
     ascii ''Origin:http://'' @ c_str (cfg_host cfg) @ ascii '':'' @ nat_digits (unat (cfg_port cfg)) @ CRLF @
     concat (map (\<lambda>(k, v). c_str k @ ascii '':'' @ c_str v @ CRLF) (cfg_headers cfg)) @
     CRLF"

section \<open>The response\<close>

text \<open>The end of the headers: 0 where the blank line has not arrived.\<close>

definition headerBytes :: "bytes \<Rightarrow> nat" where
  "headerBytes b =
     (case List.find (\<lambda>i. i + 3 < length b \<and> b ! i = 0x0D \<and> b ! (i + 1) = 0x0A \<and>
                          b ! (i + 2) = 0x0D \<and> b ! (i + 3) = 0x0A) [0..<length b] of
        None \<Rightarrow> 0
      | Some i \<Rightarrow> i + 4)"

definition containsHeader :: "bytes \<Rightarrow> bytes \<Rightarrow> bool" where
  "containsHeader response header \<longleftrightarrow> find_sub (lower response) (lower header) 0 \<noteq> None"

definition upgrade_accepted :: "bytes \<Rightarrow> bool" where
  "upgrade_accepted resp \<longleftrightarrow>
     \<not> (find_sub resp (ascii ''HTTP/1.1 101'') 0 = None \<or>
        \<not> containsHeader resp (ascii ''Sec-WebSocket-Accept:''))"

definition hasToken :: "bytes \<Rightarrow> bytes \<Rightarrow> bool" where
  "hasToken s tok \<longleftrightarrow> find_sub (lower s) tok 0 \<noteq> None"

definition parseBits :: "bytes \<Rightarrow> bytes \<Rightarrow> int" where
  "parseBits extLine keyName =
     (let ls = lower extLine; needle = keyName @ ascii ''='' in
      case find_sub ls needle 0 of
        None \<Rightarrow> 15
      | Some p \<Rightarrow>
          (let vstart = p + length needle;
               vend = (case find_first_of ls (ascii '' ;'' @ CRLF) vstart of
                         None \<Rightarrow> length ls | Some e \<Rightarrow> e)
           in case stoi (substr ls vstart (vend - vstart)) of
                None \<Rightarrow> 15
              | Some v \<Rightarrow> if v \<ge> 8 \<and> v \<le> 15 then v else 15))"

text \<open>The line of the extensions header, if the response has one.\<close>

definition extensionLine :: "bytes \<Rightarrow> bytes option" where
  "extensionLine resp =
     (case find_sub (lower resp) (ascii ''sec-websocket-extensions:'') 0 of
        None \<Rightarrow> None
      | Some pos \<Rightarrow>
          (let lineEnd = (case find_sub resp CRLF pos of None \<Rightarrow> length resp | Some e \<Rightarrow> e)
           in Some (substr resp pos (lineEnd - pos))))"

text \<open>The configuration negotiated by the response: \<open>None\<close> where compression is off.\<close>

definition negotiate :: "bool \<Rightarrow> int \<Rightarrow> bytes \<Rightarrow> pmd_config option" where
  "negotiate compression_requested level resp =
     (if \<not> compression_requested then None
      else
        (case extensionLine resp of
           None \<Rightarrow> None
         | Some extLine \<Rightarrow>
             if \<not> containsHeader extLine (ascii ''permessage-deflate'') then None
             else Some \<lparr>enabled = True,
                client_no_context_takeover = hasToken extLine (ascii ''client_no_context_takeover''),
                server_no_context_takeover = hasToken extLine (ascii ''server_no_context_takeover''),
                client_max_window_bits = parseBits extLine (ascii ''client_max_window_bits''),
                server_max_window_bits = parseBits extLine (ascii ''server_max_window_bits''),
                compression_level = level\<rparr>))"

section \<open>Facts\<close>

lemma headerBytes_least:
  assumes "headerBytes b = Suc n"
  shows "Suc n \<le> length b" "4 \<le> Suc n" "\<exists>h. take (Suc n) b = h @ CRLF @ CRLF"
    "\<And>k. k < Suc n \<Longrightarrow> \<not> (\<exists>h. take k b = h @ CRLF @ CRLF)"
proof -
  let ?at = "\<lambda>i. i + 3 < length b \<and> b ! i = 0x0D \<and> b ! (i + 1) = 0x0A \<and> b ! (i + 2) = 0x0D \<and> b ! (i + 3) = 0x0A"
  obtain i where i: "n = i + 3" "?at i" "\<And>j. j < i \<Longrightarrow> \<not> ?at j"
  proof -
    obtain i where "List.find ?at [0..<length b] = Some i" "n = i + 3"
      using assms by (auto simp: headerBytes_def split: option.split_asm)
    then show ?thesis using that by (auto simp: find_Some_iff)
  qed
  have at: "(\<exists>h. take k b = h @ CRLF @ CRLF) \<longleftrightarrow> 4 \<le> k \<and> ?at (k - 4)" if "k \<le> length b" for k
  proof
    assume "\<exists>h. take k b = h @ CRLF @ CRLF"
    then obtain h where h: "take k b = h @ CRLF @ CRLF" ..
    from arg_cong [OF h, of length] that have len: "k = length h + 4" by simp
    have "b ! (length h + m) = (h @ CRLF @ CRLF) ! (length h + m)" if "m < 4" for m
      using h len that by (metis add_less_cancel_left nth_take)
    from this [of 0] this [of 1] this [of 2] this [of 3] len that show "4 \<le> k \<and> ?at (k - 4)"
      by (simp add: nth_append numeral_eq_Suc)
  next
    assume k: "4 \<le> k \<and> ?at (k - 4)"
    then obtain m where m: "k = m + 4" by (metis add.commute le_Suc_ex)
    have "take (m + 4) b = take m b @ [b ! m, b ! (m + 1), b ! (m + 2), b ! (m + 3)]"
      using that m by (simp add: take_Suc_conv_app_nth numeral_eq_Suc)
    then show "\<exists>h. take k b = h @ CRLF @ CRLF" using k m by auto
  qed
  show "Suc n \<le> length b" "4 \<le> Suc n" using i by auto
  then show "\<exists>h. take (Suc n) b = h @ CRLF @ CRLF" using at [of "Suc n"] i by simp
  show "\<not> (\<exists>h. take k b = h @ CRLF @ CRLF)" if "k < Suc n" for k
  proof
    assume "\<exists>h. take k b = h @ CRLF @ CRLF"
    then have k: "4 \<le> k" "?at (k - 4)" using at [of k] that i by auto
    then have "k - 4 < i" using that i(1) by linarith
    then show False using i(3) k(2) by blast
  qed
qed

lemma parseBits_range: "8 \<le> parseBits extLine k \<and> parseBits extLine k \<le> 15"
  by (auto simp: parseBits_def Let_def split: option.split)

lemma negotiate_some:
  "negotiate requested level resp = Some cfg \<Longrightarrow> requested \<and> enabled cfg \<and>
     8 \<le> client_max_window_bits cfg \<and> client_max_window_bits cfg \<le> 15 \<and>
     8 \<le> server_max_window_bits cfg \<and> server_max_window_bits cfg \<le> 15"
  using parseBits_range by (auto simp: negotiate_def split: if_split_asm option.split_asm)

section \<open>Properties\<close>

text \<open>A response is accepted exactly when it contains the status line of a 101 response somewhere
  and, in any case of letters, the name of the accept header somewhere. Neither has to be where HTTP
  puts it, and the value of the header does not matter: it is never compared with the one the key
  asks for.\<close>

theorem upgrade_accepted_iff:
  "upgrade_accepted resp \<longleftrightarrow>
     (\<exists>u v. resp = u @ ascii ''HTTP/1.1 101'' @ v) \<and>
     (\<exists>u v. lower resp = u @ lower (ascii ''Sec-WebSocket-Accept:'') @ v)"
  unfolding upgrade_accepted_def containsHeader_def
  by (simp only: find_sub_factor [symmetric] de_Morgan_disj not_not)

end
