(* ===== verification/Context.thy ===== *)
theory Context
  imports Receiver Handshake
begin

text \<open>
  WebSocketContext: the connection object. Its state is a record with the members of the class
  that its operations read or write; pointers to libevent objects are booleans (null or not),
  an activated event or an armed timer is a boolean (with its delay in seconds), the output evbuffer is the list of bytes
  written to it, and \<open>trace\<close> lists the frames written and the callbacks made, in order. Each
  operation is one definition; \<open>on_event\<close> says whether the calling thread is the event thread.
  Callbacks are taken not to call back into the object.
\<close>

section \<open>State\<close>

datatype ConnectionState = DISCONNECTED | DISCONNECTING | CONNECTING | CONNECTED | FAILED

datatype ErrorCode = IO | INVALID_HEADER | SERVER_MASKED | NOT_SUPPORTED | PING_TIMEOUT
  | CONNECT_FAILED | TLS_INIT_FAILED | SSL_HANDSHAKE_FAILED | SSL_ERROR | TIMEOUT | PROTOCOL

datatype Pending = PText bytes | PBinary bytes | PClose bytes

datatype ctx_event =
    OnOpen
  | OnError ErrorCode bytes
  | OnClose int bytes
  | OnMessage bytes
  | OnBinary bytes
  | Sent MessageType bytes

record 'd ctx =
  config :: ws_config
  ws_key :: bytes
  ws_accept :: bytes
  cb_open :: bool
  cb_error :: bool
  cb_close :: bool
  cb_message :: bool
  cb_binary :: bool
  connection_state :: ConnectionState
  upgraded :: bool
  running :: bool
  stop_requested :: bool
  close_sent :: bool
  close_received :: bool
  protocol_failed :: bool
  close_cb_fired :: bool
  send_flush_pending :: bool
  use_compression :: bool
  pmd :: pmd_config
  send_queue :: "Pending list"
  tx :: "'d ws_tx"
  mask_state :: u32
  base :: bool
  dns_base :: bool
  sni :: bool
  host_checked :: bool
  bev :: bool
  timeout_event :: bool
  timeout_delay :: u32
  ping_event :: bool
  ping_delay :: u32
  wakeup_event :: bool
  send_event :: bool
  close_timer :: bool
  close_timer_armed :: bool
  wakeup_active :: bool
  send_active :: bool
  loop_exit :: bool
  out_buf :: bytes
  trace :: "ctx_event list"

definition MAX_QUEUE_SIZE :: nat where
  "MAX_QUEUE_SIZE = 1024"

definition emit :: "ctx_event \<Rightarrow> 'd ctx \<Rightarrow> 'd ctx" where
  "emit e x = x\<lparr>trace := trace x @ [e]\<rparr>"

definition isConnected :: "'d ctx \<Rightarrow> bool" where
  "isConnected x \<longleftrightarrow> connection_state x = CONNECTING \<or> connection_state x = CONNECTED"

section \<open>Requests to the event loop\<close>

definition requestWakeup :: "'d ctx \<Rightarrow> 'd ctx" where
  "requestWakeup x = (if wakeup_event x then x\<lparr>wakeup_active := True\<rparr> else x)"

definition requestLoopExit :: "bool \<Rightarrow> 'd ctx \<Rightarrow> 'd ctx" where
  "requestLoopExit on_event x =
     (let x1 = x\<lparr>stop_requested := True\<rparr> in
      if on_event \<and> base x1 then x1\<lparr>loop_exit := True\<rparr> else requestWakeup x1)"

definition requestSendFlush :: "'d ctx \<Rightarrow> 'd ctx" where
  "requestSendFlush x =
     (if send_flush_pending x then x
      else if send_event x then x\<lparr>send_flush_pending := True, send_active := True\<rparr>
      else x\<lparr>send_flush_pending := False\<rparr>)"

definition armCloseTimer :: "'d ctx \<Rightarrow> 'd ctx" where
  "armCloseTimer x = x\<lparr>close_timer := True, close_timer_armed := True\<rparr>"

section \<open>Callbacks\<close>

definition sendError :: "ErrorCode \<Rightarrow> bytes \<Rightarrow> 'd ctx \<Rightarrow> 'd ctx" where
  "sendError code msg x = (if cb_error x then emit (OnError code msg) x else x)"

definition sendCloseCallback :: "int \<Rightarrow> bytes \<Rightarrow> 'd ctx \<Rightarrow> 'd ctx" where
  "sendCloseCallback code reason x =
     (if close_cb_fired x then x
      else
        (let x1 = x\<lparr>close_cb_fired := True\<rparr> in
         if cb_close x1 then emit (OnClose code reason) x1 else x1))"

section \<open>Sending\<close>

text \<open>\<open>send\<close> on the output buffer of the connection.\<close>

definition ctx_send :: "('d, 'i) ext \<Rightarrow> bytes \<Rightarrow> MessageType \<Rightarrow> 'd ctx \<Rightarrow> 'd ctx" where
  "ctx_send Z raw type x =
     (case ws_send Z (use_compression x) raw type (tx x, mask_state x) of
        (out, t, s) \<Rightarrow>
          (let x1 = x\<lparr>out_buf := out_buf x @ out, tx := t, mask_state := s\<rparr> in
           if out = [] then x1 else emit (Sent type raw) x1))"

definition sendNow :: "('d, 'i) ext \<Rightarrow> bytes \<Rightarrow> MessageType \<Rightarrow> 'd ctx \<Rightarrow> bool \<times> 'd ctx" where
  "sendNow Z data type x =
     (if \<not> bev x then (False, x)
      else if \<not> (connection_state x = CONNECTED \<or>
                  (type = CLOSE \<and> connection_state x = DISCONNECTING)) then (False, x)
      else if type \<noteq> CLOSE \<and> \<not> upgraded x then (False, x)
      else (True, ctx_send Z data type x))"

definition enqueue :: "bytes \<Rightarrow> MessageType \<Rightarrow> 'd ctx \<Rightarrow> bool \<times> 'd ctx" where
  "enqueue data type x =
     (if length (send_queue x) \<ge> MAX_QUEUE_SIZE then (False, x)
      else (True, x\<lparr>send_queue := send_queue x @
                      [if type = TEXT then PText data else PBinary data]\<rparr>))"

definition sendData :: "('d, 'i) ext \<Rightarrow> bool \<Rightarrow> bytes \<Rightarrow> MessageType \<Rightarrow> 'd ctx \<Rightarrow> bool \<times> 'd ctx" where
  "sendData Z on_event data type x =
     (if type = CLOSE then (False, x)
      else if connection_state x = CONNECTING then enqueue data type x
      else if on_event then sendNow Z data type x
      else
        (case enqueue data type x of
           (False, x1) \<Rightarrow> (False, x1)
         | (True, x1) \<Rightarrow> (True, requestSendFlush x1)))"

definition flushPending :: "('d, 'i) ext \<Rightarrow> bool \<Rightarrow> Pending \<Rightarrow> 'd ctx \<Rightarrow> 'd ctx" where
  "flushPending Z can_send_app p x =
     (case p of
        PText d \<Rightarrow> if \<not> can_send_app then x else snd (sendNow Z d TEXT x)
      | PBinary d \<Rightarrow> if \<not> can_send_app then x else snd (sendNow Z d BINARY x)
      | PClose d \<Rightarrow>
          if close_sent x then x
          else
            (case sendNow Z d CLOSE x of
               (True, x1) \<Rightarrow> armCloseTimer (x1\<lparr>close_sent := True\<rparr>)
             | (False, x1) \<Rightarrow> x1))"

definition flushSendQueue :: "('d, 'i) ext \<Rightarrow> 'd ctx \<Rightarrow> 'd ctx" where
  "flushSendQueue Z x =
     (let local = send_queue x; x1 = x\<lparr>send_queue := []\<rparr>;
          can_send_app = (connection_state x1 = CONNECTED)
      in fold (flushPending Z can_send_app) local x1)"

definition sendPing :: "('d, 'i) ext \<Rightarrow> 'd ctx \<Rightarrow> 'd ctx" where
  "sendPing Z x =
     (if \<not> upgraded x \<or> \<not> bev x then x else snd (sendNow Z (ascii ''ping'') PING x))"

definition sendHandshakeRequest :: "'d ctx \<Rightarrow> 'd ctx" where
  "sendHandshakeRequest x =
     (if \<not> bev x then x
      else x\<lparr>out_buf := out_buf x @ handshakeRequest (config x) (ws_key x)\<rparr>)"

section \<open>Closing\<close>

definition ctx_close :: "bool \<Rightarrow> int \<Rightarrow> bytes \<Rightarrow> 'd ctx \<Rightarrow> bool \<times> 'd ctx" where
  "ctx_close on_event code reason x =
     (if connection_state x = DISCONNECTING \<or> connection_state x = DISCONNECTED then (False, x)
      else if \<not> upgraded x \<or> \<not> bev x then
        (True, requestLoopExit on_event (x\<lparr>connection_state := DISCONNECTED\<rparr>))
      else
        (let x1 = x\<lparr>connection_state := DISCONNECTING\<rparr> in
         if close_sent x1 then (False, x1)
         else
           (let code_be = htons (word_of_int code); r = take 123 reason;
                payload = mem16 code_be @ r
            in if length (send_queue x1) \<ge> MAX_QUEUE_SIZE then (False, requestLoopExit on_event x1)
               else (True, requestSendFlush (x1\<lparr>send_queue := send_queue x1 @ [PClose payload]\<rparr>)))))"

definition stopNow :: "'d ctx \<Rightarrow> 'd ctx" where
  "stopNow x =
     (if connection_state x = DISCONNECTING \<or> connection_state x = DISCONNECTED then x
      else
        (let can_handshake = (upgraded x \<and> bev x) in
         if \<not> can_handshake \<or> connection_state x \<noteq> CONNECTED then
           requestLoopExit True (x\<lparr>connection_state := DISCONNECTED\<rparr>)
         else snd (ctx_close True 1000 (ascii ''Normal closure'') x)))"

text \<open>\<open>stop\<close> up to the join of the event thread, from another thread.\<close>

definition ctx_stop :: "'d ctx \<Rightarrow> 'd ctx" where
  "ctx_stop x = requestWakeup (x\<lparr>stop_requested := True\<rparr>)"

section \<open>Event-thread callbacks\<close>

definition timeoutCallback :: "'d ctx \<Rightarrow> 'd ctx" where
  "timeoutCallback x =
     (if connection_state x = DISCONNECTING \<or> connection_state x = DISCONNECTED then x
      else requestLoopExit True (sendError TIMEOUT (ascii ''Timeout'') x))"

definition pingCallback :: "('d, 'i) ext \<Rightarrow> 'd ctx \<Rightarrow> 'd ctx" where
  "pingCallback Z x = sendPing Z x"

definition wakeupCallback :: "('d, 'i) ext \<Rightarrow> 'd ctx \<Rightarrow> 'd ctx" where
  "wakeupCallback Z x =
     (if \<not> base x then x
      else if stop_requested x then stopNow x
      else flushSendQueue Z x)"

definition closeTimerCb :: "'d ctx \<Rightarrow> 'd ctx" where
  "closeTimerCb x =
     (if close_received x then x
      else
        requestLoopExit True
          ((sendCloseCallback 1000 (ascii ''Normal closure'') x)\<lparr>connection_state := DISCONNECTED\<rparr>))"

definition sendCallback :: "('d, 'i) ext \<Rightarrow> 'd ctx \<Rightarrow> 'd ctx" where
  "sendCallback Z x =
     (if \<not> base x then x else (flushSendQueue Z x)\<lparr>send_flush_pending := False\<rparr>)"

text \<open>The flags of a bufferevent event, with what OpenSSL and the socket report at that time.\<close>

record bev_event =
  ev_error :: bool
  ev_eof :: bool
  ev_timeout :: bool
  ev_connected :: bool
  tls_error :: "bytes option"
  socket_error :: "(nat \<times> bytes) option"
  ssl_present :: bool
  verify_error :: "bytes option"

definition socket_error_msg :: "bev_event \<Rightarrow> bytes" where
  "socket_error_msg ev =
     (case socket_error ev of
        Some (err, s) \<Rightarrow> s @ ascii '' (system error '' @ nat_digits err @ ascii '')''
      | None \<Rightarrow> ascii ''Connection error'')"

definition handleError :: "bev_event \<Rightarrow> 'd ctx \<Rightarrow> 'd ctx" where
  "handleError ev x =
     (let ws_open = upgraded x; st = connection_state x in
      if cfg_secure (config x) \<and> tls_error ev \<noteq> None then
        requestLoopExit True
          ((sendError SSL_ERROR (ascii ''TLS error: '' @ the (tls_error ev)) x)\<lparr>connection_state := DISCONNECTING\<rparr>)
      else
        (let x1 = sendError (if ws_open then IO else CONNECT_FAILED) (socket_error_msg ev) x;
             x2 = (if \<not> ws_open then x1\<lparr>send_queue := []\<rparr> else x1);
             x3 = (if ws_open \<and> st = DISCONNECTING
                   then sendCloseCallback 1000 (ascii ''Normal closure'') x2 else x2)
         in requestLoopExit True (x3\<lparr>connection_state := DISCONNECTING\<rparr>)))"

definition handleTimeout :: "'d ctx \<Rightarrow> 'd ctx" where
  "handleTimeout x =
     (let x1 = (if \<not> upgraded x
                then (sendError TIMEOUT (ascii ''Connection/handshake timeout'') x)\<lparr>send_queue := []\<rparr>
                else sendError TIMEOUT (ascii ''Connection timeout'') x)
      in requestLoopExit True (x1\<lparr>connection_state := DISCONNECTING\<rparr>))"

definition handleEof :: "'d ctx \<Rightarrow> 'd ctx" where
  "handleEof x =
     (let graceful = (close_received x \<or> close_sent x);
          x1 = (if \<not> upgraded x then
                  (sendError CONNECT_FAILED (ascii ''Connection closed during handshake (EOF)'') x)\<lparr>send_queue := []\<rparr>
                else if \<not> graceful then
                  (sendError IO (ascii ''Connection closed without WebSocket CLOSE (abnormal EOF)'') x)
                    \<lparr>connection_state := DISCONNECTING\<rparr>
                else sendCloseCallback 1000 (ascii ''Normal closure'') x)
      in requestLoopExit True x1)"

definition handleConnected :: "bev_event \<Rightarrow> 'd ctx \<Rightarrow> 'd ctx" where
  "handleConnected ev x =
     (if cfg_secure (config x) \<and> \<not> ssl_present ev then
        requestLoopExit True (sendError TLS_INIT_FAILED (ascii ''SSL object not found'') x)
      else if cfg_secure (config x) \<and> \<not> isPeerVerifyDisabled (cfg_tls (config x)) \<and> verify_error ev \<noteq> None then
        requestLoopExit True
          (sendError SSL_HANDSHAKE_FAILED (ascii ''TLS certificate error: '' @ the (verify_error ev)) x)
      else sendHandshakeRequest x)"

definition handleEvent :: "bev_event \<Rightarrow> 'd ctx \<Rightarrow> 'd ctx" where
  "handleEvent ev x =
     (if ev_error ev \<or> ev_eof ev \<or> ev_timeout ev then
        (let st = connection_state x;
             stopping_now = (stop_requested x \<or> st = DISCONNECTING \<or> st = DISCONNECTED)
         in if stopping_now \<and> (ev_error ev \<or> ev_timeout ev) then requestLoopExit True x
            else if ev_error ev then handleError ev x
            else if ev_timeout ev then handleTimeout x
            else handleEof x)
      else if ev_connected ev then handleConnected ev x
      else x)"

section \<open>The sinks of the receiver\<close>

definition ctx_onRxPing :: "('d, 'i) ext \<Rightarrow> bytes \<Rightarrow> 'd ctx \<Rightarrow> 'd ctx" where
  "ctx_onRxPing Z payload x = (if \<not> bev x then x else ctx_send Z payload PONG x)"

definition ctx_onRxClose :: "('d, 'i) ext \<Rightarrow> u16 \<Rightarrow> bytes \<Rightarrow> 'd ctx \<Rightarrow> 'd ctx" where
  "ctx_onRxClose Z code reason x =
     (let x1 = x\<lparr>close_received := True\<rparr>;
          x2 = (if \<not> close_sent x1
                then flushSendQueue Z (snd (ctx_close True (uint code) reason x1))
                else x1)
      in sendCloseCallback (uint code) reason x2)"

definition protocol_msg :: "u16 \<Rightarrow> bytes \<Rightarrow> bytes" where
  "protocol_msg closeCode why =
     (if closeCode = 1007 then ascii ''WebSocket invalid UTF-8 (1007): '' @ why
      else ascii ''WebSocket protocol error ('' @ nat_digits (unat closeCode) @ ascii ''): '' @ why)"

definition ctx_onRxProtocolError :: "u16 \<Rightarrow> string \<Rightarrow> 'd ctx \<Rightarrow> 'd ctx" where
  "ctx_onRxProtocolError closeCode why x =
     (if protocol_failed x then x
      else
        (let x1 = sendError PROTOCOL (protocol_msg closeCode (ascii why)) (x\<lparr>protocol_failed := True\<rparr>);
             can_handshake = (upgraded x1 \<and> bev x1)
         in if can_handshake
            then requestSendFlush (snd (ctx_close True (uint closeCode) (ascii why) x1))
            else requestLoopExit True x1))"

definition ctx_onRxText :: "bytes \<Rightarrow> 'd ctx \<Rightarrow> 'd ctx" where
  "ctx_onRxText msg x = (if cb_message x then emit (OnMessage msg) x else x)"

definition ctx_onRxBinary :: "bytes \<Rightarrow> 'd ctx \<Rightarrow> 'd ctx" where
  "ctx_onRxBinary msg x = (if cb_binary x then emit (OnBinary msg) x else x)"

definition ctx_rxIsTerminating :: "'d ctx \<Rightarrow> bool" where
  "ctx_rxIsTerminating x \<longleftrightarrow>
     connection_state x = DISCONNECTING \<or> connection_state x = DISCONNECTED \<or> stop_requested x"

definition ctx_sinks :: "('d, 'i) ext \<Rightarrow> 'd ctx rx_sinks" where
  "ctx_sinks Z = \<lparr>rxCompressionEnabled = use_compression, onRxPing = ctx_onRxPing Z,
     onRxClose = ctx_onRxClose Z, onRxProtocolError = ctx_onRxProtocolError,
     onRxText = ctx_onRxText, onRxBinary = ctx_onRxBinary, rxIsTerminating = ctx_rxIsTerminating\<rparr>"

section \<open>Reading\<close>

text \<open>The connection with its receiver and the input evbuffer. \<open>dead\<close> is set where a call never
  returns or an exception leaves it.\<close>

record ('d, 'i) world =
  rx :: "'i ws_rx"
  ctx :: "'d ctx"
  input :: bytes
  dead :: bool

definition world_onData :: "('d, 'i) ext \<Rightarrow> ('d, 'i) world \<Rightarrow> ('d, 'i) world" where
  "world_onData Z w =
     (case onData Z (ctx_sinks Z) (input w) (rx w) (ctx w) of
        None \<Rightarrow> w\<lparr>dead := True\<rparr>
      | Some (threw, rest, r, x) \<Rightarrow> w\<lparr>rx := r, ctx := x, input := rest, dead := dead w \<or> threw\<rparr>)"

text \<open>The negotiation part of \<open>handleRead\<close>, on the headers \<open>resp\<close>.\<close>

definition setupCompression :: "('d, 'i) ext \<Rightarrow> bytes \<Rightarrow> ('d, 'i) world \<Rightarrow> ('d, 'i) world" where
  "setupCompression Z resp w =
     (case negotiate (cfg_compression_requested (config (ctx w))) 6 resp of
        None \<Rightarrow> w\<lparr>ctx := (ctx w)\<lparr>use_compression := False\<rparr>\<rparr>
      | Some cfg \<Rightarrow>
          (case initializeCompression Z cfg (rx w, tx (ctx w)) of
             (ok, r, t) \<Rightarrow>
               (let x1 = (ctx w)\<lparr>pmd := cfg, tx := t\<rparr> in
                w\<lparr>rx := r,
                  ctx := (if \<not> ok
                          then sendError NOT_SUPPORTED (ascii ''Compression negotiation failed'')
                                 (x1\<lparr>use_compression := False\<rparr>)
                          else x1\<lparr>use_compression := True\<rparr>)\<rparr>)))"

definition handleRead :: "('d, 'i) ext \<Rightarrow> ('d, 'i) world \<Rightarrow> ('d, 'i) world" where
  "handleRead Z w =
     (if upgraded (ctx w) then world_onData Z w
      else
        (let len = length (input w); n = headerBytes (input w); resp = take n (input w) in
         if len < 4 \<or> n = 0 then w
         else if \<not> upgrade_accepted resp then
           w\<lparr>ctx := requestLoopExit True
                (sendError CONNECT_FAILED (ascii ''WebSocket upgrade failed'')
                  ((ctx w)\<lparr>connection_state := FAILED\<rparr>)),
             input := []\<rparr>
         else
           (let w1 = setupCompression Z resp w;
                x1 = flushSendQueue Z ((ctx w1)\<lparr>upgraded := True, connection_state := CONNECTED\<rparr>);
                x2 = (if cb_open x1 then emit OnOpen x1 else x1)\<lparr>timeout_event := False\<rparr>;
                w2 = w1\<lparr>ctx := x2, input := drop n (input w1)\<rparr>
            in if input w2 \<noteq> [] then world_onData Z w2 else w2)))"

end
