(* ===== verification/Sha1.thy ===== *)
theory Sha1
  imports ByteOrder Base64 Text
begin

text \<open>
  The SHA-1 of sha1.hpp, and the accept value of the handshake computed with it. The digest is
  compared with the definition of FIPS 180-4: the padded message, the schedule of 80 words and the
  loop over it. The code keeps only the last 16 words of the schedule and unrolls the loop with
  the five registers renamed from step to step.
\<close>

section \<open>The class\<close>

record SHA1 =
  digest :: "u32 list"
  buffer :: bytes
  transforms :: u64

definition sha1_reset :: SHA1 where
  "sha1_reset = \<lparr>digest = [0x67452301, 0xefcdab89, 0x98badcfe, 0x10325476, 0xc3d2e1f0],
     buffer = [], transforms = 0\<rparr>"

definition rol :: "u32 \<Rightarrow> nat \<Rightarrow> u32" where
  "rol value bits = push_bit bits value OR drop_bit (32 - bits) value"

definition blk :: "u32 list \<Rightarrow> nat \<Rightarrow> u32" where
  "blk block i = rol (block ! ((i + 13) mod 16) XOR block ! ((i + 8) mod 16) XOR block ! ((i + 2) mod 16)
     XOR block ! i) 1"

text \<open>The five operations; each returns the block, the new \<open>w\<close> and the new \<open>z\<close>.\<close>

datatype sha1_op = R0 | R1 | R2 | R3 | R4

fun sha1_R :: "sha1_op \<Rightarrow> u32 list \<Rightarrow> u32 \<Rightarrow> u32 \<Rightarrow> u32 \<Rightarrow> u32 \<Rightarrow> u32 \<Rightarrow> nat \<Rightarrow> u32 list \<times> u32 \<times> u32" where
  "sha1_R R0 block v w x y z i =
     (block, rol w 30, z + (((w AND (x XOR y)) XOR y) + block ! i + 0x5a827999 + rol v 5))"
| "sha1_R R1 block v w x y z i =
     (let block1 = block[i := blk block i] in
      (block1, rol w 30, z + (((w AND (x XOR y)) XOR y) + block1 ! i + 0x5a827999 + rol v 5)))"
| "sha1_R R2 block v w x y z i =
     (let block1 = block[i := blk block i] in
      (block1, rol w 30, z + ((w XOR x XOR y) + block1 ! i + 0x6ed9eba1 + rol v 5)))"
| "sha1_R R3 block v w x y z i =
     (let block1 = block[i := blk block i] in
      (block1, rol w 30, z + ((((w OR x) AND y) OR (w AND x)) + block1 ! i + 0x8f1bbcdc + rol v 5)))"
| "sha1_R R4 block v w x y z i =
     (let block1 = block[i := blk block i] in
      (block1, rol w 30, z + ((w XOR x XOR y) + block1 ! i + 0xca62c1d6 + rol v 5)))"

text \<open>The 80 calls of \<open>transform\<close>: the operation, the registers passed as \<open>v\<close>, \<open>w\<close>, \<open>x\<close>, \<open>y\<close>, \<open>z\<close>
  (\<open>a\<close> to \<open>e\<close> are 0 to 4), and the index.\<close>

definition sha1_calls :: "(sha1_op \<times> nat list \<times> nat) list" where
  "sha1_calls =
    [(R0, [0, 1, 2, 3, 4], 0), (R0, [4, 0, 1, 2, 3], 1), (R0, [3, 4, 0, 1, 2], 2), (R0, [2, 3, 4, 0, 1], 3),
     (R0, [1, 2, 3, 4, 0], 4), (R0, [0, 1, 2, 3, 4], 5), (R0, [4, 0, 1, 2, 3], 6), (R0, [3, 4, 0, 1, 2], 7),
     (R0, [2, 3, 4, 0, 1], 8), (R0, [1, 2, 3, 4, 0], 9), (R0, [0, 1, 2, 3, 4], 10), (R0, [4, 0, 1, 2, 3], 11),
     (R0, [3, 4, 0, 1, 2], 12), (R0, [2, 3, 4, 0, 1], 13), (R0, [1, 2, 3, 4, 0], 14), (R0, [0, 1, 2, 3, 4], 15),
     (R1, [4, 0, 1, 2, 3], 0), (R1, [3, 4, 0, 1, 2], 1), (R1, [2, 3, 4, 0, 1], 2), (R1, [1, 2, 3, 4, 0], 3),
     (R2, [0, 1, 2, 3, 4], 4), (R2, [4, 0, 1, 2, 3], 5), (R2, [3, 4, 0, 1, 2], 6), (R2, [2, 3, 4, 0, 1], 7),
     (R2, [1, 2, 3, 4, 0], 8), (R2, [0, 1, 2, 3, 4], 9), (R2, [4, 0, 1, 2, 3], 10), (R2, [3, 4, 0, 1, 2], 11),
     (R2, [2, 3, 4, 0, 1], 12), (R2, [1, 2, 3, 4, 0], 13), (R2, [0, 1, 2, 3, 4], 14), (R2, [4, 0, 1, 2, 3], 15),
     (R2, [3, 4, 0, 1, 2], 0), (R2, [2, 3, 4, 0, 1], 1), (R2, [1, 2, 3, 4, 0], 2), (R2, [0, 1, 2, 3, 4], 3),
     (R2, [4, 0, 1, 2, 3], 4), (R2, [3, 4, 0, 1, 2], 5), (R2, [2, 3, 4, 0, 1], 6), (R2, [1, 2, 3, 4, 0], 7),
     (R3, [0, 1, 2, 3, 4], 8), (R3, [4, 0, 1, 2, 3], 9), (R3, [3, 4, 0, 1, 2], 10), (R3, [2, 3, 4, 0, 1], 11),
     (R3, [1, 2, 3, 4, 0], 12), (R3, [0, 1, 2, 3, 4], 13), (R3, [4, 0, 1, 2, 3], 14), (R3, [3, 4, 0, 1, 2], 15),
     (R3, [2, 3, 4, 0, 1], 0), (R3, [1, 2, 3, 4, 0], 1), (R3, [0, 1, 2, 3, 4], 2), (R3, [4, 0, 1, 2, 3], 3),
     (R3, [3, 4, 0, 1, 2], 4), (R3, [2, 3, 4, 0, 1], 5), (R3, [1, 2, 3, 4, 0], 6), (R3, [0, 1, 2, 3, 4], 7),
     (R3, [4, 0, 1, 2, 3], 8), (R3, [3, 4, 0, 1, 2], 9), (R3, [2, 3, 4, 0, 1], 10), (R3, [1, 2, 3, 4, 0], 11),
     (R4, [0, 1, 2, 3, 4], 12), (R4, [4, 0, 1, 2, 3], 13), (R4, [3, 4, 0, 1, 2], 14), (R4, [2, 3, 4, 0, 1], 15),
     (R4, [1, 2, 3, 4, 0], 0), (R4, [0, 1, 2, 3, 4], 1), (R4, [4, 0, 1, 2, 3], 2), (R4, [3, 4, 0, 1, 2], 3),
     (R4, [2, 3, 4, 0, 1], 4), (R4, [1, 2, 3, 4, 0], 5), (R4, [0, 1, 2, 3, 4], 6), (R4, [4, 0, 1, 2, 3], 7),
     (R4, [3, 4, 0, 1, 2], 8), (R4, [2, 3, 4, 0, 1], 9), (R4, [1, 2, 3, 4, 0], 10), (R4, [0, 1, 2, 3, 4], 11),
     (R4, [4, 0, 1, 2, 3], 12), (R4, [3, 4, 0, 1, 2], 13), (R4, [2, 3, 4, 0, 1], 14), (R4, [1, 2, 3, 4, 0], 15)]"

definition sha1_call :: "sha1_op \<times> nat list \<times> nat \<Rightarrow> u32 list \<times> u32 list \<Rightarrow> u32 list \<times> u32 list" where
  "sha1_call c s =
     (case (c, s) of ((oper, ix, i), (regs, block)) \<Rightarrow>
        (case sha1_R oper block (regs ! (ix ! 0)) (regs ! (ix ! 1)) (regs ! (ix ! 2)) (regs ! (ix ! 3))
                (regs ! (ix ! 4)) i of
           (block1, w, z) \<Rightarrow> (regs[ix ! 1 := w, ix ! 4 := z], block1)))"

text \<open>The block is an array of the caller, which \<open>transform\<close> leaves changed.\<close>

definition sha1_transform :: "u32 list \<Rightarrow> SHA1 \<Rightarrow> SHA1 \<times> u32 list" where
  "sha1_transform block st =
     (case fold sha1_call sha1_calls (digest st, block) of
        (regs, block1) \<Rightarrow>
          (st\<lparr>digest := map2 (+) (digest st) regs, transforms := transforms st + 1\<rparr>, block1))"

definition buffer_to_block :: "bytes \<Rightarrow> u32 list" where
  "buffer_to_block buf =
     map (\<lambda>i. ucast (buf ! (4 * i + 3)) OR push_bit 8 (ucast (buf ! (4 * i + 2)))
              OR push_bit 16 (ucast (buf ! (4 * i + 1))) OR push_bit 24 (ucast (buf ! (4 * i))))
       [0..<16]"

text \<open>\<open>update\<close>: the stream holds the bytes not read yet. A buffer of more than 64 bytes does not occur.\<close>

function sha1_update :: "bytes \<Rightarrow> SHA1 \<Rightarrow> SHA1" where
  "sha1_update s st =
     (let n = 64 - length (buffer st); b = buffer st @ take n s in
      if length b \<noteq> 64 then st\<lparr>buffer := b\<rparr>
      else sha1_update (drop n s) ((fst (sha1_transform (buffer_to_block b) st))\<lparr>buffer := []\<rparr>))"
  by pat_completeness auto
termination
  by (relation "measure (\<lambda>(s, st). 2 * length s + (if length (buffer st) = 64 then 1 else 0))") auto

declare sha1_update.simps [simp del]

definition hex_digit :: "byte \<Rightarrow> byte" where
  "hex_digit n = (if n < 10 then 0x30 + n else 0x61 + (n - 10))"

definition hex_u32 :: "u32 \<Rightarrow> bytes" where
  "hex_u32 w = map (\<lambda>k. hex_digit (ucast (drop_bit k w) AND 0x0F)) [28, 24, 20, 16, 12, 8, 4, 0]"

definition sha1_final :: "SHA1 \<Rightarrow> bytes \<times> SHA1" where
  "sha1_final st =
     (let total_bits = (transforms st * 64 + word_of_nat (length (buffer st))) * 8;
          orig = buffer st @ [0x80]; orig_size = length orig;
          buf = orig @ replicate (64 - orig_size) 0;
          block = buffer_to_block buf;
          (st1, block1) =
            (if orig_size > 56
             then (case sha1_transform block st of (st1, block1) \<Rightarrow> (st1, replicate 14 0 @ drop 14 block1))
             else (st, block));
          block2 = block1[15 := ucast total_bits, 14 := ucast (drop_bit 32 total_bits)];
          st2 = fst (sha1_transform block2 st1)
      in (concat (map hex_u32 (digest st2)), sha1_reset))"

section \<open>FIPS 180-4\<close>

definition fips_f :: "nat \<Rightarrow> u32 \<Rightarrow> u32 \<Rightarrow> u32 \<Rightarrow> u32" where
  "fips_f t x y z =
     (if t < 20 then (x AND y) XOR (NOT x AND z)
      else if t < 40 then x XOR y XOR z
      else if t < 60 then (x AND y) XOR (x AND z) XOR (y AND z)
      else x XOR y XOR z)"

definition fips_K :: "nat \<Rightarrow> u32" where
  "fips_K t = (if t < 20 then 0x5a827999 else if t < 40 then 0x6ed9eba1
               else if t < 60 then 0x8f1bbcdc else 0xca62c1d6)"

fun fips_W :: "u32 list \<Rightarrow> nat \<Rightarrow> u32" where
  "fips_W M t =
     (if t < 16 then M ! t
      else word_rotl 1 (fips_W M (t - 3) XOR fips_W M (t - 8) XOR fips_W M (t - 14) XOR fips_W M (t - 16)))"

declare fips_W.simps [simp del]

type_synonym regs = "u32 \<times> u32 \<times> u32 \<times> u32 \<times> u32"

fun fips_step :: "u32 list \<Rightarrow> nat \<Rightarrow> regs \<Rightarrow> regs" where
  "fips_step M t (a, b, c, d, e) =
     (word_rotl 5 a + fips_f t b c d + e + fips_K t + fips_W M t, a, word_rotl 30 b, c, d)"

definition regs_list :: "regs \<Rightarrow> u32 list" where
  "regs_list r = (case r of (a, b, c, d, e) \<Rightarrow> [a, b, c, d, e])"

definition fips_block :: "u32 list \<Rightarrow> u32 list \<Rightarrow> u32 list" where
  "fips_block M h = map2 (+) h (regs_list (fold (fips_step M) [0..<80] (h ! 0, h ! 1, h ! 2, h ! 3, h ! 4)))"

text \<open>The words of a block of 64 bytes, and the digest of a padded message.\<close>

definition fips_words :: "bytes \<Rightarrow> u32 list" where
  "fips_words bs = map (\<lambda>i. word_of_nat (be_val (take 4 (drop (4 * i) bs)))) [0..<16]"

function fips_hash :: "u32 list \<Rightarrow> bytes \<Rightarrow> u32 list" where
  "fips_hash h bs = (if length bs < 64 then h else fips_hash (fips_block (fips_words (take 64 bs)) h) (drop 64 bs))"
  by pat_completeness auto
termination by (relation "measure (\<lambda>(h, bs). length bs)") auto

declare fips_hash.simps [simp del]

definition fips_pad :: "bytes \<Rightarrow> bytes" where
  "fips_pad m = m @ [0x80] @ replicate ((119 - length m mod 64) mod 64) 0 @ be_bytes 8 (8 * length m)"

definition fips_sha1 :: "bytes \<Rightarrow> u32 list" where
  "fips_sha1 m = fips_hash [0x67452301, 0xefcdab89, 0x98badcfe, 0x10325476, 0xc3d2e1f0] (fips_pad m)"

section \<open>The loop rolled up\<close>

lemma rol_rotl: "rol v 1 = word_rotl 1 v" "rol v 5 = word_rotl 5 v" "rol v 30 = word_rotl 30 v"
proof -
  have "rol v m = word_rotl m v" if "m < 32" "0 < m" for m
  proof (rule bit_word_eqI)
    fix n assume n: "n < LENGTH(32)"
    show "bit (rol v m) n = bit (word_rotl m v) n"
    proof (cases "m \<le> n")
      case True
      then have "(n + (32 - m)) mod 32 = n - m" using n that by (simp add: mod_if)
      then show ?thesis using n that True
        by (auto simp: rol_def bit_simps dest: bit_imp_le_length)
    next
      case False
      then have "(n + (32 - m)) mod 32 = 32 - m + n" using n that by simp
      then show ?thesis using n that False by (simp add: rol_def bit_simps)
    qed
  qed
  then show "rol v 1 = word_rotl 1 v" "rol v 5 = word_rotl 5 v" "rol v 30 = word_rotl 30 v" by simp_all
qed

lemma choose_eq: "(w AND (x XOR y)) XOR y = (w AND x) XOR (NOT w AND (y::u32))"
  by (rule bit_word_eqI) (auto simp: bit_simps)

lemma majority_eq: "((w OR x) AND y) OR (w AND x) = (w AND x) XOR (w AND y) XOR (x AND (y::u32))"
  by (rule bit_word_eqI) (auto simp: bit_simps)

definition sha1_oper :: "nat \<Rightarrow> sha1_op" where
  "sha1_oper k = (if k < 16 then R0 else if k < 20 then R1 else if k < 40 then R2 else if k < 60 then R3 else R4)"

definition sha1_ix :: "nat \<Rightarrow> nat list" where
  "sha1_ix k = map (\<lambda>j. (j + (80 - k)) mod 5) [0..<5]"

lemma sha1_calls_rolled: "sha1_calls = map (\<lambda>k. (sha1_oper k, sha1_ix k, k mod 16)) [0..<80]"
  by code_simp

lemma sha1_ix_list: "list_all (\<lambda>k. (sha1_ix k, sha1_ix (Suc k)) \<in>
    {([0,1,2,3,4], [4,0,1,2,3]), ([4,0,1,2,3], [3,4,0,1,2]), ([3,4,0,1,2], [2,3,4,0,1]),
     ([2,3,4,0,1], [1,2,3,4,0]), ([1,2,3,4,0], [0,1,2,3,4])}) [0..<80]"
  by code_simp

lemma sha1_ix_cases:
  assumes "k < 80"
  shows "(sha1_ix k, sha1_ix (Suc k)) \<in>
    {([0,1,2,3,4], [4,0,1,2,3]), ([4,0,1,2,3], [3,4,0,1,2]), ([3,4,0,1,2], [2,3,4,0,1]),
     ([2,3,4,0,1], [1,2,3,4,0]), ([1,2,3,4,0], [0,1,2,3,4])}"
  using sha1_ix_list assms unfolding list_all_iff by auto

text \<open>The registers in the roles they have at step \<open>k\<close>.\<close>

definition roles :: "nat \<Rightarrow> u32 list \<Rightarrow> regs" where
  "roles k regs = (regs ! (sha1_ix k ! 0), regs ! (sha1_ix k ! 1), regs ! (sha1_ix k ! 2),
     regs ! (sha1_ix k ! 3), regs ! (sha1_ix k ! 4))"

definition rolled :: "nat \<Rightarrow> regs \<times> u32 list \<Rightarrow> regs \<times> u32 list" where
  "rolled k s = (case s of ((v, w, x, y, z), block) \<Rightarrow>
     (case sha1_R (sha1_oper k) block v w x y z (k mod 16) of (block1, w1, z1) \<Rightarrow> ((z1, v, w1, x, y), block1)))"

lemma length_5: "length (xs :: 'a list) = 5 \<longleftrightarrow> (\<exists>a b c d e. xs = [a, b, c, d, e])"
  by (auto simp: length_Suc_conv eval_nat_numeral)

lemma sha1_call_rolled:
  assumes "k < 80" "length regs = 5" "sha1_call (sha1_oper k, sha1_ix k, k mod 16) (regs, block) = (regs1, block1)"
  shows "length regs1 = 5 \<and> (roles (Suc k) regs1, block1) = rolled k (roles k regs, block)"
proof -
  obtain a b c d e where regs: "regs = [a, b, c, d, e]" using assms(2) by (auto simp: length_5)
  obtain bl w z where R: "sha1_R (sha1_oper k) block (regs ! (sha1_ix k ! 0)) (regs ! (sha1_ix k ! 1))
      (regs ! (sha1_ix k ! 2)) (regs ! (sha1_ix k ! 3)) (regs ! (sha1_ix k ! 4)) (k mod 16) = (bl, w, z)"
    by (metis prod_cases3)
  then have out: "regs1 = regs[sha1_ix k ! 1 := w, sha1_ix k ! 4 := z]" "block1 = bl"
    using assms(3) by (simp_all add: sha1_call_def)
  have roll: "rolled k (roles k regs, block) =
      ((z, regs ! (sha1_ix k ! 0), w, regs ! (sha1_ix k ! 2), regs ! (sha1_ix k ! 3)), bl)"
    using R by (simp add: rolled_def roles_def)
  show ?thesis
    unfolding roll out using sha1_ix_cases [OF assms(1)] by (auto simp: roles_def regs)
qed

lemma sha1_fold_rolled:
  assumes "k \<le> 80" "length regs = 5"
  shows "\<exists>regs1 block1. fold sha1_call (map (\<lambda>k. (sha1_oper k, sha1_ix k, k mod 16)) [0..<k]) (regs, block) = (regs1, block1) \<and>
    length regs1 = 5 \<and> (roles k regs1, block1) = fold rolled [0..<k] (roles 0 regs, block)"
  using assms(1)
proof (induction k)
  case (Suc k)
  then obtain regs1 block1 where IH:
    "fold sha1_call (map (\<lambda>k. (sha1_oper k, sha1_ix k, k mod 16)) [0..<k]) (regs, block) = (regs1, block1)"
    "length regs1 = 5" "(roles k regs1, block1) = fold rolled [0..<k] (roles 0 regs, block)" by auto
  obtain regs2 block2 where step: "sha1_call (sha1_oper k, sha1_ix k, k mod 16) (regs1, block1) = (regs2, block2)" by fastforce
  show ?case using IH step sha1_call_rolled [OF _ IH(2) step] Suc.prems by simp
qed (use assms in simp)

section \<open>The circular buffer holds the schedule\<close>

definition holds_schedule :: "u32 list \<Rightarrow> nat \<Rightarrow> u32 list \<Rightarrow> bool" where
  "holds_schedule M k block \<longleftrightarrow> length block = 16 \<and>
     (\<forall>t. max k 16 - 16 \<le> t \<and> t < max k 16 \<longrightarrow> block ! (t mod 16) = fips_W M t)"

lemma rolled_step:
  assumes "k < 80" "block1 = (if k < 16 then block else block[k mod 16 := blk block (k mod 16)])"
    "block1 ! (k mod 16) = fips_W M k"
  shows "rolled k (r, block) = (fips_step M k r, block1)"
proof -
  obtain a b c d e where r: "r = (a, b, c, d, e)" by (metis prod_cases5)
  have step: ?thesis
    if "sha1_oper k = oper" "fips_f k b c d = f" "fips_K k = K"
      "sha1_R oper block a b c d e (k mod 16) = (block1, word_rotl 30 b, e + (f + fips_W M k + K + word_rotl 5 a))"
    for oper f K
  proof -
    have "e + (f + fips_W M k + K + word_rotl 5 a) = word_rotl 5 a + f + e + K + fips_W M k"
      by (simp only: add_ac)
    then show ?thesis using that by (simp add: r rolled_def)
  qed
  have R: "sha1_R R0 block a b c d e (k mod 16) = (block1, word_rotl 30 b,
      e + (((b AND c) XOR (NOT b AND d)) + fips_W M k + 0x5a827999 + word_rotl 5 a))" if "k < 16"
    using assms(2,3) that unfolding sha1_R.simps rol_rotl choose_eq by simp
  have R': "sha1_R R1 block a b c d e (k mod 16) = (block1, word_rotl 30 b,
      e + (((b AND c) XOR (NOT b AND d)) + fips_W M k + 0x5a827999 + word_rotl 5 a))"
    "sha1_R R2 block a b c d e (k mod 16) = (block1, word_rotl 30 b,
      e + ((b XOR c XOR d) + fips_W M k + 0x6ed9eba1 + word_rotl 5 a))"
    "sha1_R R3 block a b c d e (k mod 16) = (block1, word_rotl 30 b,
      e + (((b AND c) XOR (b AND d) XOR (c AND d)) + fips_W M k + 0x8f1bbcdc + word_rotl 5 a))"
    "sha1_R R4 block a b c d e (k mod 16) = (block1, word_rotl 30 b,
      e + ((b XOR c XOR d) + fips_W M k + 0xca62c1d6 + word_rotl 5 a))" if "\<not> k < 16"
    using assms(2,3) that unfolding sha1_R.simps rol_rotl choose_eq majority_eq if_not_P [OF that] Let_def by simp_all
  consider "k < 16" | "\<not> k < 16" "k < 20" | "\<not> k < 20" "k < 40" | "\<not> k < 40" "k < 60" | "\<not> k < 60"
    by linarith
  then show ?thesis
  proof cases
    case 1
    then show ?thesis by (intro step [OF _ _ _ R]) (simp_all add: sha1_oper_def fips_f_def fips_K_def)
  next
    case 2
    then show ?thesis by (intro step [OF _ _ _ R'(1)]) (simp_all add: sha1_oper_def fips_f_def fips_K_def)
  next
    case 3
    then show ?thesis by (intro step [OF _ _ _ R'(2)]) (simp_all add: sha1_oper_def fips_f_def fips_K_def)
  next
    case 4
    then show ?thesis by (intro step [OF _ _ _ R'(3)]) (simp_all add: sha1_oper_def fips_f_def fips_K_def)
  next
    case 5
    then show ?thesis by (intro step [OF _ _ _ R'(4)]) (simp_all add: sha1_oper_def fips_f_def fips_K_def)
  qed
qed

lemma rolled_fips:
  assumes "k < 80" "holds_schedule M k block"
  shows "\<exists>block1. rolled k (r, block) = (fips_step M k r, block1) \<and> holds_schedule M (Suc k) block1"
proof -
  define i where "i = k mod 16"
  have i: "i < 16" by (simp add: i_def)
  have len: "length block = 16" and old: "\<And>t. max k 16 - 16 \<le> t \<Longrightarrow> t < max k 16 \<Longrightarrow> block ! (t mod 16) = fips_W M t"
    using assms(2) by (simp_all add: holds_schedule_def)
  show ?thesis
  proof (cases "k < 16")
    case True
    then have "block ! k = fips_W M k" using old [of k] by simp
    moreover have "holds_schedule M (Suc k) block" using len old True by (simp add: holds_schedule_def)
    ultimately show ?thesis using rolled_step [OF assms(1), of block block M r] True by auto
  next
    case False
    define block1 where "block1 = block[i := blk block i]"
    have ix: "(i + 13) mod 16 = (k - 3) mod 16" "(i + 8) mod 16 = (k - 8) mod 16"
      "(i + 2) mod 16 = (k - 14) mod 16" "i = (k - 16) mod 16"
    proof -
      have shift: "(i + m) mod 16 = (k - (16 - m)) mod 16" if "m \<le> 16" for m
      proof -
        have "(k - (16 - m) + 16) mod 16 = (k + m) mod 16" using False that by simp
        then show ?thesis by (simp add: i_def mod_add_left_eq)
      qed
      show "(i + 13) mod 16 = (k - 3) mod 16" by (subst shift) simp_all
      show "(i + 8) mod 16 = (k - 8) mod 16" by (subst shift) simp_all
      show "(i + 2) mod 16 = (k - 14) mod 16" by (subst shift) simp_all
      show "i = (k - 16) mod 16" by (rule trans [OF _ shift [of 0, simplified]]) (use i in simp)
    qed
    have "blk block i = word_rotl 1 (block ! ((k - 3) mod 16) XOR block ! ((k - 8) mod 16)
        XOR block ! ((k - 14) mod 16) XOR block ! ((k - 16) mod 16))"
      unfolding blk_def rol_rotl ix(1-3) by (simp add: ix(4) [symmetric])
    also have "\<dots> = fips_W M k"
      using False by (simp add: old fips_W.simps [of M k])
    finally have W: "block1 ! i = fips_W M k" "blk block i = fips_W M k" using i len by (simp_all add: block1_def)
    have "block1 ! (t mod 16) = fips_W M t" if "Suc k - 16 \<le> t" "t < Suc k" for t
    proof (cases "t = k")
      case True
      then show ?thesis using W by (simp add: i_def)
    next
      case False
      then have "t mod 16 \<noteq> i"
        using that \<open>\<not> k < 16\<close> mod_eq_dvd_iff_nat [of t k 16] by (auto simp: i_def dest!: dvd_imp_le)
      then show ?thesis using that False \<open>\<not> k < 16\<close> old [of t] by (simp add: block1_def)
    qed
    then have "holds_schedule M (Suc k) block1"
      using False len by (simp add: holds_schedule_def block1_def)
    then show ?thesis using rolled_step [OF assms(1), of block1 block M r] W(1) False
      by (auto simp: block1_def i_def)
  qed
qed

lemma fold_rolled_fips:
  assumes "length M = 16" "k \<le> 80"
  shows "\<exists>block1. fold rolled [0..<k] (r, M) = (fold (fips_step M) [0..<k] r, block1) \<and> holds_schedule M k block1"
  using assms(2)
proof (induction k)
  case 0
  then show ?case using assms(1) by (simp add: holds_schedule_def fips_W.simps)
next
  case (Suc k)
  then obtain block1 where "fold rolled [0..<k] (r, M) = (fold (fips_step M) [0..<k] r, block1)" "holds_schedule M k block1"
    by auto
  then show ?case using rolled_fips [of k M block1 "fold (fips_step M) [0..<k] r"] Suc.prems by simp
qed

lemma sha1_transform_fips:
  assumes "length M = 16" "length (digest st) = 5"
  shows "\<exists>block. length block = 16 \<and> sha1_transform M st =
    (st\<lparr>digest := fips_block M (digest st), transforms := transforms st + 1\<rparr>, block)"
proof -
  obtain a b c d e where dg: "digest st = [a, b, c, d, e]" using assms(2) by (auto simp: length_5)
  have r0: "roles 0 (digest st) = (a, b, c, d, e)" by (simp add: roles_def dg sha1_ix_def upt_rec)
  obtain regs1 block1 where run: "fold sha1_call sha1_calls (digest st, M) = (regs1, block1)" "length regs1 = 5"
    "(roles 80 regs1, block1) = fold rolled [0..<80] ((a, b, c, d, e), M)"
    using sha1_fold_rolled [of 80 "digest st" M] assms(2) r0 by (auto simp: sha1_calls_rolled)
  then have after: "roles 80 regs1 = fold (fips_step M) [0..<80] (a, b, c, d, e)" "holds_schedule M 80 block1"
    using fold_rolled_fips [OF assms(1), of 80 "(a, b, c, d, e)"] by auto
  have "regs_list (roles 80 regs1) = regs1"
    using run(2) by (auto simp: length_5 roles_def regs_list_def sha1_ix_def upt_rec)
  then have "fips_block M (digest st) = map2 (+) (digest st) regs1"
    using after(1) by (simp add: fips_block_def dg)
  moreover have "length block1 = 16" using after(2) by (simp add: holds_schedule_def)
  ultimately show ?thesis using run(1) by (simp add: sha1_transform_def)
qed

section \<open>Blocks of bytes\<close>

lemma be_word:
  "ucast (s::byte) OR push_bit 8 (ucast (r::byte)) OR push_bit 16 (ucast (q::byte)) OR push_bit 24 (ucast (p::byte))
     = (word_of_nat (be_val [p, q, r, s]) :: u32)"
proof -
  have join: "a OR push_bit k (ucast (b::byte)) = a + push_bit k (ucast b)" if "a AND NOT (mask k) = 0" for a :: u32 and b k
  proof -
    have "a AND push_bit k (ucast b) = 0"
    proof (rule bit_word_eqI)
      fix n assume "n < LENGTH(32)"
      have "bit (a AND NOT (mask k)) n = bit (0::u32) n" by (simp only: that)
      then have "\<not> (bit a n \<and> k \<le> n)" using \<open>n < LENGTH(32)\<close> by (auto simp: bit_simps)
      then show "bit (a AND push_bit k (ucast b)) n = bit (0::u32) n" by (auto simp: bit_simps)
    qed
    then show ?thesis by (simp add: disjunctive_add_eq_or)
  qed
  have z1: "ucast s AND NOT (mask 8) = (0::u32)"
    "(ucast s OR push_bit 8 (ucast r)) AND NOT (mask 16) = (0::u32)"
    "(ucast s OR push_bit 8 (ucast r) OR push_bit 16 (ucast q)) AND NOT (mask 24) = (0::u32)"
    by (rule bit_word_eqI; auto simp: bit_simps dest: bit_imp_le_length)+
  have "ucast s OR push_bit 8 (ucast r) OR push_bit 16 (ucast q) OR push_bit 24 (ucast p) =
      ucast s + push_bit 8 (ucast r) + push_bit 16 (ucast q) + (push_bit 24 (ucast p) :: u32)"
    using join [OF z1(1), of r] join [OF z1(2), of q] join [OF z1(3), of p] by (simp add: or.assoc [symmetric])
  also have "\<dots> = word_of_nat (be_val [p, q, r, s])"
    by (simp add: push_bit_eq_mult be_val_def algebra_simps)
  finally show ?thesis .
qed

lemma buffer_to_block_fips: "length bs = 64 \<Longrightarrow> buffer_to_block bs = fips_words bs"
  unfolding buffer_to_block_def fips_words_def
proof (rule map_cong [OF refl])
  fix i assume "i \<in> set [0..<16]" "length bs = 64"
  then have "take 4 (drop (4 * i) bs) = [bs ! (4 * i), bs ! (4 * i + 1), bs ! (4 * i + 2), bs ! (4 * i + 3)]"
    by (intro nth_equalityI) (auto simp: nth_Cons' numeral_eq_Suc less_Suc_eq)
  then show "ucast (bs ! (4 * i + 3)) OR push_bit 8 (ucast (bs ! (4 * i + 2))) OR push_bit 16 (ucast (bs ! (4 * i + 1)))
      OR push_bit 24 (ucast (bs ! (4 * i))) = (word_of_nat (be_val (take 4 (drop (4 * i) bs))) :: u32)"
    using be_word by simp
qed

lemma length_fips_words [simp]: "length (fips_words bs) = 16"
  by (simp add: fips_words_def)

lemma length_fips_block: "length h = 5 \<Longrightarrow> length (fips_block M h) = 5"
  by (simp add: fips_block_def regs_list_def split: prod.split)

lemma length_fips_hash [simp]: "length h = 5 \<Longrightarrow> length (fips_hash h bs) = 5"
proof (induction h bs rule: fips_hash.induct)
  case (1 h bs)
  then show ?case by (simp add: fips_hash.simps [of h bs] length_fips_block)
qed

lemma fips_hash_append: "64 dvd length xs \<Longrightarrow> fips_hash h (xs @ ys) = fips_hash (fips_hash h xs) ys"
proof (induction h xs rule: fips_hash.induct)
  case (1 h xs)
  show ?case
  proof (cases "length xs < 64")
    case True
    then have "xs = []" using 1(2) by (auto dest: dvd_imp_le)
    then show ?thesis by (simp add: fips_hash.simps [of h "[]"])
  next
    case False
    then have "64 dvd length (drop 64 xs)" using 1(2) by (simp add: dvd_diff_nat)
    then show ?thesis using 1(1) [OF False] False by (simp add: fips_hash.simps [of h "xs @ ys"] fips_hash.simps [of h xs])
  qed
qed

lemma fips_hash_block: "length bs = 64 \<Longrightarrow> fips_hash h bs = fips_block (fips_words bs) h"
  by (simp add: fips_hash.simps [of h bs] fips_hash.simps [of _ "[]"])

section \<open>The streaming state\<close>

text \<open>What a state has seen: whole blocks, hashed, and the rest in the buffer.\<close>

definition sha1_holds :: "SHA1 \<Rightarrow> bytes \<Rightarrow> bool" where
  "sha1_holds st full \<longleftrightarrow>
     digest st = fips_hash [0x67452301, 0xefcdab89, 0x98badcfe, 0x10325476, 0xc3d2e1f0] full \<and>
     64 dvd length full \<and> length (buffer st) < 64 \<and> transforms st = word_of_nat (length full div 64)"

lemma sha1_holds_reset: "sha1_holds sha1_reset []"
  by (simp add: sha1_holds_def sha1_reset_def fips_hash.simps)

lemma sha1_holds_block:
  assumes "sha1_holds st full" "length b = 64"
  shows "sha1_holds ((fst (sha1_transform (buffer_to_block b) st))\<lparr>buffer := []\<rparr>) (full @ b)"
proof -
  have five: "length (digest st) = 5" using assms(1) by (simp add: sha1_holds_def)
  obtain block where "sha1_transform (fips_words b) st =
    (st\<lparr>digest := fips_block (fips_words b) (digest st), transforms := transforms st + 1\<rparr>, block)"
    using sha1_transform_fips [OF _ five, of "fips_words b"] by auto
  moreover have "word_of_nat (length full div 64) + 1 = (word_of_nat ((length full + 64) div 64) :: u64)"
  proof -
    have "(length full + 64) div 64 = Suc (length full div 64)" by simp
    then show ?thesis by (simp only: of_nat_Suc add.commute)
  qed
  ultimately show ?thesis using assms
    by (simp add: sha1_holds_def buffer_to_block_fips fips_hash_append fips_hash_block)
qed

lemma sha1_update_holds:
  "sha1_holds st full \<Longrightarrow>
     \<exists>full1. sha1_holds (sha1_update s st) full1 \<and> full1 @ buffer (sha1_update s st) = full @ buffer st @ s"
proof (induction s st arbitrary: full rule: sha1_update.induct)
  case (1 s st)
  define n where "n = 64 - length (buffer st)"
  define b where "b = buffer st @ take n s"
  have len: "length (buffer st) < 64" using 1(2) by (simp add: sha1_holds_def)
  show ?case
  proof (cases "length b = 64")
    case False
    then have "length s < n" using len by (auto simp: b_def n_def)
    then have "sha1_update s st = st\<lparr>buffer := buffer st @ s\<rparr>" "length (buffer st @ s) < 64"
      using False len by (simp_all add: sha1_update.simps [of s st] b_def n_def)
    then show ?thesis using 1(2) by (auto simp: sha1_holds_def)
  next
    case True
    define st1 where "st1 = (fst (sha1_transform (buffer_to_block b) st))\<lparr>buffer := []\<rparr>"
    have "sha1_holds st1 (full @ b)" using sha1_holds_block [OF 1(2) True] by (simp add: st1_def)
    moreover have "\<exists>full1. sha1_holds (sha1_update (drop n s) st1) full1 \<and>
        full1 @ buffer (sha1_update (drop n s) st1) = full2 @ buffer st1 @ drop n s" if "sha1_holds st1 full2" for full2
      using 1(1) [OF n_def b_def, of full2] True that unfolding st1_def by blast
    ultimately obtain full1 where "sha1_holds (sha1_update (drop n s) st1) full1"
      "full1 @ buffer (sha1_update (drop n s) st1) = (full @ b) @ buffer st1 @ drop n s" by blast
    moreover have "sha1_update s st = sha1_update (drop n s) st1"
      using True by (simp add: sha1_update.simps [of s st] b_def n_def st1_def Let_def)
    moreover have "buffer st1 = []" by (simp add: st1_def)
    ultimately show ?thesis by (auto simp: b_def)
  qed
qed

section \<open>The last block\<close>

lemma be_bytes_add: "be_bytes (j + k) n = be_bytes j (n div 256 ^ k) @ be_bytes k n"
proof (induction k arbitrary: n)
  case (Suc k)
  then show ?case by (simp add: div_mult2_eq mult.commute)
qed simp

lemma fips_words_split:
  assumes "length xs = 56" "length ys = 4" "length zs = 4"
  shows "fips_words (xs @ ys @ zs) =
    map (\<lambda>i. word_of_nat (be_val (take 4 (drop (4 * i) xs)))) [0..<14] @ [word_of_nat (be_val ys), word_of_nat (be_val zs)]"
proof -
  have "[0..<16] = [0..<14] @ [14, 15]" by (simp add: upt_rec)
  moreover have "take 4 (drop (4 * i) (xs @ ys @ zs)) = take 4 (drop (4 * i) xs)" if "i < 14" for i
    using that assms(1) by simp
  ultimately show ?thesis using assms by (simp add: fips_words_def)
qed

lemma be_val_zeros: "be_val (replicate k 0) = 0"
proof (induction k)
  case (Suc k)
  have "replicate (Suc k) (0::byte) = replicate k 0 @ [0]" by (simp add: replicate_append_same)
  then show ?case using Suc by (simp only: be_val_snoc) simp
qed (simp add: be_val_def)

text \<open>The two words of the length.\<close>

lemma word_of_be_bytes: "word_of_nat (be_val (be_bytes 4 n)) = (word_of_nat n :: u32)"
  by (simp add: be_val_bytes word_unat_eq_iff unat_of_nat)

lemma length_words:
  "word_of_nat (be_val (be_bytes 4 (n div 256 ^ 4))) = (ucast (drop_bit 32 (word_of_nat n :: u64)) :: u32)"
  "word_of_nat (be_val (be_bytes 4 n)) = (ucast (word_of_nat n :: u64) :: u32)"
proof -
  have "(word_of_nat (n div 2 ^ 32) :: u32) = ucast (drop_bit 32 (word_of_nat n :: u64))"
    unfolding drop_bit_eq_div [symmetric] by (rule bit_word_eqI) (simp add: bit_simps)
  then show "word_of_nat (be_val (be_bytes 4 (n div 256 ^ 4))) = (ucast (drop_bit 32 (word_of_nat n :: u64)) :: u32)"
    unfolding word_of_be_bytes by simp
  show "word_of_nat (be_val (be_bytes 4 n)) = (ucast (word_of_nat n :: u64) :: u32)"
    unfolding word_of_be_bytes by (rule bit_word_eqI) (simp add: bit_simps)
qed

text \<open>The block the code completes with the two words of the length is the last block of the padding.\<close>

lemma last_block:
  assumes "length xs = 56" "length block = 16" "take 14 block = take 14 (fips_words (xs @ replicate 8 0))"
  shows "block[15 := ucast (word_of_nat n :: u64), 14 := ucast (drop_bit 32 (word_of_nat n :: u64))]
    = fips_words (xs @ be_bytes 8 n)"
proof -
  have eight: "be_bytes 8 n = be_bytes 4 (n div 256 ^ 4) @ be_bytes 4 n"
    using be_bytes_add [of 4 4 n] by simp
  have "replicate 8 (0::byte) = replicate 4 0 @ replicate 4 0" by (simp add: replicate_add [symmetric])
  then have "take 14 block = map (\<lambda>i. word_of_nat (be_val (take 4 (drop (4 * i) xs)))) [0..<14]"
    using assms(1,3) fips_words_split [of xs "replicate 4 0" "replicate 4 0"] by simp
  moreover have "block = take 14 block @ [block ! 14, block ! 15]"
    using assms(2) by (intro nth_equalityI) (auto simp: nth_append less_Suc_eq nth_Cons' numeral_eq_Suc)
  ultimately obtain p q where
    "block = map (\<lambda>i. word_of_nat (be_val (take 4 (drop (4 * i) xs)))) [0..<14] @ [p, q]" by metis
  then show ?thesis
    using assms(1) unfolding eight fips_words_split [OF assms(1) length_be_bytes length_be_bytes]
    unfolding length_words(1) unfolding length_words(2)
    by (simp add: list_update_append)
qed

lemma sha1_final_fips:
  assumes "sha1_holds st full"
  shows "sha1_final st = (concat (map hex_u32 (fips_sha1 (full @ buffer st))), sha1_reset)"
proof -
  define buf where "buf = buffer st"
  define m where "m = full @ buf"
  define n where "n = 8 * length m"
  have r: "length buf < 64" "length m mod 64 = length buf" "64 dvd length full"
    using assms by (auto simp: sha1_holds_def buf_def m_def)
  have five: "length (digest st) = 5" using assms by (simp add: sha1_holds_def)
  have dg: "digest st = fips_hash [0x67452301, 0xefcdab89, 0x98badcfe, 0x10325476, 0xc3d2e1f0] full"
    using assms by (simp add: sha1_holds_def)
  have bits: "(transforms st * 64 + word_of_nat (length buf)) * 8 = (word_of_nat n :: u64)"
  proof -
    have "length m = length full div 64 * 64 + length buf" using r(3) by (simp add: m_def)
    then have "n = (length full div 64 * 64 + length buf) * 8" by (simp add: n_def)
    moreover have "transforms st = word_of_nat (length full div 64)" using assms by (simp add: sha1_holds_def)
    ultimately show ?thesis by simp
  qed
  define orig where "orig = buf @ [0x80]"
  define padded where "padded = orig @ replicate (64 - length orig) 0"
  have padded: "length padded = 64" using r(1) by (simp add: padded_def orig_def)
  have final: "sha1_final st =
      (let (st1, block1) = (if length orig > 56
             then (case sha1_transform (fips_words padded) st of (st1, block1) \<Rightarrow> (st1, replicate 14 0 @ drop 14 block1))
             else (st, fips_words padded));
           block2 = block1[15 := ucast (word_of_nat n :: u64), 14 := ucast (drop_bit 32 (word_of_nat n :: u64))]
       in (concat (map hex_u32 (digest (fst (sha1_transform block2 st1)))), sha1_reset))"
    unfolding sha1_final_def Let_def bits [unfolded buf_def] buffer_to_block_fips [OF padded, symmetric]
    by (simp add: padded_def orig_def buf_def)
  have hash: "fips_sha1 m = fips_hash (digest st) (orig @ replicate ((119 - length buf) mod 64) 0 @ be_bytes 8 n)"
    using r by (simp add: fips_sha1_def fips_pad_def m_def n_def orig_def dg fips_hash_append r(2) [unfolded m_def])
  have "sha1_final st = (concat (map hex_u32 (fips_sha1 m)), sha1_reset)"
  proof (cases "length orig > 56")
    case True
    then have "(119 - length buf) mod 64 = (64 - length orig) + 56" using r(1) by (simp add: orig_def)
    then have cut: "orig @ replicate ((119 - length buf) mod 64) 0 @ be_bytes 8 n =
        padded @ (replicate 56 0 @ be_bytes 8 n)"
      by (simp add: padded_def replicate_add)
    have hash2: "fips_sha1 m =
        fips_block (fips_words (replicate 56 0 @ be_bytes 8 n)) (fips_block (fips_words padded) (digest st))"
      using padded unfolding hash cut by (simp add: fips_hash_append fips_hash_block)
    obtain block1 where t1: "length block1 = 16" "sha1_transform (fips_words padded) st =
      (st\<lparr>digest := fips_block (fips_words padded) (digest st), transforms := transforms st + 1\<rparr>, block1)"
      using sha1_transform_fips [OF length_fips_words five] by blast
    have "fips_words (replicate 56 0 @ replicate 8 0) = replicate 16 0"
      by (rule nth_equalityI) (simp_all add: fips_words_def replicate_add [symmetric] be_val_zeros)
    then have "(replicate 14 0 @ drop 14 block1)[15 := ucast (word_of_nat n :: u64), 14 := ucast (drop_bit 32 (word_of_nat n :: u64))]
      = fips_words (replicate 56 0 @ be_bytes 8 n)"
      using t1(1) by (intro last_block) simp_all
    moreover obtain block3 where "sha1_transform (fips_words (replicate 56 0 @ be_bytes 8 n))
        (st\<lparr>digest := fips_block (fips_words padded) (digest st), transforms := transforms st + 1\<rparr>) =
      (st\<lparr>digest := fips_sha1 m, transforms := transforms st + 1 + 1\<rparr>, block3)"
      using sha1_transform_fips [of "fips_words (replicate 56 0 @ be_bytes 8 n)"
        "st\<lparr>digest := fips_block (fips_words padded) (digest st), transforms := transforms st + 1\<rparr>"] five
      by (auto simp: length_fips_block hash2)
    ultimately show ?thesis using True t1 by (simp add: final Let_def)
  next
    case False
    define xs where "xs = orig @ replicate (56 - length orig) 0"
    have "(119 - length buf) mod 64 = 56 - length orig" using False by (simp add: orig_def mod_if)
    then have hash1: "fips_sha1 m = fips_block (fips_words (xs @ be_bytes 8 n)) (digest st)"
      using hash False by (simp add: xs_def fips_hash_block)
    have "padded = xs @ replicate 8 0"
      using False by (simp add: padded_def xs_def replicate_add [symmetric])
    then have "(fips_words padded)[15 := ucast (word_of_nat n :: u64), 14 := ucast (drop_bit 32 (word_of_nat n :: u64))]
      = fips_words (xs @ be_bytes 8 n)"
      using False by (intro last_block) (simp_all add: xs_def)
    moreover obtain block3 where "sha1_transform (fips_words (xs @ be_bytes 8 n)) st =
      (st\<lparr>digest := fips_sha1 m, transforms := transforms st + 1\<rparr>, block3)"
      using sha1_transform_fips [OF length_fips_words five, of "xs @ be_bytes 8 n"] hash1 by auto
    ultimately show ?thesis using False by (simp add: final Let_def)
  qed
  then show ?thesis by (simp add: m_def buf_def)
qed

text \<open>\<open>from_file\<close>: None for a file that cannot be opened, from which nothing is read.\<close>

definition from_file :: "bytes option \<Rightarrow> bytes" where
  "from_file stream = fst (sha1_final (sha1_update (case stream of None \<Rightarrow> [] | Some content \<Rightarrow> content) sha1_reset))"

lemma from_file_fips:
  "from_file (Some content) = concat (map hex_u32 (fips_sha1 content))" "from_file None = from_file (Some [])"
proof -
  have "\<exists>full. sha1_holds (sha1_update content sha1_reset) full \<and> full @ buffer (sha1_update content sha1_reset) = content"
    using sha1_update_holds [OF sha1_holds_reset, of content] by (auto simp: sha1_reset_def)
  then show "from_file (Some content) = concat (map hex_u32 (fips_sha1 content))"
    using sha1_final_fips by (fastforce simp: from_file_def)
qed (simp add: from_file_def)

section \<open>The accept value\<close>

definition hexNibble :: "byte \<Rightarrow> string + byte" where
  "hexNibble c =
     (if 0x30 \<le> c \<and> c \<le> 0x39 then Inr (c - 0x30)
      else if 0x61 \<le> c \<and> c \<le> 0x66 then Inr (c - 0x61 + 10)
      else if 0x41 \<le> c \<and> c \<le> 0x46 then Inr (c - 0x41 + 10)
      else Inl ''Invalid hex'')"

text \<open>The loop of \<open>hexToBytes\<close> over pairs of digits.\<close>

fun hex_pairs :: "bytes \<Rightarrow> string + bytes" where
  "hex_pairs (h # l # rest) =
     (case hexNibble h of
        Inl e \<Rightarrow> Inl e
      | Inr hi \<Rightarrow>
          (case hexNibble l of
             Inl e \<Rightarrow> Inl e
           | Inr lo \<Rightarrow> (case hex_pairs rest of Inl e \<Rightarrow> Inl e | Inr out \<Rightarrow> Inr ((push_bit 4 hi OR lo) # out))))"
| "hex_pairs _ = Inr []"

definition hexToBytes :: "bytes \<Rightarrow> string + bytes" where
  "hexToBytes hex = (if length hex \<noteq> 40 then Inl ''SHA1 hex must be 40 chars'' else hex_pairs hex)"

definition getWebSocketKey :: "bytes \<Rightarrow> string option" where
  "getWebSocketKey nonce = base64_encode nonce False"

definition WS_MAGIC :: bytes where
  "WS_MAGIC = ascii ''258EAFA5-E914-47DA-95CA-C5AB0DC85B11''"

text \<open>With USE_TLS the digest is OpenSSL's; \<open>None\<close> for the parameter is the build without it. The
  result \<open>None\<close> is an exception.\<close>

definition computeAccept :: "(bytes \<Rightarrow> bytes) option \<Rightarrow> bytes \<Rightarrow> string option" where
  "computeAccept openssl_SHA1 key =
     (let buf = key @ WS_MAGIC in
      case openssl_SHA1 of
        Some sha \<Rightarrow> base64_encode (sha buf) False
      | None \<Rightarrow>
          (case hexToBytes (fst (sha1_final (sha1_update buf sha1_reset))) of
             Inl e \<Rightarrow> None
           | Inr rawDigest \<Rightarrow> base64_encode rawDigest False))"

text \<open>The digest as octets, most significant first.\<close>

definition digest_bytes :: "u32 list \<Rightarrow> bytes" where
  "digest_bytes ws = concat (map (\<lambda>w. be_bytes 4 (unat w)) ws)"

lemma hexNibble_digit: "list_all (\<lambda>k. hexNibble (hex_digit (word_of_nat k)) = Inr (word_of_nat k)) [0..<16]"
  by code_simp

lemma hexNibble_hex: "hexNibble (hex_digit (b AND 0x0F)) = Inr (b AND 0x0F)"
proof -
  have "b AND 0x0F = take_bit 4 b" by (simp add: byte_eq_iff bit_simps)
  moreover have "unat (take_bit 4 b) = unat b mod 16"
    using unsigned_take_bit_eq [of 4 b] by (simp add: take_bit_eq_mod)
  ultimately have "unat (b AND 0x0F) < 16" by simp
  moreover have "b AND 0x0F = word_of_nat (unat (b AND 0x0F))" by simp
  ultimately show ?thesis using hexNibble_digit unfolding list_all_iff
    by (metis atLeastLessThan_iff le0 set_upt)
qed

lemma nibbles: "push_bit 4 (ucast (drop_bit (k + 4) w) AND 0x0F) OR (ucast (drop_bit k w) AND 0x0F)
    = (ucast (drop_bit k (w::u32)) :: byte)" if "k \<le> 24"
  using that by (simp add: byte_eq_iff bit_simps add.commute)

lemma hex_pairs_u32:
  "hex_pairs (hex_u32 w @ rest) = (case hex_pairs rest of Inl e \<Rightarrow> Inl e | Inr out \<Rightarrow> Inr (be_bytes 4 (unat w) @ out))"
proof -
  have "be_bytes 4 (unat w) = [ucast (drop_bit 24 w), ucast (drop_bit 16 w), ucast (drop_bit 8 w), ucast w]"
  proof -
    have four: "4 = Suc (Suc (Suc (Suc 0)))" by simp
    have "(word_of_nat (unat w div 2 ^ k) :: byte) = ucast (drop_bit k w)" if "k \<le> 24" for k
      using ucast_drop_of_nat [of k, where 'a = 32, of "unat w"] that by simp
    from this [of 24] this [of 16] this [of 8] this [of 0] show ?thesis
      unfolding four be_bytes.simps append.simps div_mult2_eq [symmetric] by simp
  qed
  moreover have "push_bit 4 (ucast (drop_bit (k + 4) w) AND 0x0F) OR (ucast (drop_bit k w) AND 0x0F)
      = (ucast (drop_bit k w) :: byte)" if "k \<le> 24" for k by (rule nibbles [OF that])
  note this [of 24] this [of 16] this [of 8] this [of 0]
  ultimately show ?thesis
    by (simp add: hex_u32_def hexNibble_hex split: sum.split)
qed

lemma hexToBytes_digest:
  assumes "length ws = 5"
  shows "hexToBytes (concat (map hex_u32 ws)) = Inr (digest_bytes ws)"
proof -
  have "hex_pairs (concat (map hex_u32 ws)) = Inr (digest_bytes ws)" for ws
    by (induction ws) (simp_all add: digest_bytes_def hex_pairs_u32)
  moreover have "length (concat (map hex_u32 ws)) = 40"
    using assms by (auto simp: length_5 hex_u32_def)
  ultimately show ?thesis by (simp add: hexToBytes_def)
qed

lemma fips_sha1_length: "length (fips_sha1 m) = 5"
  by (simp add: fips_sha1_def)

lemma accept_any:
  assumes "case openssl_SHA1 of None \<Rightarrow> True | Some sha \<Rightarrow> sha = (\<lambda>m. digest_bytes (fips_sha1 m))"
  shows "computeAccept openssl_SHA1 key = Some (rfc4648 False (digest_bytes (fips_sha1 (key @ WS_MAGIC))))"
proof -
  have "length (digest_bytes (fips_sha1 m)) < 2 ^ 32" for m
    using fips_sha1_length [of m] by (auto simp: length_5 digest_bytes_def)
  then have "base64_encode (digest_bytes (fips_sha1 m)) False = Some (rfc4648 False (digest_bytes (fips_sha1 m)))" for m
    by (rule base64_encode_rfc)
  moreover have "hexToBytes (fst (sha1_final (sha1_update m sha1_reset))) = Inr (digest_bytes (fips_sha1 m))" for m
  proof -
    obtain full1 where "sha1_holds (sha1_update m sha1_reset) full1" "full1 @ buffer (sha1_update m sha1_reset) = m"
      using sha1_update_holds [OF sha1_holds_reset, of m] by (auto simp: sha1_reset_def)
    then have "fst (sha1_final (sha1_update m sha1_reset)) = concat (map hex_u32 (fips_sha1 m))"
      using sha1_final_fips by fastforce
    then show ?thesis by (simp add: hexToBytes_digest fips_sha1_length)
  qed
  ultimately show ?thesis using assms by (simp add: computeAccept_def Let_def split: option.split_asm)
qed

lemma computeAccept_sha1:
  "computeAccept None key = Some (rfc4648 False (digest_bytes (fips_sha1 (key @ WS_MAGIC))))"
  by (rule accept_any) simp

section \<open>Properties\<close>

text \<open>C36: for a message of any length, cut into any pieces, the digest the class prints is the SHA-1 of
  FIPS 180-4 in hexadecimal, and the object is ready for the next message.\<close>

theorem sha1_correct:
  "sha1_final (fold sha1_update pieces sha1_reset) =
     (concat (map hex_u32 (fips_sha1 (concat pieces))), sha1_reset)"
proof -
  have "\<exists>full1. sha1_holds (fold sha1_update pieces st) full1 \<and>
      full1 @ buffer (fold sha1_update pieces st) = full @ buffer st @ concat pieces"
    if "sha1_holds st full" for st full
    using that
  proof (induction pieces arbitrary: st full)
    case (Cons p pieces)
    obtain full1 where "sha1_holds (sha1_update p st) full1"
      "full1 @ buffer (sha1_update p st) = full @ buffer st @ p"
      using sha1_update_holds [OF Cons.prems] by blast
    then show ?case using Cons.IH [of "sha1_update p st" full1] by (metis append.assoc concat.simps(2) fold_simps(2))
  qed auto
  from this [OF sha1_holds_reset] obtain full1 where
    "sha1_holds (fold sha1_update pieces sha1_reset) full1"
    "full1 @ buffer (fold sha1_update pieces sha1_reset) = concat pieces"
    by (auto simp: sha1_reset_def)
  then show ?thesis using sha1_final_fips by metis
qed

text \<open>C37: the accept value is what RFC 6455 (4.2.2) prescribes for the key: the base64 encoding of the
  SHA-1 of the key followed by the fixed GUID, with the SHA-1 of the repository and with OpenSSL's.\<close>

theorem computeAccept_rfc:
  assumes "case openssl_SHA1 of None \<Rightarrow> True | Some sha \<Rightarrow> sha = (\<lambda>m. digest_bytes (fips_sha1 m))"
  shows "computeAccept openssl_SHA1 key = Some (rfc4648 False (digest_bytes (fips_sha1 (key @ WS_MAGIC))))"
  by (rule accept_any [OF assms])

theorem computeAccept_rfc_witness:
  "computeAccept (Some (\<lambda>m. digest_bytes (fips_sha1 m))) (ascii ''dGhlIHNhbXBsZSBub25jZQ=='') =
   Some (rfc4648 False (digest_bytes (fips_sha1 (ascii ''dGhlIHNhbXBsZSBub25jZQ=='' @ WS_MAGIC))))"
  by (rule computeAccept_rfc) simp

end
