(* ===== verification/Startup.thy ===== *)
theory Startup
  imports Context Sha1
begin

text \<open>
  The beginning and the end of the event thread: \<open>run\<close> up to the dispatch of the event loop,
  with each early return, and \<open>cleanup\<close>. What libevent and OpenSSL answer is a record of the
  environment; \<open>env_use_tls\<close> is the build option USE_TLS.
\<close>

section \<open>The object\<close>

text \<open>The members before \<open>run\<close>: the initialisers of the class.\<close>

definition new_ctx :: "('d, 'i) ext \<Rightarrow> ws_config \<Rightarrow> bytes \<Rightarrow> bytes \<Rightarrow> 'd ctx" where
  "new_ctx Z cfg key accept = \<lparr>config = cfg, ws_key = key, ws_accept = accept,
     cb_open = False, cb_error = False, cb_close = False, cb_message = False, cb_binary = False,
     connection_state = DISCONNECTED, upgraded = False, running = False, stop_requested = False,
     close_sent = False, close_received = False, protocol_failed = False, close_cb_fired = False,
     send_flush_pending = False, use_compression = False, pmd = PerMessageDeflateConfig\<lparr>compression_level := 6\<rparr>,
     send_queue = [],
     tx = \<lparr>tx_cfg = PerMessageDeflateConfig, deflate_stream = deflate_zero Z, deflate_initialized = False,
           tx_compressed_buf = [], tx_payload_len = 0\<rparr>,
     mask_state = 0, base = False, dns_base = False, sni = False, host_checked = False, bev = False,
     timeout_event = False, timeout_delay = 0, ping_event = False, ping_delay = 0,
     wakeup_event = False, send_event = False, close_timer = False, close_timer_armed = False,
     wakeup_active = False, send_active = False, loop_exit = False, out_buf = [], trace = []\<rparr>"

text \<open>The constructor, on the 16 random octets; \<open>None\<close> is an exception.\<close>

definition WebSocketContext ::
    "('d, 'i) ext \<Rightarrow> (bytes \<Rightarrow> bytes) option \<Rightarrow> bytes \<Rightarrow> ws_config \<Rightarrow> 'd ctx option" where
  "WebSocketContext Z openssl_SHA1 nonce cfg =
     (case getWebSocketKey nonce of
        None \<Rightarrow> None
      | Some key \<Rightarrow>
          (case computeAccept openssl_SHA1 (ascii key) of
             None \<Rightarrow> None
           | Some accept \<Rightarrow> Some (new_ctx Z cfg (ascii key) (ascii accept))))"

text \<open>The setters; the argument says whether the std::function holds a target.\<close>

definition setOpenCallback :: "bool \<Rightarrow> 'd ctx \<Rightarrow> 'd ctx" where
  "setOpenCallback cb x = x\<lparr>cb_open := cb\<rparr>"

definition setErrorCallback :: "bool \<Rightarrow> 'd ctx \<Rightarrow> 'd ctx" where
  "setErrorCallback cb x = x\<lparr>cb_error := cb\<rparr>"

definition setCloseCallback :: "bool \<Rightarrow> 'd ctx \<Rightarrow> 'd ctx" where
  "setCloseCallback cb x = x\<lparr>cb_close := cb\<rparr>"

definition setMessageCallback :: "bool \<Rightarrow> 'd ctx \<Rightarrow> 'd ctx" where
  "setMessageCallback cb x = x\<lparr>cb_message := cb\<rparr>"

definition setBinaryCallback :: "bool \<Rightarrow> 'd ctx \<Rightarrow> 'd ctx" where
  "setBinaryCallback cb x = x\<lparr>cb_binary := cb\<rparr>"

section \<open>The event thread\<close>

record run_env =
  env_use_tls :: bool
  env_ssl :: openssl
  env_verify_param :: bool
  env_set_host :: bool
  env_event_base :: bool
  env_dns_base :: bool
  env_bufferevent :: bool
  env_wakeup :: bool
  env_send :: bool
  env_connect :: bool

definition cleanup :: "'d ctx \<Rightarrow> 'd ctx" where
  "cleanup x = x\<lparr>close_timer := False, close_timer_armed := False, ping_event := False,
     timeout_event := False, bev := False, dns_base := False, wakeup_event := False,
     wakeup_active := False, send_event := False, send_active := False, base := False,
     loop_exit := False\<rparr>"

text \<open>The TLS part: \<open>Inl\<close> where \<open>run\<close> returns.\<close>

definition run_tls :: "run_env \<Rightarrow> 'd ctx \<Rightarrow> 'd ctx + 'd ctx" where
  "run_tls E x =
     (if \<not> cfg_secure (config x) then Inr x
      else if \<not> env_use_tls E then Inr (x\<lparr>config := (config x)\<lparr>cfg_secure := False\<rparr>\<rparr>)
      else
        (case tls_init (env_ssl E) (cfg_tls (config x)) of
           (Inl _, _, _) \<Rightarrow> Inl (sendError TLS_INIT_FAILED (ascii ''Failed to initialize TLS'') x)
         | (Inr _, tc, _) \<Rightarrow>
             (case createSsl (env_ssl E) tc of
                Inl _ \<Rightarrow> Inl (sendError TLS_INIT_FAILED (ascii ''Failed SSL context creation'') x)
              | Inr _ \<Rightarrow>
                  (let x1 = x\<lparr>sni := \<not> cfg_is_ip_address (config x)\<rparr> in
                   if \<not> disableHostnameValidation (cfg_tls (config x)) \<and> env_verify_param E then
                     (if env_set_host E then Inr (x1\<lparr>host_checked := True\<rparr>)
                      else Inl (sendError TLS_INIT_FAILED (ascii ''Failed hostname verification setup'') x1))
                   else Inr x1))))"

text \<open>The creation of the libevent objects, up to the connection attempt.\<close>

definition run_events :: "run_env \<Rightarrow> 'd ctx \<Rightarrow> bool \<times> 'd ctx" where
  "run_events E x =
     (if \<not> env_event_base E then (False, sendError IO (ascii ''Failed to create event_base'') x)
      else if \<not> env_dns_base E then
        (False, (sendError IO (ascii ''Failed to create DNS base'') (x\<lparr>base := True\<rparr>))\<lparr>base := False\<rparr>)
      else
        (let x1 = x\<lparr>base := True, dns_base := True\<rparr> in
         if \<not> env_bufferevent E then
           (False, cleanup (if cfg_secure (config x1) then x1
                            else sendError IO (ascii ''Failed to create bufferevent'') x1))
         else
           (let x2 = x1\<lparr>bev := True, wakeup_event := env_wakeup E, send_event := env_send E\<rparr> in
            if \<not> env_wakeup E \<or> \<not> env_send E then (False, cleanup x2)
            else
              (let x3 = x2\<lparr>timeout_event := True, timeout_delay := cfg_connection_timeout (config x2)\<rparr>;
                   x4 = (if cfg_ping_interval (config x3) > 0
                         then x3\<lparr>ping_event := True, ping_delay := cfg_ping_interval (config x3)\<rparr> else x3)
               in if \<not> env_connect E
                  then (False, cleanup (sendError CONNECT_FAILED (ascii ''Failed to start connection'') x4))
                  else (True, x4\<lparr>running := True\<rparr>)))))"

text \<open>The result says whether the event loop is entered.\<close>

definition run_setup :: "run_env \<Rightarrow> 'd ctx \<Rightarrow> bool \<times> 'd ctx" where
  "run_setup E x =
     (if running x then (False, x)
      else if cfg_host (config x) = [] \<or> cfg_port (config x) = 0 then
        (False, sendError CONNECT_FAILED (ascii ''Invalid host or port'') x)
      else
        (case run_tls E x of
           Inl x1 \<Rightarrow> (False, x1)
         | Inr x1 \<Rightarrow> run_events E (x1\<lparr>connection_state := CONNECTING\<rparr>)))"

text \<open>What follows the event loop.\<close>

definition run_end :: "'d ctx \<Rightarrow> 'd ctx" where
  "run_end x = cleanup (x\<lparr>running := False\<rparr>)"

section \<open>Lemmas\<close>

lemma sendError_simps [simp]:
  "connection_state (sendError c m x) = connection_state x" "running (sendError c m x) = running x"
  "config (sendError c m x) = config x" "stop_requested (sendError c m x) = stop_requested x"
  "send_queue (sendError c m x) = send_queue x" "wakeup_active (sendError c m x) = wakeup_active x"
  "base (sendError c m x) = base x" "bev (sendError c m x) = bev x"
  by (simp_all add: sendError_def emit_def)

lemma run_tls_Inr:
  assumes "run_tls E x = Inr x1"
  obtains cfg s h where "x1 = x\<lparr>config := cfg, sni := s, host_checked := h\<rparr>"
    "cfg = config x \<or> cfg = (config x)\<lparr>cfg_secure := False\<rparr>"
proof -
  have "\<exists>cfg s h. x1 = x\<lparr>config := cfg, sni := s, host_checked := h\<rparr> \<and>
      (cfg = config x \<or> cfg = (config x)\<lparr>cfg_secure := False\<rparr>)"
  proof (cases "x1 = x")
    case True
    then have "x1 = x\<lparr>config := config x, sni := sni x, host_checked := host_checked x\<rparr>" by simp
    then show ?thesis by blast
  next
    case False
    consider "x1 = x\<lparr>config := (config x)\<lparr>cfg_secure := False\<rparr>\<rparr>"
      | s where "x1 = x\<lparr>sni := s\<rparr>" | s where "x1 = x\<lparr>sni := s, host_checked := True\<rparr>"
      using assms False
      by (auto simp: run_tls_def Let_def split: if_split_asm prod.split_asm sum.split_asm)
    then show ?thesis
    proof cases
      case 1
      then have "x1 = x\<lparr>config := (config x)\<lparr>cfg_secure := False\<rparr>, sni := sni x, host_checked := host_checked x\<rparr>"
        by simp
      then show ?thesis by blast
    next
      case (2 s)
      then have "x1 = x\<lparr>config := config x, sni := s, host_checked := host_checked x\<rparr>" by simp
      then show ?thesis by blast
    next
      case (3 s)
      then have "x1 = x\<lparr>config := config x, sni := s, host_checked := True\<rparr>" by simp
      then show ?thesis by blast
    qed
  qed
  then show ?thesis using that by blast
qed

lemma run_events_cases:
  assumes "run_events E x = (started, x')"
  shows "connection_state x' = connection_state x" "stop_requested x' = stop_requested x"
    "send_queue x' = send_queue x"
    "started \<Longrightarrow> \<exists>pe pd. x' = x\<lparr>base := True, dns_base := True, bev := True, wakeup_event := True,
       send_event := True, timeout_event := True, timeout_delay := cfg_connection_timeout (config x),
       ping_event := pe, ping_delay := pd, running := True\<rparr>"
proof -
  show "connection_state x' = connection_state x" "stop_requested x' = stop_requested x"
    "send_queue x' = send_queue x"
    using assms by (auto simp: run_events_def cleanup_def Let_def split: if_split_asm)
  assume "started"
  then have "x' = x\<lparr>base := True, dns_base := True, bev := True, wakeup_event := True,
       send_event := True, timeout_event := True, timeout_delay := cfg_connection_timeout (config x),
       ping_event := (ping_event x \<or> cfg_ping_interval (config x) > 0),
       ping_delay := (if cfg_ping_interval (config x) > 0 then cfg_ping_interval (config x) else ping_delay x),
       running := True\<rparr>"
    using assms by (auto simp: run_events_def Let_def split: if_split_asm)
  then show "\<exists>pe pd. x' = x\<lparr>base := True, dns_base := True, bev := True, wakeup_event := True,
       send_event := True, timeout_event := True, timeout_delay := cfg_connection_timeout (config x),
       ping_event := pe, ping_delay := pd, running := True\<rparr>" by blast
qed

lemma run_setup_started:
  assumes "run_setup E x = (True, x')"
  obtains x1 pe pd cfg s h where "x' = x1\<lparr>connection_state := CONNECTING, base := True, dns_base := True, bev := True,
       wakeup_event := True, send_event := True, timeout_event := True,
       timeout_delay := cfg_connection_timeout (config x), ping_event := pe, ping_delay := pd, running := True\<rparr>"
    "x1 = x\<lparr>config := cfg, sni := s, host_checked := h\<rparr>"
proof -
  obtain x1 where x1: "run_tls E x = Inr x1" "run_events E (x1\<lparr>connection_state := CONNECTING\<rparr>) = (True, x')"
    using assms by (auto simp: run_setup_def split: if_split_asm sum.split_asm)
  obtain cfg s h where r: "x1 = x\<lparr>config := cfg, sni := s, host_checked := h\<rparr>"
    "cfg = config x \<or> cfg = (config x)\<lparr>cfg_secure := False\<rparr>"
    using run_tls_Inr [OF x1(1)] by blast
  then have t: "cfg_connection_timeout (config x1) = cfg_connection_timeout (config x)" by auto
  obtain pe pd where "x' = x1\<lparr>connection_state := CONNECTING, base := True, dns_base := True, bev := True,
       wakeup_event := True, send_event := True, timeout_event := True,
       timeout_delay := cfg_connection_timeout (config x), ping_event := pe, ping_delay := pd, running := True\<rparr>"
    using run_events_cases(4) [OF x1(2)] t by auto
  then show ?thesis using r(1) by (rule that)
qed

end
