(* ===== verification/Connection.thy ===== *)
theory Connection
  imports Startup
begin

text \<open>
  The life of a connection: the events the loop and other threads can bring about as a step
  relation, the order of frames and callbacks it allows as an automaton, and the invariant that
  holds in every reachable state.
\<close>

section \<open>The event loop\<close>

text \<open>Each step is one call from the event loop or one call of the public interface. A pending
  activation or an armed timer is consumed by its step. The relation allows every order, also
  calls after the loop was asked to exit, which libevent may still make in the same round. That the
  transport is connected is reported before any data arrives. A call of \<open>sendData\<close> on the event thread stands for one from inside a callback.\<close>

inductive ws_step :: "('d, 'i) ext \<Rightarrow> ('d, 'i) world \<Rightarrow> ('d, 'i) world \<Rightarrow> bool" for Z where
  api_send: "type \<in> {TEXT, BINARY} \<Longrightarrow> (on_event \<longrightarrow> \<not> dead w) \<Longrightarrow>
    ws_step Z w (w\<lparr>ctx := snd (sendData Z on_event data type (ctx w))\<rparr>)"
| api_stop: "ws_step Z w (w\<lparr>ctx := ctx_stop (ctx w)\<rparr>)"
| bytes_arrive: "\<not> dead w \<Longrightarrow> ws_step Z w (handleRead Z (w\<lparr>input := input w @ bs\<rparr>))"
| bev_event: "\<not> dead w \<Longrightarrow> (ev_connected ev \<longrightarrow> \<not> upgraded (ctx w)) \<Longrightarrow>
    ws_step Z w (w\<lparr>ctx := handleEvent ev (ctx w)\<rparr>)"
| timeout_fires: "\<not> dead w \<Longrightarrow> timeout_event (ctx w) \<Longrightarrow>
    ws_step Z w (w\<lparr>ctx := timeoutCallback (ctx w)\<rparr>)"
| ping_fires: "\<not> dead w \<Longrightarrow> ping_event (ctx w) \<Longrightarrow>
    ws_step Z w (w\<lparr>ctx := pingCallback Z (ctx w)\<rparr>)"
| close_timer_fires: "\<not> dead w \<Longrightarrow> close_timer_armed (ctx w) \<Longrightarrow>
    ws_step Z w (w\<lparr>ctx := closeTimerCb ((ctx w)\<lparr>close_timer_armed := False\<rparr>)\<rparr>)"
| wakeup_runs: "\<not> dead w \<Longrightarrow> wakeup_active (ctx w) \<Longrightarrow>
    ws_step Z w (w\<lparr>ctx := wakeupCallback Z ((ctx w)\<lparr>wakeup_active := False\<rparr>)\<rparr>)"
| send_runs: "\<not> dead w \<Longrightarrow> send_active (ctx w) \<Longrightarrow>
    ws_step Z w (w\<lparr>ctx := sendCallback Z ((ctx w)\<lparr>send_active := False\<rparr>)\<rparr>)"
| loop_ends: "\<not> dead w \<Longrightarrow> loop_exit (ctx w) \<Longrightarrow>
    ws_step Z w (w\<lparr>ctx := run_end (ctx w), dead := True\<rparr>)"

text \<open>A connection whose event loop has just started, with all callbacks registered.\<close>

definition ws_started :: "('d, 'i) world \<Rightarrow> bool" where
  "ws_started w \<longleftrightarrow>
     \<not> dead w \<and> input w = [] \<and> connection_state (ctx w) = CONNECTING \<and> trace (ctx w) = [] \<and> out_buf (ctx w) = [] \<and>
     bev (ctx w) \<and> base (ctx w) \<and> wakeup_event (ctx w) \<and> send_event (ctx w) \<and>
     \<not> upgraded (ctx w) \<and> \<not> close_sent (ctx w) \<and> \<not> close_received (ctx w) \<and>
     \<not> protocol_failed (ctx w) \<and> \<not> close_cb_fired (ctx w) \<and> \<not> close_timer_armed (ctx w) \<and>
     length (send_queue (ctx w)) \<le> MAX_QUEUE_SIZE \<and> (\<forall>d. PClose d \<notin> set (send_queue (ctx w))) \<and>
     \<not> send_flush_pending (ctx w) \<and>
     cb_open (ctx w) \<and> cb_error (ctx w) \<and> cb_close (ctx w) \<and> cb_message (ctx w) \<and> cb_binary (ctx w)"

section \<open>The order of frames and callbacks\<close>

text \<open>The contract with the user and with RFC 6455: the open callback comes once, messages only
  after it; after the CLOSE frame no frame of any kind is sent and no message is delivered; the
  close callback comes once and no message after it; a protocol error is reported once.\<close>

record life =
  opened :: bool
  close_frame :: bool
  closed :: bool
  failed :: bool

fun life_step :: "ctx_event \<Rightarrow> life \<Rightarrow> life option" where
  "life_step OnOpen l = (if opened l then None else Some (l\<lparr>opened := True\<rparr>))"
| "life_step (OnError code msg) l =
     (if code = PROTOCOL then (if failed l then None else Some (l\<lparr>failed := True\<rparr>)) else Some l)"
| "life_step (OnClose code reason) l = (if closed l then None else Some (l\<lparr>closed := True\<rparr>))"
| "life_step (OnMessage m) l = (if opened l \<and> \<not> closed l \<and> \<not> close_frame l then Some l else None)"
| "life_step (OnBinary m) l = (if opened l \<and> \<not> closed l \<and> \<not> close_frame l then Some l else None)"
| "life_step (Sent type raw) l =
     (if close_frame l then None
      else Some (if type = CLOSE then l\<lparr>close_frame := True\<rparr> else l))"

fun life_run :: "ctx_event list \<Rightarrow> life \<Rightarrow> life option" where
  "life_run [] l = Some l"
| "life_run (e # es) l = Option.bind (life_step e l) (life_run es)"

definition life_start :: life where
  "life_start = \<lparr>opened = False, close_frame = False, closed = False, failed = False\<rparr>"

lemma life_run_append: "life_run (es @ fs) l = Option.bind (life_run es l) (life_run fs)"
  by (induction es arbitrary: l) (auto split: bind_splits)

section \<open>The invariant\<close>

definition closing :: "'d ctx \<Rightarrow> bool" where
  "closing x \<longleftrightarrow> connection_state x = DISCONNECTING \<or> connection_state x = DISCONNECTED"

definition queue_ok :: "'d ctx \<Rightarrow> bool" where
  "queue_ok x \<longleftrightarrow> length (send_queue x) \<le> MAX_QUEUE_SIZE \<and>
     (\<forall>d. PClose d \<in> set (send_queue x) \<longrightarrow> length d \<le> 125 \<and> upgraded x \<and> closing x)"

text \<open>What also holds after the event thread has ended; \<open>is_open\<close> says whether the open callback
  has been made.\<close>

definition conn_core :: "bool \<Rightarrow> 'd ctx \<Rightarrow> bool" where
  "conn_core is_open x \<longleftrightarrow>
     cb_open x \<and> cb_error x \<and> cb_close x \<and> cb_message x \<and> cb_binary x \<and>
     length (send_queue x) \<le> MAX_QUEUE_SIZE \<and>
     life_run (trace x) life_start =
       Some \<lparr>opened = is_open, close_frame = close_sent x, closed = close_cb_fired x, failed = protocol_failed x\<rparr>"

definition conn_ok :: "bool \<Rightarrow> 'd ctx \<Rightarrow> bool" where
  "conn_ok is_open x \<longleftrightarrow>
     conn_core is_open x \<and> bev x \<and> base x \<and> queue_ok x \<and>
     (close_sent x \<or> close_received x \<or> close_cb_fired x \<or> protocol_failed x \<longrightarrow> upgraded x \<and> closing x) \<and>
     (upgraded x \<longrightarrow> connection_state x = CONNECTED \<or> closing x) \<and>
     (close_timer_armed x \<longrightarrow> close_sent x)"

abbreviation "conn_inv x \<equiv> conn_ok (upgraded x) x"

lemmas conn_defs = conn_ok_def conn_core_def queue_ok_def closing_def life_run_append

text \<open>What \<open>send\<close> does to the record.\<close>

lemma ws_send_empty: "fst (ws_send Z c raw type st) = [] \<longleftrightarrow> is_control_frame type \<and> length raw > 125"
  by (auto simp: ws_send_def Let_def split: prod.split)

lemma ctx_send_shape:
  obtains out t s where "ctx_send Z raw type x = x\<lparr>out_buf := out, tx := t, mask_state := s,
    trace := trace x @ (if is_control_frame type \<and> length raw > 125 then [] else [Sent type raw])\<rparr>"
proof -
  obtain out t s where s: "ws_send Z (use_compression x) raw type (tx x, mask_state x) = (out, t, s)"
    by (metis prod_cases3)
  then have "out = [] \<longleftrightarrow> is_control_frame type \<and> length raw > 125"
    using ws_send_empty [of Z "use_compression x" raw type "(tx x, mask_state x)"] by simp
  then have "ctx_send Z raw type x = x\<lparr>out_buf := out_buf x @ out, tx := t, mask_state := s,
    trace := trace x @ (if is_control_frame type \<and> length raw > 125 then [] else [Sent type raw])\<rparr>"
    using s by (cases "out = []") (simp_all add: ctx_send_def emit_def)
  then show ?thesis by (rule that)
qed

lemma conn_ok_data:
  assumes "conn_ok is_open x" "\<not> close_sent x" "type \<noteq> CLOSE"
  shows "conn_ok is_open (ctx_send Z raw type x)"
proof -
  obtain out t s where "ctx_send Z raw type x = x\<lparr>out_buf := out, tx := t, mask_state := s,
    trace := trace x @ (if is_control_frame type \<and> length raw > 125 then [] else [Sent type raw])\<rparr>"
    by (rule ctx_send_shape)
  then show ?thesis using assms by (simp add: conn_defs)
qed

lemma ctx_send_simps [simp]:
  "upgraded (ctx_send Z raw type x) = upgraded x" "connection_state (ctx_send Z raw type x) = connection_state x"
  "send_queue (ctx_send Z raw type x) = send_queue x" "use_compression (ctx_send Z raw type x) = use_compression x"
  "stop_requested (ctx_send Z raw type x) = stop_requested x" "close_sent (ctx_send Z raw type x) = close_sent x"
  "trace (ctx_send Z raw type x) =
     trace x @ (if is_control_frame type \<and> length raw > 125 then [] else [Sent type raw])"
  by (rule ctx_send_shape [of Z raw type x]; simp)+

lemma sendNow_ok:
  assumes "conn_ok is_open x" "type \<noteq> CLOSE" "sendNow Z raw type x = (b, x')"
  shows "conn_ok is_open x'" "upgraded x' = upgraded x" "connection_state x' = connection_state x"
    "send_queue x' = send_queue x"
proof -
  have "connection_state x = CONNECTED \<Longrightarrow> \<not> close_sent x" using assms(1) by (auto simp: conn_defs)
  then show "conn_ok is_open x'" "upgraded x' = upgraded x" "connection_state x' = connection_state x"
    "send_queue x' = send_queue x"
    using assms conn_ok_data [OF assms(1) _ assms(2), of Z raw]
    by (auto simp: sendNow_def split: if_split_asm)
qed

text \<open>A CLOSE frame on its way out.\<close>

lemma conn_ok_close:
  assumes "conn_ok is_open x" "\<not> close_sent x" "upgraded x" "closing x" "length d \<le> 125"
  shows "conn_ok is_open (armCloseTimer ((ctx_send Z d CLOSE x)\<lparr>close_sent := True\<rparr>))"
proof -
  obtain out t s where shape: "ctx_send Z d CLOSE x = x\<lparr>out_buf := out, tx := t, mask_state := s,
    trace := trace x @ (if is_control_frame CLOSE \<and> length d > 125 then [] else [Sent CLOSE d])\<rparr>"
    by (rule ctx_send_shape)
  have "armCloseTimer ((ctx_send Z d CLOSE x)\<lparr>close_sent := True\<rparr>) =
    x\<lparr>out_buf := out, tx := t, mask_state := s, trace := trace x @ [Sent CLOSE d], close_sent := True,
      close_timer := True, close_timer_armed := True\<rparr>"
    unfolding armCloseTimer_def shape using assms(5) by simp
  then show ?thesis using assms by (simp add: conn_defs)
qed

lemma flushPending_close_ok:
  assumes "conn_ok is_open x" "length d \<le> 125" "upgraded x" "closing x" "flushPending Z can (PClose d) x = x'"
  shows "conn_ok is_open x' \<and> upgraded x' = upgraded x \<and> connection_state x' = connection_state x \<and>
    send_queue x' = send_queue x"
proof (cases "close_sent x \<or> connection_state x = DISCONNECTED")
  case True
  then show ?thesis using assms by (auto simp: flushPending_def sendNow_def)
next
  case False
  then have "x' = armCloseTimer ((ctx_send Z d CLOSE x)\<lparr>close_sent := True\<rparr>)"
    using assms by (auto simp: flushPending_def sendNow_def closing_def conn_ok_def)
  moreover from this have "upgraded x' = upgraded x \<and> connection_state x' = connection_state x \<and>
    send_queue x' = send_queue x" by (simp add: armCloseTimer_def)
  ultimately show ?thesis using conn_ok_close [OF assms(1) _ assms(3,4,2)] False by simp
qed

definition pending_ok :: "'d ctx \<Rightarrow> Pending \<Rightarrow> bool" where
  "pending_ok x p \<longleftrightarrow> (\<forall>d. p = PClose d \<longrightarrow> length d \<le> 125 \<and> upgraded x \<and> closing x)"

lemma flushPending_ok:
  assumes "conn_ok is_open x" "pending_ok x p" "flushPending Z can p x = x'"
  shows "conn_ok is_open x' \<and> upgraded x' = upgraded x \<and> connection_state x' = connection_state x \<and>
    send_queue x' = send_queue x"
proof (cases p)
  case (PClose d)
  then show ?thesis using assms flushPending_close_ok [of is_open x d Z can x'] by (simp add: pending_ok_def)
next
  case (PText d)
  obtain b x1 where "sendNow Z d TEXT x = (b, x1)" by fastforce
  then show ?thesis using assms PText sendNow_ok [OF assms(1), of TEXT Z d b x1] by (cases can) (auto simp: flushPending_def)
next
  case (PBinary d)
  obtain b x1 where "sendNow Z d BINARY x = (b, x1)" by fastforce
  then show ?thesis using assms PBinary sendNow_ok [OF assms(1), of BINARY Z d b x1] by (cases can) (auto simp: flushPending_def)
qed

lemma flush_fold_ok:
  assumes "conn_ok is_open x" "\<And>p. p \<in> set ps \<Longrightarrow> pending_ok x p"
  shows "conn_ok is_open (fold (flushPending Z can) ps x) \<and>
    upgraded (fold (flushPending Z can) ps x) = upgraded x \<and>
    connection_state (fold (flushPending Z can) ps x) = connection_state x \<and>
    send_queue (fold (flushPending Z can) ps x) = send_queue x"
  using assms
proof (induction ps arbitrary: x)
  case (Cons p ps)
  define x1 where "x1 = flushPending Z can p x"
  have one: "conn_ok is_open x1" "upgraded x1 = upgraded x" "connection_state x1 = connection_state x"
    "send_queue x1 = send_queue x"
    using flushPending_ok [OF Cons.prems(1) _ x1_def [symmetric]] Cons.prems(2) by simp_all
  then have "pending_ok x1 q" if "q \<in> set ps" for q
    using Cons.prems(2) [of q] that by (simp add: pending_ok_def closing_def)
  then show ?case using Cons.IH [OF one(1)] one by (simp add: x1_def [symmetric])
qed simp

lemma flushSendQueue_ok:
  assumes "conn_ok is_open x"
  shows "conn_ok is_open (flushSendQueue Z x)" "upgraded (flushSendQueue Z x) = upgraded x"
    "connection_state (flushSendQueue Z x) = connection_state x" "send_queue (flushSendQueue Z x) = []"
proof -
  let ?x = "x\<lparr>send_queue := []\<rparr>"
  have "conn_ok is_open ?x" using assms by (simp add: conn_defs)
  moreover have "pending_ok ?x p" if "p \<in> set (send_queue x)" for p
    using assms that by (cases p) (simp_all add: pending_ok_def conn_ok_def queue_ok_def closing_def)
  ultimately show "conn_ok is_open (flushSendQueue Z x)" "upgraded (flushSendQueue Z x) = upgraded x"
    "connection_state (flushSendQueue Z x) = connection_state x" "send_queue (flushSendQueue Z x) = []"
    using flush_fold_ok [of is_open ?x "send_queue x" Z] by (simp_all add: flushSendQueue_def Let_def)
qed

section \<open>Every operation keeps the invariant\<close>

text \<open>Fields the invariant does not mention.\<close>

lemma conn_ok_frame [simp]:
  "conn_ok is_open (x\<lparr>wakeup_active := b\<rparr>) = conn_ok is_open x"
  "conn_ok is_open (x\<lparr>send_active := b\<rparr>) = conn_ok is_open x"
  "conn_ok is_open (x\<lparr>send_flush_pending := b\<rparr>) = conn_ok is_open x"
  "conn_ok is_open (x\<lparr>stop_requested := b\<rparr>) = conn_ok is_open x"
  "conn_ok is_open (x\<lparr>loop_exit := b\<rparr>) = conn_ok is_open x"
  "conn_ok is_open (x\<lparr>out_buf := out\<rparr>) = conn_ok is_open x"
  "conn_ok is_open (x\<lparr>use_compression := b\<rparr>) = conn_ok is_open x"
  "conn_ok is_open (x\<lparr>pmd := cfg\<rparr>) = conn_ok is_open x"
  "conn_ok is_open (x\<lparr>tx := t\<rparr>) = conn_ok is_open x"
  "conn_ok is_open (x\<lparr>timeout_event := b\<rparr>) = conn_ok is_open x"
  "conn_ok is_open (x\<lparr>config := cfg1\<rparr>) = conn_ok is_open x"
  by (simp_all add: conn_defs)

lemma requests_ok [simp]:
  "conn_ok is_open (requestWakeup x) = conn_ok is_open x"
  "conn_ok is_open (requestLoopExit on_event x) = conn_ok is_open x"
  "conn_ok is_open (requestSendFlush x) = conn_ok is_open x"
  "upgraded (requestWakeup x) = upgraded x" "upgraded (requestLoopExit on_event x) = upgraded x"
  "upgraded (requestSendFlush x) = upgraded x"
  "connection_state (requestWakeup x) = connection_state x"
  "connection_state (requestLoopExit on_event x) = connection_state x"
  "connection_state (requestSendFlush x) = connection_state x"
  "trace (requestWakeup x) = trace x" "trace (requestLoopExit on_event x) = trace x"
  "trace (requestSendFlush x) = trace x"
  "close_sent (requestLoopExit on_event x) = close_sent x" "close_sent (requestSendFlush x) = close_sent x"
  "close_cb_fired (requestLoopExit on_event x) = close_cb_fired x"
  "close_cb_fired (requestSendFlush x) = close_cb_fired x"
  by (simp_all add: requestWakeup_def requestLoopExit_def requestSendFlush_def Let_def)

text \<open>Reporting an error, other than a protocol error, and the close callback.\<close>

lemma sendError_ok [simp]:
  "code \<noteq> PROTOCOL \<Longrightarrow> conn_ok is_open x \<Longrightarrow> conn_ok is_open (sendError code msg x)"
  "upgraded (sendError code msg x) = upgraded x"
  by (simp_all add: sendError_def emit_def conn_defs)

lemma sendCloseCallback_ok [simp]:
  "conn_ok is_open x \<Longrightarrow> upgraded x \<Longrightarrow> closing x \<Longrightarrow> conn_ok is_open (sendCloseCallback code reason x)"
  "upgraded (sendCloseCallback code reason x) = upgraded x"
  "connection_state (sendCloseCallback code reason x) = connection_state x"
  by (simp_all add: sendCloseCallback_def emit_def conn_defs Let_def)

lemma clear_queue_ok [simp]: "conn_ok is_open x \<Longrightarrow> conn_ok is_open (x\<lparr>send_queue := []\<rparr>)"
  by (simp add: conn_defs)

text \<open>Every change to a closing state.\<close>

lemma set_closing_ok [simp]:
  "conn_ok is_open x \<Longrightarrow> conn_ok is_open (x\<lparr>connection_state := DISCONNECTING\<rparr>)"
  "conn_ok is_open x \<Longrightarrow> conn_ok is_open (x\<lparr>connection_state := DISCONNECTED\<rparr>)"
  by (auto simp: conn_defs)

lemma queue_data_ok:
  assumes "conn_ok is_open x" "length (send_queue x) < MAX_QUEUE_SIZE" "\<forall>d. PClose d \<noteq> p"
  shows "conn_ok is_open (x\<lparr>send_queue := send_queue x @ [p]\<rparr>)"
  using assms by (simp add: conn_defs)

lemma enqueue_ok:
  assumes "conn_ok is_open x" "enqueue data type x = (b, x')"
  shows "conn_ok is_open x' \<and> upgraded x' = upgraded x"
proof (cases "length (send_queue x) \<ge> MAX_QUEUE_SIZE")
  case True
  then show ?thesis using assms by (simp add: enqueue_def)
next
  case False
  then have "x' = x\<lparr>send_queue := send_queue x @ [if type = TEXT then PText data else PBinary data]\<rparr>"
    using assms(2) by (simp add: enqueue_def)
  moreover have "conn_ok is_open \<dots>" using False by (intro queue_data_ok assms(1)) simp_all
  ultimately show ?thesis by simp
qed

lemma sendData_ok:
  assumes "conn_ok is_open x" "type \<noteq> CLOSE"
  shows "conn_ok is_open (snd (sendData Z on_event data type x)) \<and>
    upgraded (snd (sendData Z on_event data type x)) = upgraded x"
proof -
  obtain b1 x1 where e: "enqueue data type x = (b1, x1)" by fastforce
  obtain b2 x2 where n: "sendNow Z data type x = (b2, x2)" by fastforce
  note facts = e n enqueue_ok [OF assms(1) e] sendNow_ok(1,2) [OF assms n] assms(2)
  consider "connection_state x = CONNECTING" | "connection_state x \<noteq> CONNECTING" "on_event"
    | "connection_state x \<noteq> CONNECTING" "\<not> on_event" by blast
  then show ?thesis
  proof cases
    case 3
    then show ?thesis using facts by (cases b1) (simp_all add: sendData_def)
  qed (use facts in \<open>simp_all add: sendData_def\<close>)
qed

lemma queue_close_ok:
  assumes "conn_ok is_open x" "upgraded x" "length (send_queue x) < MAX_QUEUE_SIZE" "length d \<le> 125"
  shows "conn_ok is_open (x\<lparr>connection_state := DISCONNECTING, send_queue := send_queue x @ [PClose d]\<rparr>)"
  using assms by (auto simp: conn_defs)

lemma ctx_close_ok:
  assumes "conn_ok is_open x" "ctx_close on_event code reason x = (b, x')"
  shows "conn_ok is_open x'" "upgraded x' = upgraded x" "closing x'" "trace x' = trace x"
    "close_sent x' = close_sent x" "close_cb_fired x' = close_cb_fired x"
proof -
  have bev: "bev x" using assms(1) by (simp add: conn_ok_def)
  define payload where "payload = mem16 (htons (word_of_int code)) @ take 123 reason"
  have len: "length payload \<le> 125" by (simp add: payload_def mem16_def)
  consider "x' = x" "closing x"
    | "x' = requestLoopExit on_event (x\<lparr>connection_state := DISCONNECTED\<rparr>)"
    | "x' = x\<lparr>connection_state := DISCONNECTING\<rparr>"
    | "x' = requestLoopExit on_event (x\<lparr>connection_state := DISCONNECTING\<rparr>)"
    | "upgraded x" "length (send_queue x) < MAX_QUEUE_SIZE"
        "x' = requestSendFlush (x\<lparr>connection_state := DISCONNECTING, send_queue := send_queue x @ [PClose payload]\<rparr>)"
  proof -
    show thesis
    proof (cases "closing x")
      case True
      then show ?thesis using assms(2) that(1) by (simp add: ctx_close_def closing_def split: if_split_asm)
    next
      case False
      then have not: "(connection_state x = DISCONNECTING \<or> connection_state x = DISCONNECTED) = False"
        by (simp add: closing_def)
      show ?thesis using assms(2) that(2-5) bev
        unfolding ctx_close_def Let_def payload_def [symmetric] not if_False
        by (simp add: not_le split: if_split_asm)
    qed
  qed
  then have "conn_ok is_open x' \<and> upgraded x' = upgraded x \<and> closing x' \<and> trace x' = trace x \<and>
    close_sent x' = close_sent x \<and> close_cb_fired x' = close_cb_fired x"
    using assms(1) queue_close_ok [OF assms(1) _ _ len] by cases (simp_all add: closing_def)
  then show "conn_ok is_open x'" "upgraded x' = upgraded x" "closing x'" "trace x' = trace x"
    "close_sent x' = close_sent x" "close_cb_fired x' = close_cb_fired x" by simp_all
qed

lemma sendPing_ok:
  assumes "conn_ok is_open x"
  shows "conn_ok is_open (sendPing Z x) \<and> upgraded (sendPing Z x) = upgraded x"
proof -
  obtain b x1 where "sendNow Z (ascii ''ping'') PING x = (b, x1)" by fastforce
  then show ?thesis using assms sendNow_ok [OF assms, of PING Z "ascii ''ping''" b x1]
    by (simp add: sendPing_def)
qed

lemma stopNow_ok:
  assumes "conn_ok is_open x"
  shows "conn_ok is_open (stopNow x) \<and> upgraded (stopNow x) = upgraded x"
proof -
  obtain b x1 where "ctx_close True 1000 (ascii ''Normal closure'') x = (b, x1)" by fastforce
  then show ?thesis using assms ctx_close_ok(1,2) [OF assms] by (simp add: stopNow_def Let_def)
qed

lemma timeoutCallback_ok:
  "conn_ok is_open x \<Longrightarrow> conn_ok is_open (timeoutCallback x) \<and> upgraded (timeoutCallback x) = upgraded x"
  by (simp add: timeoutCallback_def)

lemma wakeupCallback_ok:
  "conn_ok is_open x \<Longrightarrow> conn_ok is_open (wakeupCallback Z x) \<and> upgraded (wakeupCallback Z x) = upgraded x"
  by (simp add: wakeupCallback_def stopNow_ok flushSendQueue_ok)

lemma sendCallback_ok:
  "conn_ok is_open x \<Longrightarrow> conn_ok is_open (sendCallback Z x) \<and> upgraded (sendCallback Z x) = upgraded x"
  by (simp add: sendCallback_def flushSendQueue_ok)

lemma closeTimerCb_ok:
  assumes "conn_ok is_open x" "close_sent x"
  shows "conn_ok is_open (closeTimerCb x) \<and> upgraded (closeTimerCb x) = upgraded x"
proof -
  have "upgraded x" "closing x" using assms by (simp_all add: conn_ok_def)
  then show ?thesis using assms(1) by (simp add: closeTimerCb_def)
qed

lemma handleEvent_ok:
  assumes "conn_ok is_open x"
  shows "conn_ok is_open (handleEvent ev x) \<and> upgraded (handleEvent ev x) = upgraded x"
proof -
  have error: "conn_ok is_open (handleError ev x) \<and> upgraded (handleError ev x) = upgraded x"
    using assms by (simp add: handleError_def Let_def closing_def)
  have timeout: "conn_ok is_open (handleTimeout x) \<and> upgraded (handleTimeout x) = upgraded x"
    using assms by (simp add: handleTimeout_def Let_def)
  have connected: "conn_ok is_open (handleConnected ev x) \<and> upgraded (handleConnected ev x) = upgraded x"
    using assms by (simp add: handleConnected_def sendHandshakeRequest_def)
  have graceful: "closing x" if "close_received x \<or> close_sent x"
    using assms that by (auto simp: conn_ok_def)
  have eof: "conn_ok is_open (handleEof x) \<and> upgraded (handleEof x) = upgraded x"
    using assms graceful by (cases "close_received x \<or> close_sent x") (simp_all add: handleEof_def Let_def)
  show ?thesis using assms error timeout connected eof by (simp add: handleEvent_def Let_def)
qed

section \<open>The context behind the receiver\<close>

text \<open>What the receiver reported, read off the trace of the context.\<close>

fun rx_view :: "ctx_event \<Rightarrow> rx_event list" where
  "rx_view (OnMessage m) = [EvText m]"
| "rx_view (OnBinary m) = [EvBinary m]"
| "rx_view (Sent type p) = (if type = PONG then [EvPing p] else [])"
| "rx_view (OnClose code reason) = [EvClose (nat code) reason]"
| "rx_view (OnError code msg) =
     (if code = PROTOCOL
      then [EvError (if take 17 msg = ascii ''WebSocket invalid'' then 1007 else 1002)] else [])"
| "rx_view OnOpen = []"

definition rx_log :: "'d ctx \<Rightarrow> rx_event list" where
  "rx_log x = concat (map rx_view (trace x))"

definition rx_good :: "'d ctx \<Rightarrow> bool" where
  "rx_good x \<longleftrightarrow> conn_ok True x \<and> upgraded x"

text \<open>An endpoint that goes on is connected and has neither sent nor reported a close.\<close>

lemma rx_good_live:
  assumes "rx_good x" "\<not> ctx_rxIsTerminating x"
  shows "connection_state x = CONNECTED" "\<not> closing x" "\<not> close_sent x" "\<not> close_cb_fired x"
    "\<not> protocol_failed x" "\<not> close_received x" "bev x" "upgraded x" "cb_message x" "cb_binary x"
    "cb_close x" "cb_error x"
  using assms unfolding rx_good_def conn_ok_def conn_core_def ctx_rxIsTerminating_def closing_def by simp_all

lemma deliver_ok:
  assumes "rx_good x" "\<not> ctx_rxIsTerminating x" "rx_view e \<in> {[EvText m], [EvBinary m]}"
  shows "rx_good (emit e x)"
  using assms rx_good_live [OF assms(1,2)]
  by (cases e) (simp_all add: rx_good_def emit_def conn_defs split: if_split_asm)

lemma ping_ok:
  assumes "rx_good x" "\<not> ctx_rxIsTerminating x"
  shows "rx_good (ctx_onRxPing Z p x)"
  using assms conn_ok_data [of True x PONG Z p] rx_good_live [OF assms]
  by (simp add: ctx_onRxPing_def rx_good_def)

text \<open>\<open>close\<close> does not look at the flags set just before it.\<close>

lemma ctx_close_received:
  "ctx_close on_event code reason (x\<lparr>close_received := True\<rparr>) =
     apsnd (\<lambda>y. y\<lparr>close_received := True\<rparr>) (ctx_close on_event code reason x)"
  by (simp add: ctx_close_def requestLoopExit_def requestWakeup_def requestSendFlush_def Let_def)

lemma ctx_close_failed:
  "ctx_close on_event code reason (x\<lparr>protocol_failed := True, trace := t\<rparr>) =
     apsnd (\<lambda>y. y\<lparr>protocol_failed := True, trace := t\<rparr>) (ctx_close on_event code reason x)"
  by (simp add: ctx_close_def requestLoopExit_def requestWakeup_def requestSendFlush_def Let_def)

lemma flush_closing:
  assumes "closing x"
  shows "rx_log (flushSendQueue Z x) = rx_log x" "close_cb_fired (flushSendQueue Z x) = close_cb_fired x"
    "cb_close (flushSendQueue Z x) = cb_close x"
proof -
  have one: "rx_log (flushPending Z False p y) = rx_log y \<and>
      close_cb_fired (flushPending Z False p y) = close_cb_fired y \<and>
      cb_close (flushPending Z False p y) = cb_close y" for p and y :: "'a ctx"
  proof (cases p)
    case (PClose d)
    obtain out t s where "ctx_send Z d CLOSE y = y\<lparr>out_buf := out, tx := t, mask_state := s,
      trace := trace y @ (if is_control_frame CLOSE \<and> length d > 125 then [] else [Sent CLOSE d])\<rparr>"
      by (rule ctx_send_shape)
    then show ?thesis using PClose by (simp add: flushPending_def sendNow_def armCloseTimer_def rx_log_def)
  qed (simp_all add: flushPending_def)
  have "rx_log (fold (flushPending Z False) ps y) = rx_log y \<and>
      close_cb_fired (fold (flushPending Z False) ps y) = close_cb_fired y \<and>
      cb_close (fold (flushPending Z False) ps y) = cb_close y" for ps and y :: "'a ctx"
    by (induction ps arbitrary: y) (simp_all add: one)
  moreover have "rx_log (x\<lparr>send_queue := []\<rparr>) = rx_log x" by (simp add: rx_log_def)
  moreover have "connection_state x \<noteq> CONNECTED" using assms by (auto simp: closing_def)
  ultimately show "rx_log (flushSendQueue Z x) = rx_log x"
    "close_cb_fired (flushSendQueue Z x) = close_cb_fired x" "cb_close (flushSendQueue Z x) = cb_close x"
    by (simp_all add: flushSendQueue_def Let_def)
qed

lemma sendCloseCallback_log:
  "\<not> close_cb_fired x \<Longrightarrow> cb_close x \<Longrightarrow> rx_log (sendCloseCallback code reason x) = rx_log x @ [EvClose (nat code) reason]"
  by (simp add: sendCloseCallback_def emit_def rx_log_def)

lemma ctx_close_fields:
  assumes "ctx_close on_event code reason x = (b, x')"
  shows "cb_close x' = cb_close x" "protocol_failed x' = protocol_failed x" "bev x' = bev x"
proof -
  have "cb_close (snd (ctx_close on_event code reason x)) = cb_close x"
    "protocol_failed (snd (ctx_close on_event code reason x)) = protocol_failed x"
    "bev (snd (ctx_close on_event code reason x)) = bev x"
    by (simp_all add: ctx_close_def requestLoopExit_def requestWakeup_def requestSendFlush_def Let_def)
  then show "cb_close x' = cb_close x" "protocol_failed x' = protocol_failed x" "bev x' = bev x"
    using assms by simp_all
qed

lemma close_ok:
  assumes "rx_good x" "\<not> ctx_rxIsTerminating x"
  shows "rx_good (ctx_onRxClose Z code reason x)" "closing (ctx_onRxClose Z code reason x)"
    "rx_log (ctx_onRxClose Z code reason x) = rx_log x @ [EvClose (unat code) reason]"
proof -
  note live = rx_good_live [OF assms]
  have ok: "conn_ok True x" using assms(1) by (simp add: rx_good_def)
  obtain b y where y: "ctx_close True (uint code) reason x = (b, y)" by fastforce
  note closed = ctx_close_ok [OF ok y] ctx_close_fields [OF y]
  define y1 where "y1 = y\<lparr>close_received := True\<rparr>"
  have y1: "conn_ok True y1" "upgraded y1" "closing y1" "\<not> close_cb_fired y1" "cb_close y1" "rx_log y1 = rx_log x"
    using closed live by (simp_all add: y1_def conn_defs rx_log_def)
  have eq: "ctx_onRxClose Z code reason x = sendCloseCallback (uint code) reason (flushSendQueue Z y1)"
    using live y by (simp add: ctx_onRxClose_def Let_def ctx_close_received y1_def)
  note flushed = flushSendQueue_ok [OF y1(1), of Z] flush_closing [OF y1(3), of Z]
  have closing: "closing (flushSendQueue Z y1)" using flushed(3) y1(3) by (simp add: closing_def)
  show "rx_good (ctx_onRxClose Z code reason x)" "closing (ctx_onRxClose Z code reason x)"
    using flushed y1 closing unfolding eq rx_good_def by (simp_all add: closing_def)
  have "nat (uint code) = unat code" by simp
  then show "rx_log (ctx_onRxClose Z code reason x) = rx_log x @ [EvClose (unat code) reason]"
    using flushed y1 unfolding eq by (simp add: sendCloseCallback_log)
qed

lemma protocol_msg_view:
  "code \<in> {1002, 1007} \<Longrightarrow> rx_view (OnError PROTOCOL (protocol_msg code why)) = [EvError (unat code)]"
  by (auto simp: protocol_msg_def ascii_def)

lemma protocol_error_ok:
  assumes "rx_good x" "\<not> ctx_rxIsTerminating x" "code \<in> {1002, 1007}"
  shows "rx_good (ctx_onRxProtocolError code why x)" "closing (ctx_onRxProtocolError code why x)"
    "rx_log (ctx_onRxProtocolError code why x) = rx_log x @ [EvError (unat code)]"
proof -
  note live = rx_good_live [OF assms(1,2)]
  have ok: "conn_ok True x" using assms(1) by (simp add: rx_good_def)
  define e where "e = OnError PROTOCOL (protocol_msg code (ascii why))"
  obtain b y where y: "ctx_close True (uint code) (ascii why) x = (b, y)" by fastforce
  note closed = ctx_close_ok [OF ok y] ctx_close_fields [OF y]
  define y1 where "y1 = y\<lparr>protocol_failed := True, trace := trace x @ [e]\<rparr>"
  have y1: "conn_ok True y1" "upgraded y1" "closing y1" "rx_log y1 = rx_log x @ rx_view e"
    using closed live by (simp_all add: y1_def conn_defs rx_log_def e_def)
  have "sendError PROTOCOL (protocol_msg code (ascii why)) (x\<lparr>protocol_failed := True\<rparr>) =
      x\<lparr>protocol_failed := True, trace := trace x @ [e]\<rparr>"
    using live by (simp add: sendError_def emit_def e_def)
  then have eq: "ctx_onRxProtocolError code why x = requestSendFlush y1"
    using live y by (simp add: ctx_onRxProtocolError_def Let_def ctx_close_failed y1_def)
  show "rx_good (ctx_onRxProtocolError code why x)" "closing (ctx_onRxProtocolError code why x)"
    "rx_log (ctx_onRxProtocolError code why x) = rx_log x @ [EvError (unat code)]"
    using y1 protocol_msg_view [OF assms(3)] unfolding eq rx_good_def rx_log_def e_def
    by (simp_all add: closing_def)
qed

lemma deliver_live:
  assumes "rx_good x" "\<not> ctx_rxIsTerminating x"
  shows "ctx_onRxText m x = emit (OnMessage m) x" "ctx_onRxBinary m x = emit (OnBinary m) x"
    "rx_log (ctx_onRxPing Z p x) = rx_log x @ (if length p \<le> 125 then [EvPing p] else [])"
    "\<not> ctx_rxIsTerminating (emit e x)" "use_compression (emit e x) = use_compression x"
    "\<not> ctx_rxIsTerminating (ctx_onRxPing Z p x)" "use_compression (ctx_onRxPing Z p x) = use_compression x"
    "rx_log (emit e x) = rx_log x @ rx_view e"
  using assms(2) rx_good_live [OF assms]
  by (simp_all add: ctx_onRxText_def ctx_onRxBinary_def ctx_onRxPing_def rx_log_def
      ctx_rxIsTerminating_def emit_def is_control_frame_def)

interpretation ctx_endpoint: rx_endpoint "ctx_sinks Z" rx_good rx_log
proof (unfold_locales, goal_cases)
  case (1 c p c' m)
  then have "rx_good c" "\<not> ctx_rxIsTerminating c" by (simp_all add: ctx_sinks_def)
  then show ?case
    using 1(4) deliver_live(1,2,4,5) [of c] deliver_live(6,7) [of c Z p] deliver_ok [of c] ping_ok [of c Z p]
    by (auto simp: ctx_sinks_def)
next
  case (2 c close_code c' code reason why)
  then have "rx_good c" "\<not> ctx_rxIsTerminating c" by (simp_all add: ctx_sinks_def)
  then show ?case
    using 2(4) close_ok [of c Z code reason] protocol_error_ok [of c close_code why] 2(3)
    by (auto simp: ctx_sinks_def ctx_rxIsTerminating_def closing_def)
qed (simp_all add: ctx_sinks_def deliver_live close_ok protocol_error_ok)

section \<open>Reading and the steps\<close>

lemma sendError_not_supported:
  "conn_ok is_open x \<Longrightarrow> conn_ok is_open (sendError NOT_SUPPORTED msg x)" by simp

lemma setupCompression_ok:
  assumes "conn_ok is_open (ctx w)"
  shows "conn_ok is_open (ctx (setupCompression Z resp w))"
    "upgraded (ctx (setupCompression Z resp w)) = upgraded (ctx w)"
    "dead (setupCompression Z resp w) = dead w" "input (setupCompression Z resp w) = input w"
    "connection_state (ctx (setupCompression Z resp w)) = connection_state (ctx w)"
proof -
  have "conn_ok is_open (ctx (setupCompression Z resp w)) \<and>
    upgraded (ctx (setupCompression Z resp w)) = upgraded (ctx w) \<and>
    dead (setupCompression Z resp w) = dead w \<and> input (setupCompression Z resp w) = input w \<and>
    connection_state (ctx (setupCompression Z resp w)) = connection_state (ctx w)"
  proof (cases "negotiate (cfg_compression_requested (config (ctx w))) 6 resp")
    case (Some cfg)
    obtain ok r t where "initializeCompression Z cfg (rx w, tx (ctx w)) = (ok, r, t)" by (metis prod_cases3)
    then show ?thesis using assms Some by (simp add: setupCompression_def Let_def)
  qed (use assms in \<open>simp add: setupCompression_def\<close>)
  then show "conn_ok is_open (ctx (setupCompression Z resp w))"
    "upgraded (ctx (setupCompression Z resp w)) = upgraded (ctx w)"
    "dead (setupCompression Z resp w) = dead w" "input (setupCompression Z resp w) = input w"
    "connection_state (ctx (setupCompression Z resp w)) = connection_state (ctx w)" by simp_all
qed

lemma world_onData_ok:
  assumes "rx_good (ctx w)"
  shows "rx_good (ctx (world_onData Z w))"
proof (cases "onData Z (ctx_sinks Z) (input w) (rx w) (ctx w)")
  case (Some res)
  obtain threw rest r x where "res = (threw, rest, r, x)" by (metis prod_cases4)
  then show ?thesis using Some ctx_endpoint.onData_good [OF Some [unfolded \<open>res = _\<close>] assms]
    by (simp add: world_onData_def)
qed (use assms in \<open>simp add: world_onData_def\<close>)

text \<open>The connection opens: the state between the upgrade and the open callback.\<close>

lemma upgrade_ok:
  assumes "conn_ok False x" "\<not> upgraded x"
  shows "conn_ok False (x\<lparr>upgraded := True, connection_state := CONNECTED\<rparr>)"
  using assms by (auto simp: conn_defs)

lemma open_ok:
  assumes "conn_ok False x" "upgraded x"
  shows "rx_good ((if cb_open x then emit OnOpen x else x)\<lparr>timeout_event := False\<rparr>)"
  using assms by (simp add: rx_good_def emit_def conn_defs)

lemma handleRead_ok:
  assumes "conn_inv (ctx w)"
  shows "conn_inv (ctx (handleRead Z w))"
proof (cases "upgraded (ctx w)")
  case True
  then have "rx_good (ctx (world_onData Z w))" using assms by (intro world_onData_ok) (simp add: rx_good_def)
  then show ?thesis using True by (simp add: handleRead_def rx_good_def)
next
  case False
  define n where "n = headerBytes (input w)"
  define resp where "resp = take n (input w)"
  consider "handleRead Z w = w" | "handleRead Z w = w\<lparr>ctx := requestLoopExit True
                (sendError CONNECT_FAILED (ascii ''WebSocket upgrade failed'')
                  ((ctx w)\<lparr>connection_state := FAILED\<rparr>)), input := []\<rparr>"
    | "upgrade_accepted resp" "\<not> (length (input w) < 4 \<or> n = 0)"
  proof -
    consider "length (input w) < 4 \<or> n = 0" | "\<not> (length (input w) < 4 \<or> n = 0)" "\<not> upgrade_accepted resp"
      | "\<not> (length (input w) < 4 \<or> n = 0)" "upgrade_accepted resp" by blast
    then show thesis
    proof cases
      case 1
      then show ?thesis using False by (intro that(1)) (simp add: handleRead_def n_def)
    next
      case 2
      then show ?thesis using False by (intro that(2)) (simp add: handleRead_def n_def resp_def)
    next
      case 3
      then show ?thesis by (intro that(3))
    qed
  qed
  then show ?thesis
  proof cases
    case 2
    have "conn_ok False ((ctx w)\<lparr>connection_state := FAILED\<rparr>)"
      using assms False by (auto simp: conn_defs)
    then show ?thesis using False unfolding 2 by simp
  next
    case 3
    define w1 where "w1 = setupCompression Z resp w"
    define x1 where "x1 = flushSendQueue Z ((ctx w1)\<lparr>upgraded := True, connection_state := CONNECTED\<rparr>)"
    define w2 where "w2 = w1\<lparr>ctx := (if cb_open x1 then emit OnOpen x1 else x1)\<lparr>timeout_event := False\<rparr>,
      input := drop n (input w1)\<rparr>"
    have "conn_ok False (ctx w1)" "\<not> upgraded (ctx w1)"
      using setupCompression_ok [of False w Z resp] assms False by (simp_all add: w1_def)
    then have "conn_ok False x1" "upgraded x1"
      using flushSendQueue_ok [OF upgrade_ok, of "ctx w1" Z] by (simp_all add: x1_def)
    then have good: "rx_good (ctx w2)" using open_ok [of x1] by (simp add: w2_def)
    have "handleRead Z w = (if input w2 \<noteq> [] then world_onData Z w2 else w2)"
      unfolding handleRead_def Let_def w2_def x1_def w1_def resp_def n_def
      using False 3 by (simp add: n_def resp_def)
    then have "rx_good (ctx (handleRead Z w))" using good world_onData_ok [of w2 Z] by simp
    then show ?thesis by (simp add: rx_good_def)
  qed (use assms in simp)
qed

definition world_ok :: "('d, 'i) world \<Rightarrow> bool" where
  "world_ok w \<longleftrightarrow> conn_core (upgraded (ctx w)) (ctx w) \<and> (\<not> dead w \<longrightarrow> conn_inv (ctx w))"

lemma world_ok_intro: "conn_inv (ctx w) \<Longrightarrow> world_ok w"
  by (simp add: world_ok_def conn_ok_def)

lemma ws_started_ok: "ws_started w \<Longrightarrow> world_ok w"
  by (rule world_ok_intro) (simp add: ws_started_def conn_defs life_start_def)

lemma sendData_core:
  assumes "conn_core is_open x"
  shows "conn_core is_open (snd (sendData Z False data type x)) \<and>
    upgraded (snd (sendData Z False data type x)) = upgraded x"
  using assms
  by (simp add: sendData_def enqueue_def requestSendFlush_def conn_core_def not_le Suc_le_eq)

lemma ws_step_ok:
  assumes "world_ok w" "ws_step Z w w'"
  shows "world_ok w'"
  using assms(2)
proof cases
  case (api_send type on_event data)
  show ?thesis
  proof (cases "dead w")
    case True
    then show ?thesis using api_send assms(1) sendData_core [of "upgraded (ctx w)" "ctx w" Z data type]
      by (simp add: world_ok_def)
  next
    case False
    then show ?thesis using api_send assms(1) sendData_ok [of "upgraded (ctx w)" "ctx w" type Z on_event data]
      by (intro world_ok_intro) (auto simp: world_ok_def)
  qed
next
  case api_stop
  then show ?thesis using assms(1)
    by (simp add: world_ok_def ctx_stop_def conn_core_def requestWakeup_def)
next
  case (bytes_arrive bs)
  then show ?thesis using assms(1) handleRead_ok [of "w\<lparr>input := input w @ bs\<rparr>" Z]
    by (intro world_ok_intro) (simp add: world_ok_def)
next
  case (bev_event ev)
  then show ?thesis using assms(1) handleEvent_ok [of "upgraded (ctx w)" "ctx w" ev]
    by (intro world_ok_intro) (simp add: world_ok_def)
next
  case timeout_fires
  then show ?thesis using assms(1) timeoutCallback_ok [of "upgraded (ctx w)" "ctx w"]
    by (intro world_ok_intro) (simp add: world_ok_def)
next
  case ping_fires
  then show ?thesis using assms(1) sendPing_ok [of "upgraded (ctx w)" "ctx w" Z]
    by (intro world_ok_intro) (simp add: world_ok_def pingCallback_def)
next
  case close_timer_fires
  then have "conn_inv (ctx w)" using assms(1) by (simp add: world_ok_def)
  moreover from this close_timer_fires have "close_sent (ctx w)" by (simp add: conn_ok_def)
  moreover have "conn_ok is_open ((ctx w)\<lparr>close_timer_armed := False\<rparr>)" if "conn_ok is_open (ctx w)" for is_open
    using that by (simp add: conn_defs)
  ultimately show ?thesis using close_timer_fires closeTimerCb_ok [of "upgraded (ctx w)" "(ctx w)\<lparr>close_timer_armed := False\<rparr>"]
    by (intro world_ok_intro) simp
next
  case wakeup_runs
  then show ?thesis using assms(1) wakeupCallback_ok [of "upgraded (ctx w)" "(ctx w)\<lparr>wakeup_active := False\<rparr>" Z]
    by (intro world_ok_intro) (simp add: world_ok_def)
next
  case send_runs
  then show ?thesis using assms(1) sendCallback_ok [of "upgraded (ctx w)" "(ctx w)\<lparr>send_active := False\<rparr>" Z]
    by (intro world_ok_intro) (simp add: world_ok_def)
next
  case loop_ends
  then show ?thesis using assms(1)
    by (simp add: world_ok_def run_end_def cleanup_def conn_core_def)
qed

interpretation ws: transition_system ws_started "ws_step Z" world_ok
  by unfold_locales (fact ws_started_ok, rule ws_step_ok)

section \<open>What the automaton excludes\<close>

lemma life_after_close_frame:
  "life_run es l = Some l' \<Longrightarrow> close_frame l \<Longrightarrow>
     Sent type raw \<notin> set es \<and> OnMessage m \<notin> set es \<and> OnBinary m \<notin> set es"
  by (induction es l rule: life_run.induct)
    (auto split: bind_splits if_split_asm elim!: life_step.elims)

lemma life_after_close:
  "life_run es l = Some l' \<Longrightarrow> closed l \<Longrightarrow>
     OnClose code reason \<notin> set es \<and> OnMessage m \<notin> set es \<and> OnBinary m \<notin> set es"
  by (induction es l rule: life_run.induct)
    (auto split: bind_splits if_split_asm elim!: life_step.elims)

lemma life_opened: "life_run es l = Some l' \<Longrightarrow> opened l' \<longleftrightarrow> opened l \<or> OnOpen \<in> set es"
  by (induction es l rule: life_run.induct)
    (auto split: bind_splits if_split_asm elim!: life_step.elims)

lemma life_opened_once: "life_run es l = Some l' \<Longrightarrow> opened l \<Longrightarrow> OnOpen \<notin> set es"
  by (induction es l rule: life_run.induct)
    (auto split: bind_splits if_split_asm elim!: life_step.elims)

lemma life_closed: "life_run es l = Some l' \<Longrightarrow> closed l' \<longleftrightarrow> closed l \<or> (\<exists>code reason. OnClose code reason \<in> set es)"
  by (induction es l rule: life_run.induct)
    (auto split: bind_splits if_split_asm elim!: life_step.elims)

text \<open>A started event thread is an initial state of the transition system.\<close>

lemma run_setup_ws_started:
  assumes "run_setup E x = (True, x1)" "trace x = []" "out_buf x = []" "\<not> send_flush_pending x" "\<not> upgraded x" "\<not> close_sent x" "\<not> close_received x"
    "\<not> protocol_failed x" "\<not> close_cb_fired x" "\<not> close_timer_armed x"
    "length (send_queue x) \<le> MAX_QUEUE_SIZE" "\<forall>d. PClose d \<notin> set (send_queue x)"
    "cb_open x \<and> cb_error x \<and> cb_close x \<and> cb_message x \<and> cb_binary x"
  shows "ws_started \<lparr>rx = r, ctx = x1, input = [], dead = False\<rparr>"
proof -
  obtain x2 pe pd cfg s h where "x1 = x2\<lparr>connection_state := CONNECTING, base := True, dns_base := True, bev := True,
       wakeup_event := True, send_event := True, timeout_event := True,
       timeout_delay := cfg_connection_timeout (config x), ping_event := pe, ping_delay := pd, running := True\<rparr>"
    "x2 = x\<lparr>config := cfg, sni := s, host_checked := h\<rparr>"
    by (rule run_setup_started [OF assms(1)])
  then show ?thesis using assms(2-) by (simp add: ws_started_def)
qed

end
