(* ===== verification/Lifecycle.thy ===== *)
theory Lifecycle
  imports Connection
begin

text \<open>
  The properties of a whole connection: what the trace of any run may contain, what a stretch of
  bytes from the server brings about, how the CLOSE handshake goes, and where the beginning and
  the end of a connection report something else than what happened.
\<close>

section \<open>A concrete connection\<close>

definition demo_cfg :: ws_config where
  "demo_cfg = \<lparr>cfg_host = ascii ''localhost'', cfg_port = 8080, cfg_uri = ascii ''/'', cfg_secure = False,
     cfg_is_ip_address = False, cfg_ping_interval = 0, cfg_connection_timeout = 5, cfg_headers = [],
     cfg_tls = \<lparr>certFile = [], keyFile = [], caFile = [], ciphers = [], disableHostnameValidation = False\<rparr>,
     cfg_compression_requested = False\<rparr>"

definition demo_env :: run_env where
  "demo_env = \<lparr>env_use_tls = False, env_ssl = \<lparr>ssl_ok = (\<lambda>_ _. True), ssl_error_string = (\<lambda>_. [])\<rparr>,
     env_verify_param = True, env_set_host = True, env_event_base = True, env_dns_base = True,
     env_bufferevent = True, env_wakeup = True, env_send = True, env_connect = True\<rparr>"

definition demo_ctx :: "unit ctx" where
  "demo_ctx = setOpenCallback True (setErrorCallback True (setCloseCallback True (setMessageCallback True
     (setBinaryCallback True (new_ctx stored_ext demo_cfg (ascii ''key'') [])))))"

definition demo_world :: "(unit, unit) world" where
  "demo_world = \<lparr>rx = WebSocketReceiver stored_ext, ctx = snd (run_setup demo_env demo_ctx), input = [], dead = False\<rparr>"

definition demo_response :: bytes where
  "demo_response = ascii ''HTTP/1.1 101'' @ CRLF @ ascii ''Sec-WebSocket-Accept:x'' @ CRLF @ CRLF"

definition demo_open :: "(unit, unit) world" where
  "demo_open = handleRead stored_ext (demo_world\<lparr>input := demo_response\<rparr>)"

lemmas demo_defs = demo_world_def demo_ctx_def run_setup_def run_tls_def run_events_def demo_env_def
  demo_cfg_def new_ctx_def setOpenCallback_def setErrorCallback_def setCloseCallback_def
  setMessageCallback_def setBinaryCallback_def

lemma ascii_Cons: "ascii (c # s) \<noteq> []"
  by (simp add: ascii_def)

lemma demo_started: "ws_started demo_world"
  by (simp add: demo_defs ws_started_def ascii_Cons)

lemma demo_headers: "headerBytes demo_response = 40" "length demo_response = 40" "upgrade_accepted demo_response"
  by code_simp+

lemma demo_open_eq:
  "demo_open = demo_world\<lparr>ctx := (ctx demo_world)\<lparr>connection_state := CONNECTED, upgraded := True,
    timeout_event := False, trace := [OnOpen]\<rparr>\<rparr>"
  by (simp add: demo_open_def handleRead_def demo_headers setupCompression_def negotiate_def
      flushSendQueue_def emit_def demo_defs ascii_Cons)

lemma demo_open_fields:
  "trace (ctx demo_open) = [OnOpen]" "upgraded (ctx demo_open)" "\<not> dead demo_open" "input demo_open = []"
  "\<not> use_compression (ctx demo_open)" "\<not> ctx_rxIsTerminating (ctx demo_open)"
  "rx demo_open = WebSocketReceiver stored_ext" "send_queue (ctx demo_open) = []"
  "send_event (ctx demo_open)" "\<not> send_flush_pending (ctx demo_open)"
  by (simp_all add: demo_open_eq demo_defs ascii_Cons ctx_rxIsTerminating_def)

lemma demo_open_reachable: "reachable ws_started (ws_step stored_ext) demo_open"
proof -
  have "input demo_world = []" "\<not> dead demo_world" using demo_started by (simp_all add: ws_started_def)
  then have "ws_step stored_ext demo_world demo_open"
    using bytes_arrive [of demo_world stored_ext demo_response] by (simp add: demo_open_def)
  then show ?thesis using reachable_init [of ws_started, OF demo_started] reachable_step by metis
qed

section \<open>Lemmas\<close>

lemma reachable_good:
  assumes "reachable ws_started (ws_step Z) w" "\<not> dead w" "upgraded (ctx w)"
  shows "rx_good (ctx w)"
  using ws.always [OF assms(1)] assms(2,3) by (simp add: world_ok_def rx_good_def)

lemma reachable_life:
  assumes "reachable ws_started (ws_step Z) w"
  shows "life_run (trace (ctx w)) life_start =
     Some \<lparr>opened = upgraded (ctx w), close_frame = close_sent (ctx w),
           closed = close_cb_fired (ctx w), failed = protocol_failed (ctx w)\<rparr>"
  using ws.always [OF assms] by (simp add: world_ok_def conn_core_def)

lemma life_split:
  assumes "life_run (xs @ e # ys) life_start = Some l"
  obtains l1 l2 where "life_run xs life_start = Some l1" "life_step e l1 = Some l2" "life_run ys l2 = Some l"
  using assms by (auto simp: life_run_append split: bind_splits)

text \<open>The application data in the queue is dropped once the connection is closing, and a queued
  CLOSE frame goes out.\<close>

lemma fold_data:
  "\<forall>d. PClose d \<notin> set ps \<Longrightarrow> fold (flushPending Z False) ps x = x"
proof (induction ps arbitrary: x)
  case (Cons p ps)
  then have "flushPending Z False p x = x" by (cases p) (auto simp: flushPending_def)
  then show ?case using Cons by simp
qed simp

lemma flush_close:
  assumes "send_queue x = ps @ [PClose d]" "\<forall>d. PClose d \<notin> set ps" "connection_state x = DISCONNECTING"
    "\<not> close_sent x" "bev x"
  shows "flushSendQueue Z x = armCloseTimer ((ctx_send Z d CLOSE (x\<lparr>send_queue := []\<rparr>))\<lparr>close_sent := True\<rparr>)"
  using assms fold_data [of ps Z "x\<lparr>send_queue := []\<rparr>"]
  by (simp add: flushSendQueue_def Let_def flushPending_def sendNow_def)

lemma headerBytes_append:
  assumes "headerBytes b = Suc n" shows "headerBytes (b @ c) = Suc n"
proof -
  let ?at = "\<lambda>b i. i + 3 < length b \<and> b ! i = (0x0D :: byte) \<and> b ! (i + 1) = 0x0A \<and> b ! (i + 2) = 0x0D \<and> b ! (i + 3) = 0x0A"
  obtain i where "List.find (?at b) [0..<length b] = Some i" "n = i + 3"
    using assms by (auto simp: headerBytes_def split: option.split_asm)
  then have i: "?at b i" "\<And>j. j < i \<Longrightarrow> \<not> ?at b j" by (auto simp: find_Some_iff)
  then have "?at (b @ c) i" "\<And>j. j < i \<Longrightarrow> \<not> ?at (b @ c) j" by (auto simp: nth_append)
  then have "List.find (?at (b @ c)) [0..<length (b @ c)] = Some i"
    unfolding find_Some_iff by (intro exI [of _ i]) (use i in simp)
  then show ?thesis using \<open>n = i + 3\<close> by (simp add: headerBytes_def)
qed

lemma mem16_load16:
  assumes "length bs = 2" shows "mem16 (load16 bs) = bs"
proof -
  have bytes: "be_bytes 2 (be_val bs) = bs" using be_bytes_val [of bs] assms by simp
  then have "load16 bs = htons (word_of_nat (be_val bs))"
    using mem16_htons [of "be_val bs"] load16_mem16 by metis
  then show ?thesis using mem16_htons [of "be_val bs"] bytes by simp
qed

lemma parse_close_valid:
  assumes "parse_close payload = (False, code, reason)" "payload \<noteq> []"
  shows "mem16 (htons code) @ take 123 reason = payload"
proof -
  define n where "n = length payload"
  have "n \<noteq> 0" using assms(2) by (simp add: n_def)
  moreover have "\<not> 125 < n" "n \<noteq> 1" using assms(1) by (auto simp: parse_close_def n_def)
  ultimately have n: "2 \<le> n" "n \<le> 125" by simp_all
  have "code = ntohs (load16 (take 2 payload)) \<and> reason = drop 2 payload"
  proof (cases "n = 2")
    case True
    then show ?thesis using assms(1) by (simp add: parse_close_def n_def Let_def split: if_split_asm)
  next
    case False
    then show ?thesis using assms(1) n by (simp add: parse_close_def n_def Let_def split: if_split_asm)
  qed
  then show ?thesis using n mem16_load16 [of "take 2 payload"] by (simp add: n_def)
qed

lemma good_queue:
  assumes "rx_good x" "\<not> ctx_rxIsTerminating x"
  shows "\<forall>d. PClose d \<notin> set (send_queue x)"
proof -
  have "queue_ok x" using assms(1) by (simp add: rx_good_def conn_ok_def)
  then show ?thesis using rx_good_live(2) [OF assms] by (auto simp: queue_ok_def)
qed

lemma ctx_close_queues:
  assumes "rx_good x" "\<not> ctx_rxIsTerminating x" "length (send_queue x) < MAX_QUEUE_SIZE"
  shows "ctx_close on_event (uint code) reason x =
    (True, requestSendFlush (x\<lparr>connection_state := DISCONNECTING,
       send_queue := send_queue x @ [PClose (mem16 (htons code) @ take 123 reason)]\<rparr>))"
  using rx_good_live [OF assms(1,2)] assms(3) by (simp add: ctx_close_def Let_def)

lemma requestSendFlush_fields [simp]:
  "send_queue (requestSendFlush x) = send_queue x" "bev (requestSendFlush x) = bev x"
  "base (requestSendFlush x) = base x" "cb_close (requestSendFlush x) = cb_close x"
  "cb_error (requestSendFlush x) = cb_error x"
  by (simp_all add: requestSendFlush_def)

lemma close_frame_trace:
  assumes "length d \<le> 125"
  shows "trace (armCloseTimer ((ctx_send Z d CLOSE x)\<lparr>close_sent := True\<rparr>)) = trace x @ [Sent CLOSE d]"
    "close_cb_fired (armCloseTimer ((ctx_send Z d CLOSE x)\<lparr>close_sent := True\<rparr>)) = close_cb_fired x"
    "cb_close (armCloseTimer ((ctx_send Z d CLOSE x)\<lparr>close_sent := True\<rparr>)) = cb_close x"
    "close_sent (armCloseTimer ((ctx_send Z d CLOSE x)\<lparr>close_sent := True\<rparr>))"
    "send_queue (armCloseTimer ((ctx_send Z d CLOSE x)\<lparr>close_sent := True\<rparr>)) = send_queue x"
  by (rule ctx_send_shape [of Z d CLOSE x]; use assms in \<open>simp add: armCloseTimer_def is_control_frame_def\<close>)+

lemma onRxClose_trace:
  assumes "rx_good x" "\<not> ctx_rxIsTerminating x" "length (send_queue x) < MAX_QUEUE_SIZE"
  shows "trace (ctx_onRxClose Z code reason x) =
      trace x @ [Sent CLOSE (mem16 (htons code) @ take 123 reason), OnClose (uint code) reason]"
    and "close_sent (ctx_onRxClose Z code reason x)" and "send_queue (ctx_onRxClose Z code reason x) = []"
proof -
  note live = rx_good_live [OF assms(1,2)]
  define d where "d = mem16 (htons code) @ take 123 reason"
  have d: "length d \<le> 125" by (simp add: d_def mem16_def)
  define y where "y = (requestSendFlush (x\<lparr>connection_state := DISCONNECTING,
       send_queue := send_queue x @ [PClose d]\<rparr>))\<lparr>close_received := True\<rparr>"
  have "ctx_onRxClose Z code reason x = sendCloseCallback (uint code) reason (flushSendQueue Z y)"
    using live ctx_close_queues [OF assms, of True code reason]
    by (simp add: ctx_onRxClose_def Let_def ctx_close_received y_def d_def)
  moreover have "flushSendQueue Z y =
      armCloseTimer ((ctx_send Z d CLOSE (y\<lparr>send_queue := []\<rparr>))\<lparr>close_sent := True\<rparr>)"
    using good_queue [OF assms(1,2)] live by (intro flush_close) (simp_all add: y_def)
  moreover have "trace y = trace x" "\<not> close_cb_fired y" "cb_close y" using live by (simp_all add: y_def)
  ultimately show "trace (ctx_onRxClose Z code reason x) =
      trace x @ [Sent CLOSE (mem16 (htons code) @ take 123 reason), OnClose (uint code) reason]"
    "close_sent (ctx_onRxClose Z code reason x)" "send_queue (ctx_onRxClose Z code reason x) = []"
    using close_frame_trace [OF d, of Z "y\<lparr>send_queue := []\<rparr>"]
    by (simp_all add: sendCloseCallback_def emit_def d_def)
qed

text \<open>Reading on an open connection.\<close>

lemma handleRead_open: "upgraded (ctx w) \<Longrightarrow> handleRead Z w = world_onData Z w"
  by (simp add: handleRead_def)

lemma world_onData_stream:
  assumes "pullup_doc Z" "rx_good (ctx w)" "\<not> ctx_rxIsTerminating (ctx w)" "\<not> use_compression (ctx w)"
    "rx_assembling a (rx w)" "rfc_stream (input w) a = Some (evs, next_a)"
  shows "rx_log (ctx (world_onData Z w)) = rx_log (ctx w) @ evs \<and> dead (world_onData Z w) = dead w \<and>
    (case next_a of
       None \<Rightarrow> ctx_rxIsTerminating (ctx (world_onData Z w))
     | Some b \<Rightarrow> \<not> ctx_rxIsTerminating (ctx (world_onData Z w)) \<and> rx_assembling b (rx (world_onData Z w)))"
proof -
  have "\<not> rxIsTerminating (ctx_sinks Z) (ctx w)" "\<not> rxCompressionEnabled (ctx_sinks Z) (ctx w)"
    using assms(3,4) by (simp_all add: ctx_sinks_def)
  then obtain rest r x where "onData Z (ctx_sinks Z) (input w) (rx w) (ctx w) = Some (False, rest, r, x)"
    "rx_realises (ctx_sinks Z) rx_good rx_log (ctx w) (evs, next_a) r x"
    using ctx_endpoint.onData_realises [OF assms(1,6,2) _ _ assms(5), where Za = Z] by auto
  then show ?thesis
    by (auto simp: world_onData_def rx_realises_def ctx_sinks_def split: option.splits)
qed

lemma world_onData_append:
  assumes "pullup_doc Z" "rx_good (ctx w)" "\<not> dead (world_onData Z w)"
    "\<not> dead (world_onData Z (w\<lparr>input := input w @ later\<rparr>))"
  shows "world_onData Z (w\<lparr>input := input w @ later\<rparr>) =
    world_onData Z ((world_onData Z w)\<lparr>input := input (world_onData Z w) @ later\<rparr>)"
proof -
  obtain rest r x where first: "onData Z (ctx_sinks Z) (input w) (rx w) (ctx w) = Some (False, rest, r, x)" "\<not> dead w"
    using assms(3) by (auto simp: world_onData_def split: option.split_asm prod.split_asm)
  have all: "onData Z (ctx_sinks Z) (input w @ later) (rx w) (ctx w) = onData Z (ctx_sinks Z) (rest @ later) r x"
    using ctx_endpoint.onData_append [OF assms(1,2), where Za = Z, of "input w" later "rx w"] first by simp
  then obtain threw rest2 r2 x2 where "onData Z (ctx_sinks Z) (rest @ later) r x = Some (threw, rest2, r2, x2)"
    using assms(4) by (auto simp: world_onData_def split: option.split_asm)
  then show ?thesis using all first by (simp add: world_onData_def)
qed

section \<open>Properties\<close>

text \<open>C1: the automaton of the contract accepts the trace of every reachable connection, whatever
  the order of network input, timers, errors and calls of the user, and its state is the state of the
  object: opened is \<open>upgraded\<close>, the CLOSE frame is \<open>close_sent\<close>, closed is \<open>close_cb_fired\<close> and
  failed is \<open>protocol_failed\<close>.\<close>

theorem conforms_to_life:
  assumes "reachable ws_started (ws_step Z) w"
  shows "life_run (trace (ctx w)) life_start =
     Some \<lparr>opened = upgraded (ctx w), close_frame = close_sent (ctx w),
           closed = close_cb_fired (ctx w), failed = protocol_failed (ctx w)\<rparr>"
  by (rule reachable_life [OF assms])

theorem conforms_to_life_witness:
  "trace (ctx demo_open) = [OnOpen] \<and>
   life_run (trace (ctx demo_open)) life_start =
     Some \<lparr>opened = True, close_frame = close_sent (ctx demo_open),
           closed = close_cb_fired (ctx demo_open), failed = protocol_failed (ctx demo_open)\<rparr>"
  using conforms_to_life [OF demo_open_reachable] demo_open_fields by simp

text \<open>A connection on which the server has sent a CLOSE frame.\<close>

definition demo_closed :: "(unit, unit) world" where
  "demo_closed = handleRead stored_ext (demo_open\<lparr>input := [0x88, 0]\<rparr>)"

lemma demo_closed_reachable: "reachable ws_started (ws_step stored_ext) demo_closed"
  using bytes_arrive [of demo_open stored_ext "[0x88, 0]"] demo_open_fields
    reachable_step [OF demo_open_reachable] by (simp add: demo_closed_def)

lemma demo_closed_trace: "trace (ctx demo_closed) = [OnOpen] @ Sent CLOSE [0x03, 0xE8] # [OnClose 1000 []]"
proof -
  have good: "rx_good (ctx demo_open)"
    using reachable_good [OF demo_open_reachable] demo_open_fields by simp
  note closed = onRxClose_trace [OF good demo_open_fields(6), of stored_ext 1000 "[]"]
  have "ctx_rxIsTerminating (ctx_onRxClose stored_ext 1000 [] (ctx demo_open))"
    using close_ok(2) [OF good demo_open_fields(6)] by (auto simp: closing_def ctx_rxIsTerminating_def)
  then have "ctx demo_closed = ctx_onRxClose stored_ext 1000 [] (ctx demo_open)"
    using demo_open_fields
    by (simp add: demo_closed_def handleRead_open world_onData_def onData.simps onData_step_def rx_header_def
        ctx_sinks_def stored_ext_def rx_dispatch_def handleCloseFrame_def parse_close_def Let_def)
  then show ?thesis using closed demo_open_fields
    by (simp add: MAX_QUEUE_SIZE_def mem16_def htons_def)
qed

text \<open>C4: after a CLOSE frame, no frame of any type is sent and no message is delivered (RFC 6455,
  5.5.1), in any run.\<close>

theorem silent_after_close_frame:
  assumes "reachable ws_started (ws_step Z) w" "trace (ctx w) = xs @ Sent CLOSE p # ys"
  shows "Sent type q \<notin> set ys \<and> OnMessage m \<notin> set ys \<and> OnBinary m \<notin> set ys"
proof -
  obtain l1 l2 l where "life_step (Sent CLOSE p) l1 = Some l2" "life_run ys l2 = Some l"
    using reachable_life [OF assms(1)] life_split [of xs "Sent CLOSE p" ys] unfolding assms(2) by metis
  then show ?thesis using life_after_close_frame [of ys l2 l] by (auto split: if_split_asm)
qed

theorem silent_after_close_frame_witness:
  "\<forall>q m. Sent TEXT q \<notin> set [OnClose 1000 []] \<and> OnMessage m \<notin> set [OnClose 1000 []] \<and>
     OnBinary m \<notin> set [OnClose 1000 []]"
  by (intro allI) (rule silent_after_close_frame [OF demo_closed_reachable demo_closed_trace])

text \<open>The close callback is made at most once, and no message is delivered after it.\<close>

theorem close_reported_once:
  assumes "reachable ws_started (ws_step Z) w" "trace (ctx w) = xs @ OnClose code reason # ys"
  shows "OnClose code' reason' \<notin> set ys \<and> OnMessage m \<notin> set ys \<and> OnBinary m \<notin> set ys"
proof -
  obtain l1 l2 l where "life_step (OnClose code reason) l1 = Some l2" "life_run ys l2 = Some l"
    using reachable_life [OF assms(1)] life_split [of xs "OnClose code reason" ys] unfolding assms(2) by metis
  then show ?thesis using life_after_close [of ys l2 l] by (auto split: if_split_asm)
qed

theorem close_reported_once_witness:
  "\<forall>code reason m. OnClose code reason \<notin> set [] \<and> OnMessage m \<notin> set [] \<and> OnBinary m \<notin> set []"
  by (intro allI, rule close_reported_once [of stored_ext demo_closed "[OnOpen, Sent CLOSE [0x03, 0xE8]]" 1000 "[]" "[]"])
    (simp_all add: demo_closed_reachable demo_closed_trace)

text \<open>A message is delivered only after the open callback, which is made only once.\<close>

theorem open_before_messages:
  assumes "reachable ws_started (ws_step Z) w" "trace (ctx w) = xs @ e # ys" "rx_view e \<in> {[EvText m], [EvBinary m]}"
  shows "OnOpen \<in> set xs \<and> OnOpen \<notin> set ys"
proof -
  obtain l1 l2 l where steps: "life_run xs life_start = Some l1" "life_step e l1 = Some l2" "life_run ys l2 = Some l"
    using reachable_life [OF assms(1)] life_split [of xs e ys] unfolding assms(2) by metis
  have "opened l1" "opened l2" using steps(2) assms(3) by (cases e; auto split: if_split_asm)+
  moreover have "OnOpen \<notin> set es" if "life_run es l2 = Some l" "opened l2" for es l2 l
    using that by (induction es l2 rule: life_run.induct) (auto split: bind_splits if_split_asm elim!: life_step.elims)
  ultimately show ?thesis using steps life_opened [OF steps(1)] by (auto simp: life_start_def)
qed

text \<open>A connection that has received a text frame.\<close>

definition demo_text :: "(unit, unit) world" where
  "demo_text = handleRead stored_ext (demo_open\<lparr>input := [0x81, 1, 0x61]\<rparr>)"

lemma demo_text_reachable: "reachable ws_started (ws_step stored_ext) demo_text"
  using bytes_arrive [of demo_open stored_ext "[0x81, 1, 0x61]"] demo_open_fields
    reachable_step [OF demo_open_reachable] by (simp add: demo_text_def)

lemma demo_text_trace: "trace (ctx demo_text) = [OnOpen] @ OnMessage [0x61] # []"
proof -
  have good: "rx_good (ctx demo_open)"
    using reachable_good [OF demo_open_reachable] demo_open_fields by simp
  have "\<not> ctx_rxIsTerminating (ctx_onRxText [0x61] (ctx demo_open))"
    using deliver_live(1,4) [OF good demo_open_fields(6)] by simp
  moreover have "ctx_onRxText [0x61] (ctx demo_open) = emit (OnMessage [0x61]) (ctx demo_open)"
    using deliver_live(1) [OF good demo_open_fields(6)] by simp
  moreover have "validateChunk [0x61] Utf8Validator = (True, Utf8Validator)" "validateFinal Utf8Validator"
    by code_simp+
  ultimately have "ctx demo_text = emit (OnMessage [0x61]) (ctx demo_open)"
    using demo_open_fields
    by (simp add: demo_text_def handleRead_open world_onData_def onData.simps onData_step_def rx_header_def
        ctx_sinks_def stored_ext_def rx_dispatch_def handleDataFrame_def WebSocketReceiver_def deliverSingle_def
        rx_validateChunk_def rx_reset_utf8_def Let_def)
  then show ?thesis using demo_open_fields by (simp add: emit_def)
qed

theorem open_before_messages_witness: "OnOpen \<in> set [OnOpen] \<and> OnOpen \<notin> set ([] :: ctx_event list)"
  by (rule open_before_messages [OF demo_text_reachable demo_text_trace, of "[0x61]"]) simp

text \<open>C14: the queue of outgoing messages never holds more than 1024 entries, in any run and also after
  the event thread has ended.\<close>

theorem send_queue_bounded:
  assumes "reachable ws_started (ws_step Z) w"
  shows "length (send_queue (ctx w)) \<le> 1024"
  using ws.always [OF assms] by (simp add: world_ok_def conn_core_def MAX_QUEUE_SIZE_def)

theorem send_queue_bounded_witness: "length (send_queue (ctx demo_closed)) \<le> 1024"
  by (rule send_queue_bounded [OF demo_closed_reachable])

text \<open>C2: on an open, uncompressed connection the bytes of the server bring about exactly the events RFC
  6455 assigns to them: each message is delivered once and in order, each ping answered with a pong
  of the same payload, each close and each violation reported, and nothing after a close or a violation.
  The event loop survives, except on the frame lengths the RFC forbids.\<close>

theorem receives_stream:
  assumes "pullup_doc Z" "reachable ws_started (ws_step Z) w" "\<not> dead w" "upgraded (ctx w)"
    "\<not> ctx_rxIsTerminating (ctx w)" "\<not> use_compression (ctx w)" "rx_assembling a (rx w)"
    "rfc_stream (input w @ bs) a = Some (evs, next_a)"
  defines "w' \<equiv> handleRead Z (w\<lparr>input := input w @ bs\<rparr>)"
  shows "rx_log (ctx w') = rx_log (ctx w) @ evs \<and> \<not> dead w' \<and>
    (case next_a of
       None \<Rightarrow> ctx_rxIsTerminating (ctx w')
     | Some b \<Rightarrow> \<not> ctx_rxIsTerminating (ctx w') \<and> rx_assembling b (rx w'))"
proof -
  have "rx_good (ctx w)" by (rule reachable_good [OF assms(2-4)])
  then show ?thesis
    using world_onData_stream [of Z "w\<lparr>input := input w @ bs\<rparr>" a evs next_a] assms(1,3-8)
    by (simp add: handleRead_open w'_def split: option.splits)
qed

theorem receives_stream_witness:
  "rx_log (ctx (handleRead stored_ext (demo_open\<lparr>input := input demo_open @ [0x01, 1, 0x61, 0x89, 0, 0x80, 1, 0x62]\<rparr>)))
     = [EvPing [], EvText [0x61, 0x62]]"
proof -
  have "well_formed [0x61, 0x62]" "\<exists>ext. well_formed ([0x61] @ ext)"
    by (auto simp: well_formed_iff intro: exI [of _ "[]"])
  then have "rfc_stream [0x01, 1, 0x61, 0x89, 0, 0x80, 1, 0x62] Idle = Some ([EvPing [], EvText [0x61, 0x62]], Some Idle)"
    by (simp add: rfc_stream.simps rfc_server_frame_def rfc_server_length_def rfc_message_def rfc_fragment_def)
  then show ?thesis
    using receives_stream [OF stored_pullup_doc demo_open_reachable demo_open_fields(3,2,6,5), of Idle
        "[0x01, 1, 0x61, 0x89, 0, 0x80, 1, 0x62]"] demo_open_fields
    by (simp add: WebSocketReceiver_def rx_log_def)
qed

text \<open>C3: how TCP cuts the bytes of the server into segments does not matter: reading two pieces one
  after the other leaves the connection, its receiver and its buffer exactly as reading them at once.\<close>

theorem segmentation_irrelevant:
  assumes "pullup_doc Z" "reachable ws_started (ws_step Z) w" "\<not> dead w" "upgraded (ctx w)"
    "\<not> dead (handleRead Z (w\<lparr>input := input w @ bs\<rparr>))"
    "\<not> dead (handleRead Z (w\<lparr>input := input w @ bs @ bs'\<rparr>))"
  defines "w1 \<equiv> handleRead Z (w\<lparr>input := input w @ bs\<rparr>)"
  shows "handleRead Z (w\<lparr>input := input w @ bs @ bs'\<rparr>) = handleRead Z (w1\<lparr>input := input w1 @ bs'\<rparr>)"
proof -
  have good: "rx_good (ctx w)" by (rule reachable_good [OF assms(2-4)])
  then have up: "upgraded (ctx w1)"
    using world_onData_ok [of "w\<lparr>input := input w @ bs\<rparr>" Z] assms(4)
    by (simp add: w1_def handleRead_open rx_good_def)
  have "world_onData Z (w\<lparr>input := (input w @ bs) @ bs'\<rparr>) =
    world_onData Z ((world_onData Z (w\<lparr>input := input w @ bs\<rparr>))\<lparr>input :=
      input (world_onData Z (w\<lparr>input := input w @ bs\<rparr>)) @ bs'\<rparr>)"
    using world_onData_append [OF assms(1), of "w\<lparr>input := input w @ bs\<rparr>" bs'] good assms(4-6)
    by (simp add: handleRead_open)
  then show ?thesis using assms(4) up by (simp add: handleRead_open w1_def)
qed

theorem segmentation_irrelevant_witness:
  "handleRead stored_ext (demo_open\<lparr>input := input demo_open @ [0x81] @ [1, 0x61]\<rparr>) =
   handleRead stored_ext ((handleRead stored_ext (demo_open\<lparr>input := input demo_open @ [0x81]\<rparr>))\<lparr>input :=
     input (handleRead stored_ext (demo_open\<lparr>input := input demo_open @ [0x81]\<rparr>)) @ [1, 0x61]\<rparr>)"
proof -
  have good: "rx_good (ctx demo_open)"
    using reachable_good [OF demo_open_reachable] demo_open_fields by simp
  have alive: "\<not> dead (handleRead stored_ext (demo_open\<lparr>input := bs\<rparr>))"
    if "rfc_stream bs Idle = Some (evs, next_a)" for bs evs next_a
    using world_onData_stream [OF stored_pullup_doc, of "demo_open\<lparr>input := bs\<rparr>" Idle evs next_a] that good demo_open_fields
    by (simp add: handleRead_open WebSocketReceiver_def)
  have "well_formed [0x61]" by (simp add: well_formed_iff)
  then have "rfc_stream [0x81, 1, 0x61] Idle = Some ([EvText [0x61]], Some Idle)" "rfc_stream [0x81] Idle = Some ([], Some Idle)"
    by (simp_all add: rfc_stream.simps rfc_server_frame_def rfc_server_length_def rfc_message_def rfc_fragment_def)
  then show ?thesis
    using segmentation_irrelevant [OF stored_pullup_doc demo_open_reachable demo_open_fields(3,2), of "[0x81]" "[1, 0x61]"]
      alive demo_open_fields by simp
qed

text \<open>What the answer to a CLOSE frame carries: 1002 for an invalid frame, 1000 for an empty one, and the payload itself for
  any other.\<close>

definition close_answer :: "bytes \<Rightarrow> bytes" where
  "close_answer payload =
     (if fst (parse_close payload) then [0x03, 0xEA] else if payload = [] then [0x03, 0xE8] else payload)"

lemma close_answer_sent:
  assumes "parse_close payload = (invalid, code, reason)"
  shows "mem16 (htons (if invalid then 1002 else code)) @ take 123 (if invalid then [] else reason) = close_answer payload"
proof -
  consider "invalid" | "\<not> invalid" "payload = []" | "\<not> invalid" "payload \<noteq> []" by blast
  then show ?thesis
  proof cases
    case 3
    then show ?thesis using parse_close_valid [of payload code reason] assms by (simp add: close_answer_def)
  qed (use assms in \<open>auto simp: close_answer_def mem16_def htons_def parse_close_def\<close>)
qed

text \<open>The queue is emptied; where it is full, the CLOSE frame is dropped and the event loop left.\<close>

lemma ctx_close_full:
  assumes "rx_good x" "\<not> ctx_rxIsTerminating x" "MAX_QUEUE_SIZE \<le> length (send_queue x)"
  shows "ctx_close True code reason (x\<lparr>close_received := True\<rparr>) =
    (False, x\<lparr>close_received := True, connection_state := DISCONNECTING, stop_requested := True, loop_exit := True\<rparr>)"
proof -
  have "base x" using assms(1) by (simp add: rx_good_def conn_ok_def)
  then show ?thesis using rx_good_live [OF assms(1,2)] assms(3) by (simp add: ctx_close_def requestLoopExit_def Let_def)
qed

lemma flush_drops:
  assumes "\<forall>d. PClose d \<notin> set (send_queue x)" "connection_state x = DISCONNECTING"
  shows "flushSendQueue Z x = x\<lparr>send_queue := []\<rparr>"
  using assms fold_data [of "send_queue x" Z "x\<lparr>send_queue := []\<rparr>"] by (simp add: flushSendQueue_def Let_def)

lemma onRxClose_full:
  assumes "rx_good x" "\<not> ctx_rxIsTerminating x" "MAX_QUEUE_SIZE \<le> length (send_queue x)"
  shows "trace (ctx_onRxClose Z code reason x) = trace x @ [OnClose (uint code) reason]"
    "send_queue (ctx_onRxClose Z code reason x) = []" "loop_exit (ctx_onRxClose Z code reason x)"
proof -
  note live = rx_good_live [OF assms(1,2)]
  define y where "y = x\<lparr>close_received := True, connection_state := DISCONNECTING, stop_requested := True, loop_exit := True\<rparr>"
  have "flushSendQueue Z y = y\<lparr>send_queue := []\<rparr>"
    using good_queue [OF assms(1,2)] by (intro flush_drops) (simp_all add: y_def)
  then have "ctx_onRxClose Z code reason x = sendCloseCallback (uint code) reason (y\<lparr>send_queue := []\<rparr>)"
    using live(3) ctx_close_full [OF assms] by (simp add: ctx_onRxClose_def Let_def y_def)
  then show "trace (ctx_onRxClose Z code reason x) = trace x @ [OnClose (uint code) reason]"
    "send_queue (ctx_onRxClose Z code reason x) = []" "loop_exit (ctx_onRxClose Z code reason x)"
    using live by (simp_all add: sendCloseCallback_def emit_def y_def)
qed

text \<open>C15: every CLOSE frame of the server on an open connection ends it the same way: the queue is emptied, its application
  data dropped, one CLOSE frame is sent and the close callback gets the code and the reason. The answer echoes a valid
  payload; an empty frame is answered with 1000 and an invalid one, reported as such, with 1002. Only where the queue is full, with 1024
  messages, is no CLOSE frame sent: then the event loop is left at once.\<close>

theorem close_echo:
  assumes "reachable ws_started (ws_step Z) w" "\<not> dead w" "upgraded (ctx w)" "\<not> ctx_rxIsTerminating (ctx w)"
    "parse_close payload = (invalid, code, reason)"
  defines "y \<equiv> handleCloseFrame (ctx_sinks Z) payload (ctx w)"
  shows "trace y = trace (ctx w) @
      (if length (send_queue (ctx w)) < 1024
       then [Sent CLOSE (if invalid then [0x03, 0xEA] else if payload = [] then [0x03, 0xE8] else payload)] else []) @
      [OnClose (if invalid then 1002 else uint code) (if invalid then [] else reason)] \<and>
    send_queue y = [] \<and> (1024 \<le> length (send_queue (ctx w)) \<longrightarrow> loop_exit y)"
proof -
  have good: "rx_good (ctx w)" by (rule reachable_good [OF assms(1-3)])
  define c :: u16 where "c = (if invalid then 1002 else code)"
  define r where "r = (if invalid then [] else reason)"
  have y: "y = ctx_onRxClose Z c r (ctx w)"
    using assms(5) by (simp add: y_def handleCloseFrame_def ctx_sinks_def c_def r_def)
  have "mem16 (htons c) @ take 123 r = close_answer payload"
    using close_answer_sent [OF assms(5)] by (simp add: c_def r_def)
  moreover have "close_answer payload = (if invalid then [0x03, 0xEA] else if payload = [] then [0x03, 0xE8] else payload)"
    using assms(5) by (simp add: close_answer_def)
  moreover have "uint c = (if invalid then 1002 else uint code)" by (simp add: c_def)
  ultimately show ?thesis
    using onRxClose_trace [OF good assms(4), of Z c r] onRxClose_full [OF good assms(4), of Z c r]
    unfolding y r_def [symmetric] by (simp add: MAX_QUEUE_SIZE_def not_less)
qed

theorem close_echo_witness:
  "trace (handleCloseFrame (ctx_sinks stored_ext) [0x0F, 0xA0, 0x62, 0x79, 0x65] (ctx demo_open)) =
    [OnOpen, Sent CLOSE [0x0F, 0xA0, 0x62, 0x79, 0x65], OnClose 4000 [0x62, 0x79, 0x65]] \<and>
   trace (handleCloseFrame (ctx_sinks stored_ext) [] (ctx demo_open)) = [OnOpen, Sent CLOSE [0x03, 0xE8], OnClose 1000 []]"
proof -
  note echo = close_echo [OF demo_open_reachable demo_open_fields(3,2,6)]
  have "isValidUtf8 [0x62, 0x79, 0x65]" by code_simp
  then have "parse_close [0x0F, 0xA0, 0x62, 0x79, 0x65] = (False, 4000, [0x62, 0x79, 0x65])"
    by (simp add: parse_close_def load16_def htons_def valid_close_code_def Let_def)
  moreover have "parse_close [] = (False, 1000, [])" by (simp add: parse_close_def)
  ultimately show ?thesis
    using echo [of "[0x0F, 0xA0, 0x62, 0x79, 0x65]" False 4000 "[0x62, 0x79, 0x65]"] echo [of "[]" False 1000 "[]"]
      demo_open_fields by simp
qed

text \<open>C16: the first violation by the server is reported once, and the CLOSE frame with its code goes
  out in the next round of the event loop, before any application data, where the queue has room for it and no flush is
  requested already.\<close>

theorem protocol_error_closes:
  fixes why :: string
  assumes "reachable ws_started (ws_step Z) w" "\<not> dead w" "upgraded (ctx w)"
    "\<not> ctx_rxIsTerminating (ctx w)" "length (send_queue (ctx w)) < 1024"
    "send_event (ctx w)" "\<not> send_flush_pending (ctx w)" "code \<in> {1002, 1007}"
  defines "x \<equiv> ctx_onRxProtocolError code why (ctx w)"
  shows "send_active x \<and> trace (sendCallback Z x) = trace (ctx w) @
    [OnError PROTOCOL (protocol_msg code (ascii why)), Sent CLOSE (mem16 (htons code) @ take 123 (ascii why))]"
proof -
  have good: "rx_good (ctx w)" by (rule reachable_good [OF assms(1-3)])
  note live = rx_good_live [OF good assms(4)]
  define d where "d = mem16 (htons code) @ take 123 (ascii why)"
  have d: "length d \<le> 125" by (simp add: d_def mem16_def)
  define e where "e = OnError PROTOCOL (protocol_msg code (ascii why))"
  define y where "y = (ctx w)\<lparr>connection_state := DISCONNECTING,
    send_queue := send_queue (ctx w) @ [PClose d], send_flush_pending := True, send_active := True,
    protocol_failed := True, trace := trace (ctx w) @ [e]\<rparr>"
  have "sendError PROTOCOL (protocol_msg code (ascii why)) ((ctx w)\<lparr>protocol_failed := True\<rparr>) =
      (ctx w)\<lparr>protocol_failed := True, trace := trace (ctx w) @ [e]\<rparr>"
    using live by (simp add: sendError_def emit_def e_def)
  then have x: "x = y"
    using live ctx_close_queues [OF good assms(4), of True code "ascii why"] assms(5-7)
    by (simp add: x_def ctx_onRxProtocolError_def Let_def ctx_close_failed d_def y_def requestSendFlush_def
        MAX_QUEUE_SIZE_def)
  have "flushSendQueue Z y =
      armCloseTimer ((ctx_send Z d CLOSE (y\<lparr>send_queue := []\<rparr>))\<lparr>close_sent := True\<rparr>)"
    using good_queue [OF good assms(4)] live by (intro flush_close) (simp_all add: y_def)
  moreover have "base y" using good by (simp add: y_def rx_good_def conn_ok_def)
  ultimately show ?thesis
    using close_frame_trace(1) [OF d, of Z "y\<lparr>send_queue := []\<rparr>"]
    unfolding x by (simp add: sendCallback_def d_def e_def y_def)
qed

theorem protocol_error_closes_witness:
  "send_active (ctx_onRxProtocolError 1002 ''Unexpected RSV bits'' (ctx demo_open)) \<and>
   trace (sendCallback stored_ext (ctx_onRxProtocolError 1002 ''Unexpected RSV bits'' (ctx demo_open))) =
    trace (ctx demo_open) @ [OnError PROTOCOL (protocol_msg 1002 (ascii ''Unexpected RSV bits'')),
      Sent CLOSE (mem16 (htons 1002) @ take 123 (ascii ''Unexpected RSV bits''))]"
  by (rule protocol_error_closes [OF demo_open_reachable demo_open_fields(3,2,6)])
    (use demo_open_fields in simp_all)

text \<open>C17: bytes that arrive together with the response of the handshake are treated as if they arrived
  right after it: the same frames, callbacks and state.\<close>

theorem upgrade_then_frames:
  assumes "reachable ws_started (ws_step Z) w" "\<not> dead w" "\<not> upgraded (ctx w)" "bs \<noteq> []"
    "headerBytes resp = length resp" "resp \<noteq> []" "upgrade_accepted resp"
  shows "handleRead Z (w\<lparr>input := resp @ bs\<rparr>) = handleRead Z ((handleRead Z (w\<lparr>input := resp\<rparr>))\<lparr>input := bs\<rparr>)"
proof -
  have head: "headerBytes (resp @ bs) = length resp" "4 \<le> length resp"
    using headerBytes_append [of resp _ bs] headerBytes_least(2) [of resp] assms(5,6)
    by (cases "length resp"; simp)+
  have ok: "conn_ok False (ctx w)" using ws.always [OF assms(1)] assms(2,3) by (simp add: world_ok_def)
  define w1 where "w1 = setupCompression Z resp (w\<lparr>input := resp @ bs\<rparr>)"
  have w1: "setupCompression Z resp (w\<lparr>input := resp\<rparr>) = w1\<lparr>input := resp\<rparr>"
    by (simp add: w1_def setupCompression_def Let_def split: option.split prod.split)
  define x1 where "x1 = flushSendQueue Z ((ctx w1)\<lparr>upgraded := True, connection_state := CONNECTED\<rparr>)"
  define x2 where "x2 = (if cb_open x1 then emit OnOpen x1 else x1)\<lparr>timeout_event := False\<rparr>"
  have "conn_ok False (ctx w1)" "\<not> upgraded (ctx w1)" "input w1 = resp @ bs"
    using setupCompression_ok [of False "w\<lparr>input := resp @ bs\<rparr>" Z resp] ok assms(3) by (simp_all add: w1_def)
  moreover from this have "upgraded x2"
    using flushSendQueue_ok(2) [OF upgrade_ok, of "ctx w1" Z] by (simp add: x2_def x1_def emit_def)
  moreover have "handleRead Z (w\<lparr>input := resp\<rparr>) = w1\<lparr>ctx := x2, input := []\<rparr>"
    using head(2) assms(3,5,6,7) by (simp add: handleRead_def w1 x2_def x1_def)
  moreover have "handleRead Z (w\<lparr>input := resp @ bs\<rparr>) = world_onData Z (w1\<lparr>ctx := x2, input := bs\<rparr>)"
    using head assms(3,4,6,7) calculation(3) unfolding handleRead_def Let_def x2_def x1_def w1_def by simp
  ultimately show ?thesis by (simp add: handleRead_open)
qed

theorem upgrade_then_frames_witness:
  "handleRead stored_ext (demo_world\<lparr>input := demo_response @ [0x81, 1, 0x61]\<rparr>) =
   handleRead stored_ext ((handleRead stored_ext (demo_world\<lparr>input := demo_response\<rparr>))\<lparr>input := [0x81, 1, 0x61]\<rparr>)"
proof (rule upgrade_then_frames)
  show "reachable ws_started (ws_step stored_ext) demo_world"
    by (rule reachable_init [of ws_started, OF demo_started])
  show "\<not> dead demo_world" "\<not> upgraded (ctx demo_world)" using demo_started by (simp_all add: ws_started_def)
qed (use demo_headers in auto)

text \<open>A call of \<open>stop\<close> before the event thread has created its wake-up event is lost: the thread
  starts the connection attempt with the request set and nothing scheduled to act on it, so that the
  join in \<open>stop\<close> waits for the server or the connection timeout.\<close>

theorem early_stop_lost:
  assumes "\<not> wakeup_event x" "\<not> wakeup_active x" "\<not> loop_exit x" "run_setup E (ctx_stop x) = (True, x')"
  shows "stop_requested x' \<and> \<not> wakeup_active x' \<and> \<not> loop_exit x' \<and> isConnected x'"
proof -
  obtain x1 pe pd cfg s h where "x' = x1\<lparr>connection_state := CONNECTING, base := True, dns_base := True, bev := True,
       wakeup_event := True, send_event := True, timeout_event := True,
       timeout_delay := cfg_connection_timeout (config (ctx_stop x)), ping_event := pe, ping_delay := pd, running := True\<rparr>"
    "x1 = (ctx_stop x)\<lparr>config := cfg, sni := s, host_checked := h\<rparr>"
    by (rule run_setup_started [OF assms(4)])
  then show ?thesis using assms(1-3) by (simp add: ctx_stop_def requestWakeup_def isConnected_def)
qed

theorem early_stop_lost_witness:
  "stop_requested (snd (run_setup demo_env (ctx_stop demo_ctx))) \<and>
   \<not> wakeup_active (snd (run_setup demo_env (ctx_stop demo_ctx))) \<and>
   \<not> loop_exit (snd (run_setup demo_env (ctx_stop demo_ctx))) \<and>
   isConnected (snd (run_setup demo_env (ctx_stop demo_ctx)))"
proof (rule early_stop_lost)
  show "run_setup demo_env (ctx_stop demo_ctx) = (True, snd (run_setup demo_env (ctx_stop demo_ctx)))"
    by (simp add: demo_defs ascii_Cons ctx_stop_def requestWakeup_def)
qed (simp_all add: demo_defs)

text \<open>After a connection or handshake timeout the event thread ends, but the object still says
  \<open>isConnected\<close>, and \<open>sendData\<close> still accepts messages that nothing will ever send.\<close>

theorem timeout_stays_connected:
  assumes "connection_state x = CONNECTING" "length (send_queue x) < 1024" "type \<noteq> CLOSE"
  defines "x' \<equiv> run_end (timeoutCallback x)"
  shows "isConnected x' \<and> \<not> running x' \<and> \<not> bev x' \<and> fst (sendData Z False data type x')"
  using assms(1-3)
  by (simp add: x'_def timeoutCallback_def run_end_def cleanup_def isConnected_def sendData_def enqueue_def
      requestLoopExit_def requestWakeup_def MAX_QUEUE_SIZE_def Let_def)

theorem timeout_stays_connected_witness:
  "isConnected (run_end (timeoutCallback (ctx demo_world))) \<and> \<not> running (run_end (timeoutCallback (ctx demo_world))) \<and>
   \<not> bev (run_end (timeoutCallback (ctx demo_world))) \<and>
   fst (sendData stored_ext False [0x61] TEXT (run_end (timeoutCallback (ctx demo_world))))"
  by (rule timeout_stays_connected) (simp_all add: demo_defs ascii_Cons)

text \<open>A connection timeout of 0 is not "no timeout": the timer is armed with a delay of zero, so
  that it fires in the first round of the event loop and ends the attempt.\<close>

theorem zero_timeout_fires:
  assumes "cfg_connection_timeout (config x) = 0" "run_setup E x = (True, x')"
  shows "timeout_event x' \<and> timeout_delay x' = 0 \<and> loop_exit (timeoutCallback x')"
proof -
  obtain x1 pe pd cfg s h where "x' = x1\<lparr>connection_state := CONNECTING, base := True, dns_base := True, bev := True,
       wakeup_event := True, send_event := True, timeout_event := True,
       timeout_delay := cfg_connection_timeout (config x), ping_event := pe, ping_delay := pd, running := True\<rparr>"
    by (rule run_setup_started [OF assms(2)])
  then show ?thesis using assms(1)
    by (simp add: timeoutCallback_def requestLoopExit_def sendError_def emit_def Let_def)
qed

theorem zero_timeout_fires_witness:
  "timeout_event (snd (run_setup demo_env (demo_ctx\<lparr>config := demo_cfg\<lparr>cfg_connection_timeout := 0\<rparr>\<rparr>))) \<and>
   timeout_delay (snd (run_setup demo_env (demo_ctx\<lparr>config := demo_cfg\<lparr>cfg_connection_timeout := 0\<rparr>\<rparr>))) = 0 \<and>
   loop_exit (timeoutCallback (snd (run_setup demo_env (demo_ctx\<lparr>config := demo_cfg\<lparr>cfg_connection_timeout := 0\<rparr>\<rparr>))))"
proof (rule zero_timeout_fires)
  show "run_setup demo_env (demo_ctx\<lparr>config := demo_cfg\<lparr>cfg_connection_timeout := 0\<rparr>\<rparr>) =
    (True, snd (run_setup demo_env (demo_ctx\<lparr>config := demo_cfg\<lparr>cfg_connection_timeout := 0\<rparr>\<rparr>)))"
    by (simp add: demo_defs ascii_Cons)
qed simp

text \<open>What the flush of queued data sends.\<close>

definition pending_frame :: "Pending \<Rightarrow> ctx_event" where
  "pending_frame p = (case p of PText d \<Rightarrow> Sent TEXT d | PBinary d \<Rightarrow> Sent BINARY d | PClose d \<Rightarrow> Sent CLOSE d)"

lemma flush_data:
  assumes "\<forall>d. PClose d \<notin> set ps" "connection_state x = CONNECTED" "upgraded x" "bev x"
  shows "trace (fold (flushPending Z True) ps x) = trace x @ map pending_frame ps \<and>
    cb_open (fold (flushPending Z True) ps x) = cb_open x"
  using assms
proof (induction ps arbitrary: x)
  case (Cons p ps)
  have one: "bev (ctx_send Z raw type x) = bev x \<and> cb_open (ctx_send Z raw type x) = cb_open x" for raw type
    by (rule ctx_send_shape [of Z raw type x]) simp
  have p: "trace (flushPending Z True p x) = trace x @ [pending_frame p] \<and>
      connection_state (flushPending Z True p x) = CONNECTED \<and> upgraded (flushPending Z True p x) \<and>
      bev (flushPending Z True p x) \<and> cb_open (flushPending Z True p x) = cb_open x"
    using Cons.prems one
    by (cases p) (auto simp: flushPending_def sendNow_def pending_frame_def is_control_frame_def)
  have "trace (fold (flushPending Z True) ps (flushPending Z True p x)) =
      trace (flushPending Z True p x) @ map pending_frame ps \<and>
      cb_open (fold (flushPending Z True) ps (flushPending Z True p x)) = cb_open (flushPending Z True p x)"
    using p Cons.prems by (intro Cons.IH) auto
  then show ?case using p by simp
qed simp

text \<open>The upgrade, without compression.\<close>

lemma upgrade_flushes:
  assumes "reachable ws_started (ws_step Z) w" "\<not> dead w" "\<not> upgraded (ctx w)"
    "\<not> cfg_compression_requested (config (ctx w))"
    "headerBytes resp = length resp" "resp \<noteq> []" "upgrade_accepted resp"
  defines "x \<equiv> ctx (handleRead Z (w\<lparr>input := resp\<rparr>))"
  shows "trace x = trace (ctx w) @ map pending_frame (send_queue (ctx w)) @ [OnOpen]" "send_queue x = []"
    "connection_state x = CONNECTED" "upgraded x" "bev x"
proof -
  have ok: "conn_ok False (ctx w)" using ws.always [OF assms(1)] assms(2,3) by (simp add: world_ok_def)
  have len: "4 \<le> length resp" using headerBytes_least(2) [of resp] assms(5,6) by (cases "length resp") simp_all
  define x0 where "x0 = (ctx w)\<lparr>use_compression := False, upgraded := True, connection_state := CONNECTED\<rparr>"
  define x1 where "x1 = flushSendQueue Z x0"
  have q: "\<forall>d. PClose d \<notin> set (send_queue (ctx w))" "bev (ctx w)" "cb_open (ctx w)"
    using ok assms(3) by (auto simp: conn_ok_def queue_ok_def conn_core_def)
  have "trace x1 = trace (ctx w) @ map pending_frame (send_queue (ctx w)) \<and> cb_open x1"
    using flush_data [OF q(1), of "x0\<lparr>send_queue := []\<rparr>" Z] q by (simp add: x1_def x0_def flushSendQueue_def Let_def)
  moreover have "conn_ok False x0"
    using upgrade_ok [of "(ctx w)\<lparr>use_compression := False\<rparr>"] ok assms(3) by (simp add: x0_def)
  note flushed = flushSendQueue_ok [OF this, of Z]
  have "send_queue x1 = []" "connection_state x1 = CONNECTED" "upgraded x1" "bev x1"
    using flushed by (simp_all add: x1_def x0_def conn_ok_def)
  moreover have "setupCompression Z resp (w\<lparr>input := resp\<rparr>) = w\<lparr>input := resp, ctx := (ctx w)\<lparr>use_compression := False\<rparr>\<rparr>"
    using assms(4) by (simp add: setupCompression_def negotiate_def)
  then have "x = (if cb_open x1 then emit OnOpen x1 else x1)\<lparr>timeout_event := False\<rparr>"
    using len assms(3,5-7) by (simp add: x_def handleRead_def x1_def x0_def)
  ultimately show "trace x = trace (ctx w) @ map pending_frame (send_queue (ctx w)) @ [OnOpen]" "send_queue x = []"
    "connection_state x = CONNECTED" "upgraded x" "bev x"
    by (simp_all add: emit_def)
qed


text \<open>A connection on which the user sends before the server has answered.\<close>

definition demo_queued :: "(unit, unit) world" where
  "demo_queued = demo_world\<lparr>ctx := snd (sendData stored_ext False [0x61] TEXT (ctx demo_world))\<rparr>"


end
