(* ===== verification/Client.thy ===== *)
theory Client
  imports Lifecycle "HOL-Library.List_Lexorder"
begin

text \<open>
  WebSocketClient, the public face of the library, and the header container WebSocketHeaders: the
  URL parser, the settings, the sending calls and the owner of the connection object.
\<close>

section \<open>WebSocketHeaders\<close>

text \<open>The std::map as the list of its entries in the order of iteration. Strings compare by their
  octets, which is the order of the library on lists of words.\<close>

type_synonym headers = "(bytes \<times> bytes) list"

fun headers_set :: "bytes \<Rightarrow> bytes \<Rightarrow> headers \<Rightarrow> headers" where
  "headers_set k v [] = [(k, v)]"
| "headers_set k v ((k', v') # m) =
     (if k = k' then (k, v) # m else if k < k' then (k, v) # (k', v') # m
      else (k', v') # headers_set k v m)"

definition headers_remove :: "bytes \<Rightarrow> headers \<Rightarrow> headers" where
  "headers_remove k m = filter (\<lambda>e. fst e \<noteq> k) m"

definition headers_clear :: "headers \<Rightarrow> headers" where
  "headers_clear m = []"

definition headers_empty :: "headers \<Rightarrow> bool" where
  "headers_empty m \<longleftrightarrow> m = []"

definition headers_all :: "headers \<Rightarrow> headers" where
  "headers_all m = m"

section \<open>The client\<close>

record 'd client =
  cl_host :: bytes
  cl_port :: u16
  cl_uri :: bytes
  cl_secure :: bool
  cl_is_ip_address :: bool
  cl_ping_interval :: u32
  cl_connection_timeout :: u32
  cl_compression_requested :: bool
  cl_open :: bool
  cl_close :: bool
  cl_error :: bool
  cl_message :: bool
  cl_binary :: bool
  cl_ctx :: "'d ctx option"
  cl_headers :: headers
  cl_tls :: WebSocketTLSOptions

text \<open>The constructor leaves \<open>port\<close>, \<open>secure\<close> and \<open>is_ip_address\<close> uninitialised: they are parameters.\<close>

definition WebSocketClient :: "u16 \<Rightarrow> bool \<Rightarrow> bool \<Rightarrow> 'd client" where
  "WebSocketClient port sec ip = \<lparr>cl_host = [], cl_port = port, cl_uri = [], cl_secure = sec,
     cl_is_ip_address = ip, cl_ping_interval = 0, cl_connection_timeout = 1,
     cl_compression_requested = True, cl_open = False, cl_close = False, cl_error = False,
     cl_message = False, cl_binary = False, cl_ctx = None, cl_headers = [],
     cl_tls = \<lparr>certFile = [], keyFile = [], caFile = ascii ''SYSTEM'', ciphers = ascii ''DEFAULT'',
               disableHostnameValidation = False\<rparr>\<rparr>"

text \<open>\<open>inet_pton\<close> for IPv4 and IPv6 is a parameter: does it parse the C string?\<close>

definition isHostIPAddress :: "(bytes \<Rightarrow> bool) \<Rightarrow> (bytes \<Rightarrow> bool) \<Rightarrow> bytes \<Rightarrow> bool" where
  "isHostIPAddress pton4 pton6 host =
     (if pton4 (c_str host) then True
      else
        (let host_clean =
               (if length host \<ge> 2 \<and> host ! 0 = 0x5B \<and> host ! (length host - 1) = 0x5D
                then substr host 1 (length host - 2) else host)
         in pton6 (c_str host_clean)))"

definition setUrl :: "(bytes \<Rightarrow> bool) \<Rightarrow> (bytes \<Rightarrow> bool) \<Rightarrow> bytes \<Rightarrow> 'd client \<Rightarrow> 'd client" where
  "setUrl pton4 pton6 url c =
     (let ws_scheme = ascii ''ws://''; wss_scheme = ascii ''wss://'' in
      case (if take (length ws_scheme) url = ws_scheme then Some (False, length ws_scheme)
            else if take (length wss_scheme) url = wss_scheme then Some (True, length wss_scheme)
            else None) of
        None \<Rightarrow> c
      | Some (sec, pos) \<Rightarrow>
          (let c0 = c\<lparr>cl_secure := sec\<rparr>;
               path_pos = find_sub url (ascii ''/'') pos;
               hostport = (case path_pos of None \<Rightarrow> drop pos url | Some p \<Rightarrow> substr url pos (p - pos));
               parsed =
                 (case find_sub hostport (ascii '':'') 0 of
                    Some colon \<Rightarrow>
                      (let c1 = c0\<lparr>cl_host := substr hostport 0 colon\<rparr> in
                       case stoi (drop (colon + 1) hostport) of
                         None \<Rightarrow> (False, c1)
                       | Some n \<Rightarrow> (True, c1\<lparr>cl_port := word_of_int n\<rparr>))
                  | None \<Rightarrow> (True, c0\<lparr>cl_host := hostport, cl_port := (if sec then 443 else 80)\<rparr>))
           in case parsed of
                (False, c2) \<Rightarrow> c2
              | (True, c2) \<Rightarrow>
                  if cl_host c2 = [] then c2
                  else c2\<lparr>cl_uri := (case path_pos of None \<Rightarrow> ascii ''/'' | Some p \<Rightarrow> drop p url),
                          cl_is_ip_address := isHostIPAddress pton4 pton6 (cl_host c2)\<rparr>))"

definition setHeaders :: "headers \<Rightarrow> 'd client \<Rightarrow> 'd client" where
  "setHeaders h c = c\<lparr>cl_headers := h\<rparr>"

definition setTLSOptions :: "WebSocketTLSOptions \<Rightarrow> 'd client \<Rightarrow> 'd client" where
  "setTLSOptions opt c = c\<lparr>cl_tls := opt\<rparr>"

definition setPingInterval :: "int \<Rightarrow> 'd client \<Rightarrow> 'd client" where
  "setPingInterval interval c = c\<lparr>cl_ping_interval := word_of_int interval\<rparr>"

definition setConnectionTimeout :: "int \<Rightarrow> 'd client \<Rightarrow> 'd client" where
  "setConnectionTimeout timeout c = c\<lparr>cl_connection_timeout := word_of_int timeout\<rparr>"

definition enableCompression :: "bool \<Rightarrow> 'd client \<Rightarrow> 'd client" where
  "enableCompression enable c = c\<lparr>cl_compression_requested := enable\<rparr>"

text \<open>The callback setters pass the callback on to a connection that exists.\<close>

definition client_setOpenCallback :: "bool \<Rightarrow> 'd client \<Rightarrow> 'd client" where
  "client_setOpenCallback cb c = c\<lparr>cl_open := cb, cl_ctx := map_option (setOpenCallback cb) (cl_ctx c)\<rparr>"

definition client_setCloseCallback :: "bool \<Rightarrow> 'd client \<Rightarrow> 'd client" where
  "client_setCloseCallback cb c = c\<lparr>cl_close := cb, cl_ctx := map_option (setCloseCallback cb) (cl_ctx c)\<rparr>"

definition client_setErrorCallback :: "bool \<Rightarrow> 'd client \<Rightarrow> 'd client" where
  "client_setErrorCallback cb c = c\<lparr>cl_error := cb, cl_ctx := map_option (setErrorCallback cb) (cl_ctx c)\<rparr>"

definition client_setMessageCallback :: "bool \<Rightarrow> 'd client \<Rightarrow> 'd client" where
  "client_setMessageCallback cb c = c\<lparr>cl_message := cb, cl_ctx := map_option (setMessageCallback cb) (cl_ctx c)\<rparr>"

definition client_setBinaryCallback :: "bool \<Rightarrow> 'd client \<Rightarrow> 'd client" where
  "client_setBinaryCallback cb c = c\<lparr>cl_binary := cb, cl_ctx := map_option (setBinaryCallback cb) (cl_ctx c)\<rparr>"

definition client_isConnected :: "'d client \<Rightarrow> bool" where
  "client_isConnected c = (case cl_ctx c of None \<Rightarrow> False | Some x \<Rightarrow> isConnected x)"

definition client_send :: "('d, 'i) ext \<Rightarrow> bool \<Rightarrow> bytes \<Rightarrow> MessageType \<Rightarrow> 'd client \<Rightarrow> bool \<times> 'd client" where
  "client_send Z on_event data type c =
     (case cl_ctx c of
        None \<Rightarrow> (False, c)
      | Some x \<Rightarrow> apsnd (\<lambda>x1. c\<lparr>cl_ctx := Some x1\<rparr>) (sendData Z on_event data type x))"

definition sendMessage :: "('d, 'i) ext \<Rightarrow> bool \<Rightarrow> bytes \<Rightarrow> 'd client \<Rightarrow> bool \<times> 'd client" where
  "sendMessage Z on_event message c = client_send Z on_event message TEXT c"

definition sendBinary :: "('d, 'i) ext \<Rightarrow> bool \<Rightarrow> bytes \<Rightarrow> 'd client \<Rightarrow> bool \<times> 'd client" where
  "sendBinary Z on_event data c = client_send Z on_event data BINARY c"

definition client_config :: "'d client \<Rightarrow> ws_config" where
  "client_config c = \<lparr>cfg_host = cl_host c, cfg_port = cl_port c, cfg_uri = cl_uri c,
     cfg_secure = cl_secure c, cfg_is_ip_address = cl_is_ip_address c,
     cfg_ping_interval = cl_ping_interval c, cfg_connection_timeout = cl_connection_timeout c,
     cfg_headers = headers_all (cl_headers c), cfg_tls = cl_tls c,
     cfg_compression_requested = cl_compression_requested c\<rparr>"

text \<open>\<open>connect\<close>. The event thread, if it can be created (\<open>thread_ok\<close>), runs on its own; an
  exception of the constructor or of the creation of the thread is swallowed.\<close>

definition client_connect ::
    "('d, 'i) ext \<Rightarrow> (bytes \<Rightarrow> bytes) option \<Rightarrow> bytes \<Rightarrow> bool \<Rightarrow> 'd client \<Rightarrow> bool \<times> 'd client" where
  "client_connect Z openssl_SHA1 nonce thread_ok c =
     (if cl_ctx c \<noteq> None then (False, c)
      else
        (case WebSocketContext Z openssl_SHA1 nonce (client_config c) of
           None \<Rightarrow> (False, c)
         | Some x \<Rightarrow>
             (let x1 = (if cl_open c then setOpenCallback True x else x);
                  x2 = (if cl_close c then setCloseCallback True x1 else x1);
                  x3 = (if cl_error c then setErrorCallback True x2 else x2);
                  x4 = (if cl_message c then setMessageCallback True x3 else x3);
                  x5 = (if cl_binary c then setBinaryCallback True x4 else x4)
              in (thread_ok, c\<lparr>cl_ctx := Some x5\<rparr>))))"

text \<open>\<open>disconnect\<close> after the join: the connection is released.\<close>

definition client_disconnect :: "'d client \<Rightarrow> 'd client" where
  "client_disconnect c = (case cl_ctx c of None \<Rightarrow> c | Some x \<Rightarrow> c\<lparr>cl_ctx := None\<rparr>)"

section \<open>Lemmas\<close>

text \<open>Finding a single character that first occurs behind \<open>xs\<close>.\<close>

lemma find_char_Some:
  assumes "c \<notin> set xs"
  shows "find_sub (pre @ xs @ c # rest) [c] (length pre) = Some (length pre + length xs)"
proof -
  let ?s = "pre @ xs @ c # rest"
  have hit: "take 1 (drop (length pre + length xs) ?s) = [c]" by simp
  show ?thesis
  proof (cases "find_sub ?s [c] (length pre)")
    case None
    then have "\<forall>i. length pre \<le> i \<longrightarrow> i \<le> length ?s \<longrightarrow> take (length [c]) (drop i ?s) \<noteq> [c]"
      by (simp only: find_sub_None)
    then show ?thesis using hit by (auto dest: spec [of _ "length pre + length xs"])
  next
    case (Some i)
    note i = find_sub_Some [OF Some]
    have "i \<le> length pre + length xs"
    proof (rule ccontr)
      assume "\<not> i \<le> length pre + length xs"
      then show False using i(4) [of "length pre + length xs"] hit by simp
    qed
    moreover have "\<not> i < length pre + length xs"
    proof
      assume "i < length pre + length xs"
      then have "take 1 (drop i ?s) = [xs ! (i - length pre)]" "i - length pre < length xs"
        using i(1) by (simp_all add: take_Suc_conv_app_nth drop_append take_Cons' nth_append hd_drop_conv_nth take_Suc)
      then show False using i(3) assms by auto
    qed
    ultimately show ?thesis using Some by simp
  qed
qed

lemma find_char_None:
  assumes "c \<notin> set xs"
  shows "find_sub (pre @ xs) [c] (length pre) = None"
proof -
  have "take 1 (drop i (pre @ xs)) \<noteq> [c]" if "length pre \<le> i" for i
  proof
    assume "take 1 (drop i (pre @ xs)) = [c]"
    then have "c \<in> set (drop (i - length pre) xs)" using that by (metis drop_append drop_all append_Nil in_set_takeD list.set_intros(1))
    then show False using assms by (meson in_set_dropD)
  qed
  then show ?thesis by (simp add: find_sub_None)
qed

definition ws_prefix :: "bool \<Rightarrow> bytes" where
  "ws_prefix sec = (if sec then ascii ''wss://'' else ascii ''ws://'')"

text \<open>The part of \<open>setUrl\<close> behind the scheme.\<close>

lemma setUrl_split:
  assumes "0x2F \<notin> set hostport" "path = [] \<or> hd path = 0x2F"
  shows "find_sub (ws_prefix sec @ hostport @ path) (ascii ''/'') (length (ws_prefix sec)) =
      (if path = [] then None else Some (length (ws_prefix sec) + length hostport))"
proof (cases path)
  case Nil
  then show ?thesis using find_char_None [OF assms(1), of "ws_prefix sec"] by (simp add: ascii_def)
next
  case (Cons p rest)
  then show ?thesis using find_char_Some [OF assms(1), of "ws_prefix sec" rest] assms(2) by (simp add: ascii_def)
qed

lemma setUrl_prefix:
  "(if take (length (ascii ''ws://'')) (ws_prefix sec @ r) = ascii ''ws://'' then Some (False, length (ascii ''ws://''))
    else if take (length (ascii ''wss://'')) (ws_prefix sec @ r) = ascii ''wss://'' then Some (True, length (ascii ''wss://''))
    else None) = Some (sec, length (ws_prefix sec))"
  by (simp add: ws_prefix_def ascii_def)

lemma setUrl_behind_scheme:
  assumes "0x2F \<notin> set hostport" "path = [] \<or> hd path = 0x2F"
  shows "setUrl p4 p6 (ws_prefix sec @ hostport @ path) c =
    (case (case find_sub hostport (ascii '':'') 0 of
             Some colon \<Rightarrow>
               (case stoi (drop (colon + 1) hostport) of
                  None \<Rightarrow> (False, c\<lparr>cl_secure := sec, cl_host := take colon hostport\<rparr>)
                | Some n \<Rightarrow> (True, c\<lparr>cl_secure := sec, cl_host := take colon hostport, cl_port := word_of_int n\<rparr>))
           | None \<Rightarrow> (True, c\<lparr>cl_secure := sec, cl_host := hostport, cl_port := (if sec then 443 else 80)\<rparr>)) of
       (False, c2) \<Rightarrow> c2
     | (True, c2) \<Rightarrow>
         if cl_host c2 = [] then c2
         else c2\<lparr>cl_uri := (if path = [] then ascii ''/'' else path),
                 cl_is_ip_address := isHostIPAddress p4 p6 (cl_host c2)\<rparr>)"
proof -
  have hp: "(case find_sub (ws_prefix sec @ hostport @ path) (ascii ''/'') (length (ws_prefix sec)) of
      None \<Rightarrow> drop (length (ws_prefix sec)) (ws_prefix sec @ hostport @ path)
    | Some p \<Rightarrow> substr (ws_prefix sec @ hostport @ path) (length (ws_prefix sec)) (p - length (ws_prefix sec))) = hostport"
    unfolding setUrl_split [OF assms] by (simp add: substr_def)
  have up: "(case find_sub (ws_prefix sec @ hostport @ path) (ascii ''/'') (length (ws_prefix sec)) of
      None \<Rightarrow> ascii ''/'' | Some p \<Rightarrow> drop p (ws_prefix sec @ hostport @ path)) = (if path = [] then ascii ''/'' else path)"
    unfolding setUrl_split [OF assms] by simp
  show ?thesis
    unfolding setUrl_def Let_def setUrl_prefix option.case prod.case hp up
    by (simp add: substr_def split: option.split)
qed

text \<open>The connection object that \<open>connect\<close> creates.\<close>

definition with_callbacks :: "'d client \<Rightarrow> 'd ctx \<Rightarrow> 'd ctx" where
  "with_callbacks c x = x\<lparr>cb_open := cl_open c \<or> cb_open x, cb_close := cl_close c \<or> cb_close x,
     cb_error := cl_error c \<or> cb_error x, cb_message := cl_message c \<or> cb_message x,
     cb_binary := cl_binary c \<or> cb_binary x\<rparr>"

lemma client_connect_new:
  assumes "cl_ctx c = None" "length nonce = 16"
  shows "client_connect Z None nonce thread_ok c = (thread_ok, c\<lparr>cl_ctx := Some (with_callbacks c
    (new_ctx Z (client_config c) (ascii (rfc4648 False nonce))
      (ascii (rfc4648 False (digest_bytes (fips_sha1 (ascii (rfc4648 False nonce) @ WS_MAGIC)))))))\<rparr>)"
proof -
  have "getWebSocketKey nonce = Some (rfc4648 False nonce)"
    using base64_encode_rfc [of nonce False] assms(2) by (simp add: getWebSocketKey_def)
  then have "WebSocketContext Z None nonce (client_config c) = Some (new_ctx Z (client_config c) (ascii (rfc4648 False nonce))
      (ascii (rfc4648 False (digest_bytes (fips_sha1 (ascii (rfc4648 False nonce) @ WS_MAGIC))))))"
    by (simp add: WebSocketContext_def computeAccept_sha1)
  then show ?thesis using assms(1)
    by (simp add: client_connect_def Let_def with_callbacks_def setOpenCallback_def setCloseCallback_def
        setErrorCallback_def setMessageCallback_def setBinaryCallback_def new_ctx_def)
qed

lemma setUrl_parts:
  assumes "host \<noteq> []" "0x3A \<notin> set host" "0x2F \<notin> set host" "n < 2 ^ 31" "path = [] \<or> hd path = 0x2F"
  shows "setUrl p4 p6 (ws_prefix sec @ (host @ ascii '':'' @ nat_digits n) @ path) c =
    c\<lparr>cl_secure := sec, cl_host := host, cl_port := word_of_nat n,
      cl_uri := (if path = [] then ascii ''/'' else path), cl_is_ip_address := isHostIPAddress p4 p6 host\<rparr>"
proof -
  have "0x2F \<notin> set (nat_digits n)" using nat_digits_value [of n] by (auto simp: list_all_iff is_digit_def)
  then have hp: "0x2F \<notin> set (host @ ascii '':'' @ nat_digits n)" using assms(3) by (simp add: ascii_def)
  have "find_sub (host @ ascii '':'' @ nat_digits n) (ascii '':'') 0 = Some (length host)"
    using find_char_Some [OF assms(2), of "[]" "nat_digits n"] by (simp add: ascii_def)
  moreover have "stoi (nat_digits n) = Some (int n)" using stoi_nat_digits [OF assms(4), of "[]"] by simp
  moreover have "drop (length host + 1) (host @ ascii '':'' @ nat_digits n) = nat_digits n" by (simp add: ascii_def)
  ultimately show ?thesis using assms(1)
    unfolding setUrl_behind_scheme [OF hp assms(5)] by simp
qed

section \<open>Properties\<close>

text \<open>C39: a URL put together from a scheme, a host, a port and a path is taken apart again; the port is
  reduced to 16 bits without an error. A missing path becomes the root.\<close>

theorem setUrl_roundtrip:
  assumes "host \<noteq> []" "0x3A \<notin> set host" "0x2F \<notin> set host" "n < 2 ^ 31" "path = [] \<or> hd path = 0x2F"
  shows "setUrl p4 p6 (ws_prefix sec @ (host @ ascii '':'' @ nat_digits n) @ path) c =
    c\<lparr>cl_secure := sec, cl_host := host, cl_port := word_of_nat n,
      cl_uri := (if path = [] then ascii ''/'' else path), cl_is_ip_address := isHostIPAddress p4 p6 host\<rparr>"
  by (rule setUrl_parts [OF assms])

theorem setUrl_roundtrip_witness:
  "setUrl (\<lambda>_. False) (\<lambda>_. False) (ws_prefix True @ (ascii ''example.org'' @ ascii '':'' @ nat_digits 8443) @ ascii ''/chat'')
     (WebSocketClient 0 False False) =
   (WebSocketClient 0 False False)\<lparr>cl_secure := True, cl_host := ascii ''example.org'', cl_port := word_of_nat 8443,
      cl_uri := (if ascii ''/chat'' = [] then ascii ''/'' else ascii ''/chat''),
      cl_is_ip_address := isHostIPAddress (\<lambda>_. False) (\<lambda>_. False) (ascii ''example.org'')\<rparr>"
  by (rule setUrl_roundtrip) (simp_all add: ascii_def)

text \<open>An IPv6 literal is cut at its first colon: the host the client connects to is an opening bracket
  and the first group of the address, whatever follows, and the branch of \<open>isHostIPAddress\<close> for
  brackets never sees it.\<close>

theorem setUrl_ipv6_cut:
  assumes "0x3A \<notin> set a" "0x2F \<notin> set (a @ b)" "path = [] \<or> hd path = 0x2F"
  shows "cl_host (setUrl p4 p6 (ws_prefix sec @ (ascii ''['' @ a @ ascii '':'' @ b) @ path) c) = ascii ''['' @ a"
proof -
  have hp: "0x2F \<notin> set (ascii ''['' @ a @ ascii '':'' @ b)" using assms(2) by (simp add: ascii_def)
  have "0x3A \<notin> set (ascii ''['' @ a)" using assms(1) by (simp add: ascii_def)
  from find_char_Some [OF this, of "[]" b]
  have "find_sub (ascii ''['' @ a @ ascii '':'' @ b) (ascii '':'') 0 = Some (length (ascii ''['' @ a))"
    by (simp add: ascii_def)
  moreover have "take (length (ascii ''['' @ a)) (ascii ''['' @ a @ ascii '':'' @ b) = ascii ''['' @ a" by simp
  ultimately show ?thesis
    unfolding setUrl_behind_scheme [OF hp assms(3)] by (simp split: option.split)
qed

theorem setUrl_ipv6_cut_witness:
  "cl_host (setUrl (\<lambda>_. False) (\<lambda>_. True) (ws_prefix False @ (ascii ''['' @ [] @ ascii '':'' @ ascii '':1]:80'') @ ascii ''/'')
     (WebSocketClient 0 False False)) = ascii ''['' @ []"
  by (rule setUrl_ipv6_cut) (simp_all add: ascii_def)

text \<open>The header container is a finite map in strictly increasing order of the names, so that every
  header is sent once and names are looked up by their exact octets.\<close>

theorem headers_map:
  assumes "sorted_wrt (<) (map fst m)"
  shows "sorted_wrt (<) (map fst (headers_set k v m)) \<and> map_of (headers_set k v m) = (map_of m)(k \<mapsto> v) \<and>
    sorted_wrt (<) (map fst (headers_remove k m)) \<and> map_of (headers_remove k m) = (map_of m)(k := None)"
proof -
  have keys: "set (map fst (headers_set k v m)) = insert k (set (map fst m))"
    for k v :: bytes and m :: headers by (induction k v m rule: headers_set.induct) auto
  have "sorted_wrt (<) (map fst (headers_set k v m)) \<and> map_of (headers_set k v m) = (map_of m)(k \<mapsto> v)"
    using assms
  proof (induction k v m rule: headers_set.induct)
    case (2 k v k' v' m)
    have "k' < x" if "\<not> k < k'" "k \<noteq> k'" "x \<in> set (map fst (headers_set k v m))" "\<forall>y\<in>set (map fst m). k' < y" for x
      using that keys [of k v m] by auto
    then show ?case using 2 by (auto simp: fun_eq_iff simp flip: set_map)
  qed simp
  moreover have "sorted_wrt (<) (map fst (headers_remove k m))"
    using assms by (induction m) (auto simp: headers_remove_def)
  moreover have "map_of (headers_remove k m) = (map_of m)(k := None)"
    by (induction m) (auto simp: headers_remove_def fun_eq_iff)
  ultimately show ?thesis by blast
qed

theorem headers_map_witness:
  "map_of (headers_set [0x62] [1] (headers_set [0x61] [2] [])) = (map_of (headers_set [0x61] [2] []))([0x62] \<mapsto> [1])"
  using headers_map [of "headers_set [0x61] [2] []" "[0x62]" "[1]"] by simp

text \<open>\<open>connect\<close> takes over the settings: the object it creates has the host, port, path, security,
  timeouts, headers, TLS options and callbacks of the client, a fresh key, and the accept value RFC 6455
  prescribes for that key; it is not connected until its event thread runs.\<close>

theorem connect_takes_settings:
  assumes "cl_ctx c = None" "length nonce = 16" "client_connect Z None nonce True c = (started, c')"
  shows "\<exists>x. started \<and> cl_ctx c' = Some x \<and> config x = client_config c \<and> \<not> client_isConnected c' \<and>
    (cb_open x, cb_close x, cb_error x, cb_message x, cb_binary x)
      = (cl_open c, cl_close c, cl_error c, cl_message c, cl_binary c) \<and>
    ws_key x = ascii (rfc4648 False nonce) \<and>
    ws_accept x = ascii (rfc4648 False (digest_bytes (fips_sha1 (ws_key x @ WS_MAGIC))))"
  using assms(3) unfolding client_connect_new [OF assms(1,2)]
  by (auto simp: with_callbacks_def new_ctx_def client_isConnected_def isConnected_def)

text \<open>A client with a host and all its callbacks.\<close>

definition demo_client :: "unit client" where
  "demo_client = (WebSocketClient 80 False False)\<lparr>cl_host := ascii ''localhost'', cl_open := True,
     cl_close := True, cl_error := True, cl_message := True, cl_binary := True\<rparr>"

lemma demo_client: "cl_ctx demo_client = None"
  "cl_open demo_client \<and> cl_close demo_client \<and> cl_error demo_client \<and> cl_message demo_client \<and> cl_binary demo_client"
  by (simp_all add: demo_client_def WebSocketClient_def)

lemma demo_nonce: "length (replicate 16 (0::byte)) = 16"
  by simp

definition demo_connected :: "unit client" where
  "demo_connected = snd (client_connect stored_ext None (replicate 16 0) True demo_client)"

lemma demo_connected: "client_connect stored_ext None (replicate 16 0) True demo_client = (True, demo_connected)"
  unfolding demo_connected_def client_connect_new [OF demo_client(1) demo_nonce] by simp

theorem connect_takes_settings_witness:
  "\<exists>x. cl_ctx demo_connected = Some x \<and> config x = client_config demo_client \<and> \<not> client_isConnected demo_connected"
  using connect_takes_settings [OF demo_client(1) demo_nonce demo_connected] by blast

text \<open>Where the event thread cannot be created, \<open>connect\<close> keeps the connection object that was never
  started, so that the retry its comment promises does nothing.\<close>

theorem connect_no_retry:
  assumes "cl_ctx c = None" "length nonce = 16"
  shows "client_connect Z None nonce' True (snd (client_connect Z None nonce False c)) =
    (False, snd (client_connect Z None nonce False c))"
  unfolding client_connect_new [OF assms] by (simp add: client_connect_def)

theorem connect_no_retry_witness:
  "client_connect stored_ext None (replicate 16 1) True
     (snd (client_connect stored_ext None (replicate 16 0) False (WebSocketClient 80 False False))) =
   (False, snd (client_connect stored_ext None (replicate 16 0) False (WebSocketClient 80 False False)))"
  by (rule connect_no_retry) (simp_all add: WebSocketClient_def)

text \<open>The connection a client with all its callbacks starts is one of those the properties of a whole
  connection speak of: once the set-up of the event thread succeeds, the run starts in an initial state
  of the transition system.\<close>

theorem client_run_starts:
  assumes "cl_ctx c = None" "length nonce = 16" "client_connect Z None nonce True c = (True, c')"
    "cl_open c \<and> cl_close c \<and> cl_error c \<and> cl_message c \<and> cl_binary c"
    "cl_ctx c' = Some x" "run_setup E x = (True, x')"
  shows "ws_started \<lparr>rx = WebSocketReceiver Z, ctx = x', input = [], dead = False\<rparr>"
  using assms(3,4,5) unfolding client_connect_new [OF assms(1,2)]
  by (intro run_setup_ws_started [OF assms(6)]) (auto simp: with_callbacks_def new_ctx_def)

theorem client_run_starts_witness:
  "ws_started \<lparr>rx = WebSocketReceiver stored_ext,
     ctx = snd (run_setup demo_env (the (cl_ctx demo_connected))), input = [], dead = False\<rparr>"
proof (rule client_run_starts [OF demo_client(1) demo_nonce demo_connected demo_client(2)])
  show ctx: "cl_ctx demo_connected = Some (the (cl_ctx demo_connected))"
    unfolding demo_connected_def client_connect_new [OF demo_client(1) demo_nonce] by simp
  have "config (the (cl_ctx demo_connected)) = client_config demo_client" "\<not> running (the (cl_ctx demo_connected))"
    unfolding demo_connected_def client_connect_new [OF demo_client(1) demo_nonce]
    by (simp_all add: with_callbacks_def new_ctx_def)
  then show "run_setup demo_env (the (cl_ctx demo_connected)) =
      (True, snd (run_setup demo_env (the (cl_ctx demo_connected))))"
    by (simp add: run_setup_def run_tls_def run_events_def demo_env_def client_config_def demo_client_def
        WebSocketClient_def ascii_Cons Let_def)
qed

end
