(* ===== verification/Media.thy ===== *)
theory Media
  imports Client "HOL-Library.Signed_Division"
begin

text \<open>
  The per-call state of the FreeSWITCH module, \<open>private_t\<close>, and what the module relies on of the
  libraries around it: the byte buffers of FreeSWITCH and the Speex resampler are a record of
  functions, and \<open>buffer_doc\<close> and \<open>speex_doc\<close> state the documented behaviour of the two.
\<close>

section \<open>Faults\<close>

text \<open>Undefined behaviour the module runs into: a null pointer passed to \<open>switch_mutex_lock\<close>, to a
  buffer function, to strcmp or to the constructor of std::string; \<open>Unterminated\<close> is a character array read past
  its end for want of a NUL; \<open>NoReturn\<close> is a loop that does not end; \<open>IntOverflow\<close> is a result of
  an arithmetic operation on ints that does not fit the type.\<close>

datatype fault = NullMutex | NullBuffer | NullString | Unterminated | NoReturn | IntOverflow

section \<open>The libraries\<close>

text \<open>\<open>spx_init\<close> gets the channels, the input and the output rate and fails or returns a state.
  \<open>spx_process\<close> gets the channels, the input, its length in samples per channel, the room in the
  output in samples per channel and the state, and returns the bytes of the samples produced.\<close>

record ('b, 'r) sw =
  buf_create :: "nat \<Rightarrow> 'b option"
  buf_inuse :: "'b \<Rightarrow> nat"
  buf_freespace :: "'b \<Rightarrow> nat"
  buf_read :: "nat \<Rightarrow> 'b \<Rightarrow> bytes \<times> 'b"
  buf_write :: "bytes \<Rightarrow> 'b \<Rightarrow> 'b"
  buf_zero :: "'b \<Rightarrow> 'b"
  spx_init :: "u32 \<Rightarrow> u32 \<Rightarrow> u32 \<Rightarrow> 'r option"
  spx_process :: "nat \<Rightarrow> bytes \<Rightarrow> nat \<Rightarrow> nat \<Rightarrow> 'r \<Rightarrow> bytes \<times> 'r"
  spx_reset :: "'r \<Rightarrow> 'r"

text \<open>A buffer holds a queue of bytes up to a capacity: \<open>read\<close> removes from the front what there is of
  the length asked for, \<open>write\<close> appends what fits, \<open>zero\<close> removes everything.\<close>

definition buffer_doc :: "('b, 'r) sw \<Rightarrow> ('b \<Rightarrow> bytes) \<Rightarrow> ('b \<Rightarrow> nat) \<Rightarrow> bool" where
  "buffer_doc W content cap \<longleftrightarrow>
     (\<forall>b. buf_inuse W b = length (content b) \<and> buf_freespace W b + length (content b) = cap b) \<and>
     (\<forall>n b. fst (buf_read W n b) = take n (content b) \<and> content (snd (buf_read W n b)) = drop n (content b) \<and>
       cap (snd (buf_read W n b)) = cap b) \<and>
     (\<forall>d b. length d \<le> buf_freespace W b \<longrightarrow> content (buf_write W d b) = content b @ d) \<and>
     (\<forall>d b. cap (buf_write W d b) = cap b) \<and>
     (\<forall>b. content (buf_zero W b) = [] \<and> cap (buf_zero W b) = cap b) \<and>
     (\<forall>n b. buf_create W n = Some b \<longrightarrow> content b = [] \<and> cap b = n)"

definition speex_doc :: "('b, 'r) sw \<Rightarrow> bool" where
  "speex_doc W \<longleftrightarrow> (\<forall>ch d n out r. length (fst (spx_process W ch d n out r)) \<le> out * ch * 2)"

section \<open>private_t\<close>

text \<open>Pointers to buffers and resamplers are options, pointers to mutexes and to the shared pointer of
  the streamer are booleans (null or not); character arrays are their bytes.\<close>

record ('b, 'r) private_t =
  mutex :: bool
  sessionId :: bytes
  resampler :: "'r option"
  pAudioStreamer :: bool
  ws_uri :: bytes
  sampling :: int
  channels :: int
  audio_paused :: bool
  close_requested :: bool
  cleanup_started :: bool
  initialMetadata :: bytes
  sbuffer :: "'b option"
  rtp_packets :: int
  play_mutex :: bool
  play_buffer :: "'b option"
  dl_stash :: "'b option"
  dl_resampler :: "'r option"
  dl_rate :: int
  underruns :: u32
  replaced :: u32

definition MAX_SESSION_ID :: nat where "MAX_SESSION_ID = 256"

definition MAX_WS_URI :: nat where "MAX_WS_URI = 4096"

definition MAX_METADATA_LEN :: nat where "MAX_METADATA_LEN = 8192"

definition MAX_PLAY_BUFFER_MS :: nat where "MAX_PLAY_BUFFER_MS = 10000"

definition FRAME_SIZE_8000 :: int where "FRAME_SIZE_8000 = 320"

text \<open>\<open>memset(tech_pvt, 0, sizeof(private_t))\<close>.\<close>

definition zero_tech :: "('b, 'r) private_t" where
  "zero_tech = \<lparr>mutex = False, sessionId = replicate MAX_SESSION_ID 0, resampler = None, pAudioStreamer = False,
     ws_uri = replicate MAX_WS_URI 0, sampling = 0, channels = 0, audio_paused = False, close_requested = False,
     cleanup_started = False, initialMetadata = replicate MAX_METADATA_LEN 0, sbuffer = None, rtp_packets = 0,
     play_mutex = False, play_buffer = None, dl_stash = None, dl_resampler = None, dl_rate = 0,
     underruns = 0, replaced = 0\<rparr>"

text \<open>\<open>strncpy(dst, src, n)\<close> on the array \<open>dst\<close>: the C string and zeros up to \<open>n\<close> bytes; there is no NUL
  where the string has \<open>n\<close> characters or more.\<close>

definition strncpy :: "bytes \<Rightarrow> bytes \<Rightarrow> nat \<Rightarrow> bytes" where
  "strncpy dst src n =
     (let s = take n (c_str src) in s @ replicate (n - length s) 0 @ drop n dst)"

text \<open>The release of what \<open>private_t\<close> owns.\<close>

definition destroy_tech_pvt :: "('b, 'r) private_t \<Rightarrow> ('b, 'r) private_t" where
  "destroy_tech_pvt t = t\<lparr>resampler := None, dl_resampler := None, mutex := False, play_mutex := False\<rparr>"

section \<open>Facts\<close>

lemma length_strncpy: "n \<le> length dst \<Longrightarrow> length (strncpy dst src n) = length dst"
  by (simp add: strncpy_def Let_def)

lemma c_str_append_0 [simp]: "0 \<notin> set s \<Longrightarrow> c_str (s @ 0 # rest) = s"
  by (induction s) (auto simp: c_str_def)

lemma c_str_id: "0 \<notin> set s \<Longrightarrow> c_str s = s"
  unfolding c_str_def takeWhile_eq_all_conv by metis

lemma c_str_no_0: "0 \<notin> set (c_str s)"
  by (auto simp: c_str_def dest: set_takeWhileD)

text \<open>A string copied with room to spare reads back as it was.\<close>

lemma c_str_strncpy:
  assumes "length (c_str src) < n"
  shows "c_str (strncpy dst src n) = c_str src"
proof -
  obtain m where "n - length (c_str src) = Suc m" using assms by (metis Suc_diff_Suc)
  then have "strncpy dst src n = c_str src @ 0 # replicate m 0 @ drop n dst"
    using assms by (simp add: strncpy_def Let_def)
  then show ?thesis using c_str_no_0 by simp
qed

text \<open>What \<open>buffer_doc\<close> gives, one fact per operation.\<close>

lemma buffer_docD:
  assumes "buffer_doc W content cap"
  shows "buf_inuse W b = length (content b)" "buf_freespace W b = cap b - length (content b)"
    "length (content b) \<le> cap b"
    "fst (buf_read W n b) = take n (content b)" "content (snd (buf_read W n b)) = drop n (content b)"
    "cap (snd (buf_read W n b)) = cap b"
    "length (content b) + length d \<le> cap b \<Longrightarrow> content (buf_write W d b) = content b @ d"
    "cap (buf_write W d b) = cap b" "content (buf_zero W b) = []" "cap (buf_zero W b) = cap b"
    "buf_create W n = Some b \<Longrightarrow> content b = [] \<and> cap b = n"
proof -
  have sum: "buf_freespace W b + length (content b) = cap b" using assms by (simp add: buffer_doc_def)
  then show "buf_freespace W b = cap b - length (content b)" "length (content b) \<le> cap b" by arith+
  show "content (buf_write W d b) = content b @ d" if "length (content b) + length d \<le> cap b"
    using assms sum that unfolding buffer_doc_def by (metis add_le_cancel_left add.commute)
qed (use assms in \<open>simp_all add: buffer_doc_def\<close>)

section \<open>A library that keeps the documentation\<close>

text \<open>The buffer as the pair of its capacity and its bytes, and a resampler that passes on the bytes
  that fit: the instance the witnesses use.\<close>

definition clip :: "nat \<times> bytes \<Rightarrow> bytes" where
  "clip b = take (fst b) (snd b)"

definition list_sw :: "(nat \<times> bytes, unit) sw" where
  "list_sw = \<lparr>buf_create = (\<lambda>n. Some (n, [])), buf_inuse = (\<lambda>b. length (clip b)),
     buf_freespace = (\<lambda>b. fst b - length (clip b)),
     buf_read = (\<lambda>k b. (take k (clip b), (fst b, drop k (clip b)))),
     buf_write = (\<lambda>d b. (fst b, clip b @ take (fst b - length (clip b)) d)), buf_zero = (\<lambda>b. (fst b, [])),
     spx_init = (\<lambda>_ _ _. Some ()), spx_process = (\<lambda>ch d n k r. (take (k * ch * 2) d, r)), spx_reset = (\<lambda>r. r)\<rparr>"

lemma list_buffer_doc: "buffer_doc list_sw clip fst"
  by (auto simp: buffer_doc_def list_sw_def clip_def min_def)

end
