(* ===== verification/Playback.thy ===== *)
theory Playback
  imports Media
begin

text \<open>
  The downlink of the module: audio from the server goes into \<open>play_buffer\<close> (\<open>onBinary\<close>) and from
  there, resampled if need be, through \<open>dl_stash\<close> into the frames for the caller
  (\<open>stream_playback_frame\<close>); a clear message empties both. The specification is one queue of bytes.
\<close>

section \<open>Model\<close>

text \<open>The oldest audio is read away, in pieces of at most 4096 bytes, until there is room.\<close>

partial_function (option) drop_oldest :: "('b, 'r) sw \<Rightarrow> nat \<Rightarrow> 'b \<Rightarrow> 'b option" where
  "drop_oldest W len b =
     (if buf_freespace W b < len \<and> buf_inuse W b > 0
      then drop_oldest W len (snd (buf_read W (min 4096 (buf_inuse W b)) b))
      else Some b)"

definition onBinary :: "('b, 'r) sw \<Rightarrow> bytes \<Rightarrow> ('b, 'r) private_t \<Rightarrow> fault + ('b, 'r) private_t" where
  "onBinary W data t =
     (case play_buffer t of
        None \<Rightarrow> Inr t
      | Some b \<Rightarrow>
          if cleanup_started t then Inr t
          else if \<not> play_mutex t then Inl NullMutex
          else
            (case drop_oldest W (length data) b of
               None \<Rightarrow> Inl NoReturn
             | Some b1 \<Rightarrow>
                 Inr (t\<lparr>play_buffer := Some (if buf_freespace W b1 \<ge> length data then buf_write W data b1 else b1)\<rparr>)))"

definition clearPlayback :: "('b, 'r) sw \<Rightarrow> ('b, 'r) private_t \<Rightarrow> fault + ('b, 'r) private_t" where
  "clearPlayback W t =
     (if \<not> play_mutex t then Inl NullMutex
      else Inr (t\<lparr>play_buffer := map_option (buf_zero W) (play_buffer t),
                  dl_stash := map_option (buf_zero W) (dl_stash t),
                  dl_resampler := map_option (spx_reset W) (dl_resampler t)\<rparr>))"

text \<open>A frame of the channel: its bytes, rate and number of channels.\<close>

record switch_frame =
  fr_data :: bytes
  fr_rate :: u32
  fr_channels :: nat

text \<open>The resampler for the rate of the channel, when it is learned or has changed.\<close>

definition dl_learn :: "('b, 'r) sw \<Rightarrow> u32 \<Rightarrow> nat \<Rightarrow> 'b \<Rightarrow> ('b, 'r) private_t \<Rightarrow> ('b, 'r) private_t" where
  "dl_learn W rate ch stash t =
     (if dl_rate t \<noteq> sint rate then
        t\<lparr>dl_rate := sint rate, dl_stash := Some (buf_zero W stash),
          dl_resampler := (if sint rate \<noteq> sampling t
                           then spx_init W (word_of_nat ch) (word_of_int (sampling t)) rate else None)\<rparr>
      else t)"

text \<open>A piece of queued audio goes into the stash. The room for the output is computed in double
  precision, which is exact for the numbers that can occur; a resampler exists for positive rates only.\<close>

definition stash_in ::
    "('b, 'r) sw \<Rightarrow> nat \<Rightarrow> u32 \<Rightarrow> int \<Rightarrow> bytes \<Rightarrow> 'b \<Rightarrow> 'r option \<Rightarrow> 'b \<times> 'r option" where
  "stash_in W ch rate smp inb stash rs =
     (case rs of
        Some r \<Rightarrow>
          (let in_len = length inb div (ch * 2);
               out_len = (in_len * unat rate div nat smp + 64) mod 2 ^ 32
           in case spx_process W ch inb in_len out_len r of
                (out, r1) \<Rightarrow>
                  (if out \<noteq> [] \<and> length out \<le> buf_freespace W stash then buf_write W out stash else stash,
                   Some r1))
      | None \<Rightarrow>
          (if length inb \<le> buf_freespace W stash then buf_write W inb stash
           else buf_write W (take (buf_freespace W stash) inb) stash, None))"

partial_function (option) top_up ::
    "('b, 'r) sw \<Rightarrow> nat \<Rightarrow> u32 \<Rightarrow> int \<Rightarrow> nat \<Rightarrow> 'b \<Rightarrow> 'b \<Rightarrow> 'r option \<Rightarrow> ('b \<times> 'b \<times> 'r option) option" where
  "top_up W ch rate smp need play stash rs =
     (if \<not> buf_inuse W stash < need \<or> buf_inuse W play = 0 then Some (play, stash, rs)
      else
        (let inb = fst (buf_read W (min 4096 (buf_inuse W play)) play);
             play1 = snd (buf_read W (min 4096 (buf_inuse W play)) play)
         in if inb = [] then Some (play1, stash, rs)
            else
              (case stash_in W ch rate smp inb stash rs of
                 (stash1, rs1) \<Rightarrow>
                   if length inb < 4096 then Some (play1, stash1, rs1)
                   else top_up W ch rate smp need play1 stash1 rs1)))"

text \<open>The callback for a frame to the caller. \<open>play_buffer\<close> is created before \<open>dl_stash\<close>, so that one
  test stands for both.\<close>

definition stream_playback_frame ::
    "('b, 'r) sw \<Rightarrow> switch_frame option \<Rightarrow> ('b, 'r) private_t \<Rightarrow> fault + ('b, 'r) private_t \<times> switch_frame option" where
  "stream_playback_frame W fro t =
     (if cleanup_started t then Inr (t, fro)
      else
        (case fro of
           None \<Rightarrow> Inr (t, fro)
         | Some fr \<Rightarrow>
             if fr_data fr = [] \<or> fr_rate fr = 0 then Inr (t, fro)
             else
               (let need = length (fr_data fr); ch = (if fr_channels fr > 0 then fr_channels fr else 1) in
                if \<not> play_mutex t then Inl NullMutex
                else
                  (case (play_buffer t, dl_stash t) of
                     (Some play, Some stash) \<Rightarrow>
                       (let t1 = dl_learn W (fr_rate fr) ch stash t in
                        case top_up W ch (fr_rate fr) (sampling t1) need play (the (dl_stash t1)) (dl_resampler t1) of
                          None \<Rightarrow> Inl NoReturn
                        | Some (play1, stash1, rs1) \<Rightarrow>
                            (let t2 = t1\<lparr>play_buffer := Some play1, dl_stash := Some stash1, dl_resampler := rs1\<rparr> in
                             if buf_inuse W stash1 \<ge> need
                             then Inr (t2\<lparr>dl_stash := Some (snd (buf_read W need stash1)), replaced := replaced t2 + 1\<rparr>,
                                       Some (fr\<lparr>fr_data := fst (buf_read W need stash1)\<rparr>))
                             else Inr (t2\<lparr>underruns := underruns t2 + 1\<rparr>, fro)))
                   | _ \<Rightarrow> Inl NullBuffer))))"

section \<open>The loops\<close>

text \<open>Room is made by dropping whole pieces from the front, or everything.\<close>

lemma drop_oldest_spec:
  assumes doc: "buffer_doc W content cap"
  shows "\<exists>b' k. drop_oldest W len b = Some b' \<and> content b' = drop k (content b) \<and> cap b' = cap b \<and>
    (len \<le> cap b \<longrightarrow> len + length (content b') \<le> cap b) \<and>
    (cap b < len \<longrightarrow> content b' = []) \<and>
    (0 < k \<longrightarrow> k + cap b < len + length (content b) + 4096)"
proof (induction "length (content b)" arbitrary: b rule: less_induct)
  case less
  note d = buffer_docD [OF doc]
  show ?case
  proof (cases "buf_freespace W b < len \<and> buf_inuse W b > 0")
    case False
    then have "drop_oldest W len b = Some b" by (subst drop_oldest.simps) (simp only: False if_False)
    moreover have "len + length (content b) \<le> cap b" if "len \<le> cap b"
      using False that d(1,2,3) [of b] by auto
    moreover have "content b = []" if "cap b < len" using False that d(1,2,3) [of b] by auto
    ultimately show ?thesis by (intro exI [of _ b] exI [of _ 0]) simp
  next
    case True
    define n where "n = min 4096 (length (content b))"
    define b1 where "b1 = snd (buf_read W n b)"
    have n: "0 < n" "n \<le> length (content b)" "n \<le> 4096" using True d(1) [of b] by (simp_all add: n_def)
    have step: "drop_oldest W len b = drop_oldest W len b1"
      using True d(1) [of b] by (subst drop_oldest.simps) (simp add: b1_def n_def)
    have b1: "content b1 = drop n (content b)" "cap b1 = cap b" using d(5,6) [of n b] by (simp_all add: b1_def)
    then have "length (content b1) < length (content b)" using n by simp
    from less [OF this] obtain b' k where r: "drop_oldest W len b1 = Some b'" "content b' = drop k (content b1)"
      "cap b' = cap b" "len \<le> cap b \<longrightarrow> len + length (content b') \<le> cap b" "cap b < len \<longrightarrow> content b' = []"
      "0 < k \<longrightarrow> k + cap b < len + length (content b1) + 4096"
      unfolding b1(2) by blast
    have "cap b < len + length (content b)" using True d(1,2,3) [of b] by auto
    then have "n + k + cap b < len + length (content b) + 4096"
      using r(6) n b1(1) by (cases "k = 0") auto
    moreover have "content b' = drop (n + k) (content b)" using r(2) b1(1) by (simp add: add.commute)
    ultimately show ?thesis using r step by (intro exI [of _ b'] exI [of _ "n + k"]) simp
  qed
qed

text \<open>Without a resampler the loop moves bytes from the one buffer to the other.\<close>

lemma top_up_plain:
  assumes doc: "buffer_doc W content cap" and room: "need + 4096 \<le> cap stash"
  shows "\<exists>play' stash'. top_up W ch rate smp need play stash None = Some (play', stash', None) \<and>
    content stash' @ content play' = content stash @ content play \<and>
    cap stash' = cap stash \<and> cap play' = cap play \<and> (need \<le> length (content stash') \<or> content play' = [])"
  using room
proof (induction "length (content play)" arbitrary: play stash rule: less_induct)
  case less
  note d = buffer_docD [OF doc]
  show ?case
  proof (cases "\<not> buf_inuse W stash < need \<or> buf_inuse W play = 0")
    case True
    then have "top_up W ch rate smp need play stash None = Some (play, stash, None)"
      by (subst top_up.simps) simp
    then show ?thesis using True d(1) by auto
  next
    case False
    define n where "n = min 4096 (length (content play))"
    define inb where "inb = fst (buf_read W n play)"
    define play1 where "play1 = snd (buf_read W n play)"
    define stash1 where "stash1 = buf_write W inb stash"
    have inb: "inb = take n (content play)" "length inb = n" "inb \<noteq> []" "n \<le> 4096"
      using False d(1,4) by (auto simp: inb_def n_def)
    have play1: "content play1 = drop n (content play)" "cap play1 = cap play" using d(5,6) by (simp_all add: play1_def)
    have fits: "length (content stash) + length inb \<le> cap stash"
      using False less.prems inb d(1) [of stash] by simp
    then have stash1: "content stash1 = content stash @ inb" "cap stash1 = cap stash"
      using d(7,8) by (simp_all add: stash1_def)
    have same: "content stash1 @ content play1 = content stash @ content play"
      using stash1 play1 inb(1) by simp
    have "length inb \<le> buf_freespace W stash" using fits d(2) [of stash] by linarith
    then have "stash_in W ch rate smp inb stash None = (stash1, None)"
      by (simp add: stash_in_def stash1_def)
    moreover have "min 4096 (buf_inuse W play) = n" using d(1) by (simp add: n_def)
    ultimately have step: "top_up W ch rate smp need play stash None =
        (if n < 4096 then Some (play1, stash1, None) else top_up W ch rate smp need play1 stash1 None)"
      using inb(2,3) by (subst top_up.simps) (simp only: if_not_P [OF False] Let_def inb_def [symmetric]
          play1_def [symmetric] case_prod_conv if_False)
    show ?thesis
    proof (cases "n < 4096")
      case True
      then have "content play1 = []" using play1 by (simp add: n_def)
      then show ?thesis using step True same stash1 play1 by auto
    next
      case no_end: False
      have "0 < n" "n \<le> length (content play)" using inb(2,3) by (auto simp: n_def)
      then have "length (content play1) < length (content play)" using play1 by simp
      from less.hyps [OF this, of stash1] show ?thesis
        using less.prems step no_end same stash1(2) play1(2) by auto
    qed
  qed
qed

text \<open>The loop ends whatever the resampler does, and never takes more than a frame too much.\<close>

lemma top_up_returns:
  assumes doc: "buffer_doc W content cap"
  shows "\<exists>play' stash' rs'. top_up W ch rate smp need play stash rs = Some (play', stash', rs') \<and>
    cap stash' = cap stash \<and> cap play' = cap play \<and>
    (content stash = [] \<and> content play = [] \<longrightarrow> content stash' = [] \<and> content play' = [])"
proof (induction "length (content play)" arbitrary: play stash rs rule: less_induct)
  case less
  note d = buffer_docD [OF doc]
  show ?case
  proof (cases "\<not> buf_inuse W stash < need \<or> buf_inuse W play = 0")
    case True
    then have "top_up W ch rate smp need play stash rs = Some (play, stash, rs)"
      by (subst top_up.simps) simp
    then show ?thesis by auto
  next
    case False
    define n where "n = min 4096 (length (content play))"
    define inb where "inb = fst (buf_read W n play)"
    define play1 where "play1 = snd (buf_read W n play)"
    have inb: "length inb = n" "inb \<noteq> []" using False d(1,4) by (auto simp: inb_def n_def)
    obtain stash1 rs1 where s: "stash_in W ch rate smp inb stash rs = (stash1, rs1)" by (cases "stash_in W ch rate smp inb stash rs")
    have caps: "cap stash1 = cap stash" "cap play1 = cap play"
      using s d(6,8) by (auto simp: stash_in_def play1_def Let_def split: option.split_asm prod.split_asm if_split_asm)
    have "min 4096 (buf_inuse W play) = n" using d(1) by (simp add: n_def)
    then have step: "top_up W ch rate smp need play stash rs =
        (if n < 4096 then Some (play1, stash1, rs1) else top_up W ch rate smp need play1 stash1 rs1)"
      using inb s by (subst top_up.simps) (simp only: False Let_def inb_def [symmetric]
          play1_def [symmetric] case_prod_conv if_False)
    have "content play \<noteq> []" using False d(1) by simp
    moreover have "length (content play1) < length (content play)"
      using d(5) [of n play] calculation by (simp add: play1_def n_def)
    from less.hyps [OF this, of stash1 rs1] show ?thesis using step calculation caps by auto
  qed
qed

section \<open>The queue the caller hears\<close>

text \<open>What is still to be heard, in order.\<close>

definition dl_queue :: "('b \<Rightarrow> bytes) \<Rightarrow> ('b, 'r) private_t \<Rightarrow> bytes" where
  "dl_queue content t = content (the (dl_stash t)) @ content (the (play_buffer t))"

definition dl_ready :: "('b \<Rightarrow> bytes) \<Rightarrow> ('b, 'r) private_t \<Rightarrow> bool" where
  "dl_ready content t \<longleftrightarrow> \<not> cleanup_started t \<and> play_mutex t \<and> play_buffer t \<noteq> None \<and> dl_stash t \<noteq> None \<and>
     (if dl_rate t = sampling t then dl_resampler t = None else content (the (dl_stash t)) = [])"

text \<open>A frame at the rate of the stream.\<close>

definition plain_frame :: "int \<Rightarrow> nat \<Rightarrow> switch_frame \<Rightarrow> bool" where
  "plain_frame smp room fr \<longleftrightarrow> sint (fr_rate fr) = smp \<and> fr_rate fr \<noteq> 0 \<and> fr_data fr \<noteq> [] \<and>
     length (fr_data fr) + 4096 \<le> room"

lemma playback_step:
  assumes doc: "buffer_doc W content cap" and ready: "dl_ready content t"
    and fr: "plain_frame (sampling t) (cap (the (dl_stash t))) fr"
  defines "q \<equiv> dl_queue content t" and "n \<equiv> length (fr_data fr)"
  shows "\<exists>t'. stream_playback_frame W (Some fr) t =
      Inr (t', Some (if n \<le> length q then fr\<lparr>fr_data := take n q\<rparr> else fr)) \<and>
    dl_ready content t' \<and> dl_queue content t' = (if n \<le> length q then drop n q else q) \<and> sampling t' = sampling t \<and>
    cap (the (dl_stash t')) = cap (the (dl_stash t)) \<and> cap (the (play_buffer t')) = cap (the (play_buffer t))"
proof -
  note d = buffer_docD [OF doc]
  obtain play stash where b: "play_buffer t = Some play" "dl_stash t = Some stash"
    using ready by (auto simp: dl_ready_def)
  define ch where "ch = (if fr_channels fr > 0 then fr_channels fr else 1)"
  define t1 where "t1 = dl_learn W (fr_rate fr) ch stash t"
  have t1: "\<exists>s. dl_stash t1 = Some s \<and> content s = content stash \<and> cap s = cap stash" "dl_resampler t1 = None"
    "dl_rate t1 = sampling t" "sampling t1 = sampling t" "cleanup_started t1 = cleanup_started t" "play_mutex t1 = play_mutex t"
    using ready fr b d(9,10) by (auto simp: t1_def dl_learn_def dl_ready_def plain_frame_def)
  obtain s where s: "dl_stash t1 = Some s" "content s = content stash" "cap s = cap stash" using t1(1) by blast
  obtain play' stash' where up: "top_up W ch (fr_rate fr) (sampling t) n play s None = Some (play', stash', None)"
    "content stash' @ content play' = content s @ content play" "cap stash' = cap s" "cap play' = cap play"
    "n \<le> length (content stash') \<or> content play' = []"
    using top_up_plain [OF doc, of n s ch "fr_rate fr" "sampling t" play] fr b s(3) by (auto simp: plain_frame_def n_def)
  have q: "q = content stash' @ content play'" using up(2) s(2) b by (simp add: q_def dl_queue_def)
  define t2 where "t2 = t1\<lparr>play_buffer := Some play', dl_stash := Some stash', dl_resampler := None\<rparr>"
  have run: "stream_playback_frame W (Some fr) t =
      (if buf_inuse W stash' \<ge> n
       then Inr (t2\<lparr>dl_stash := Some (snd (buf_read W n stash')), replaced := replaced t2 + 1\<rparr>,
                 Some (fr\<lparr>fr_data := fst (buf_read W n stash')\<rparr>))
       else Inr (t2\<lparr>underruns := underruns t2 + 1\<rparr>, Some fr))"
    using ready fr b s(1) t1(2,4) up(1)
    by (simp add: stream_playback_frame_def dl_ready_def plain_frame_def n_def Let_def ch_def [symmetric]
        t1_def [symmetric] t2_def)
  show ?thesis
  proof (cases "n \<le> length (content stash')")
    case True
    then have "stream_playback_frame W (Some fr) t =
      Inr (t2\<lparr>dl_stash := Some (snd (buf_read W n stash')), replaced := replaced t2 + 1\<rparr>,
           Some (fr\<lparr>fr_data := take n q\<rparr>))"
      using run d(1,4) q by simp
    then show ?thesis using True q d(5,6) ready t1(3-6) up(3,4) b s(3)
      by (simp add: dl_queue_def dl_ready_def t2_def)
  next
    case False
    then have "stream_playback_frame W (Some fr) t = Inr (t2\<lparr>underruns := underruns t2 + 1\<rparr>, Some fr)" "\<not> n \<le> length q"
      using run d(1) q up(5) by auto
    then show ?thesis using q ready t1(3-6) up(3,4) b s(3)
      by (simp add: dl_queue_def dl_ready_def t2_def)
  qed
qed

lemma audio_step:
  assumes doc: "buffer_doc W content cap" and ready: "dl_ready content t"
    and room: "length (content (the (play_buffer t))) + length data \<le> cap (the (play_buffer t))"
  shows "\<exists>t'. onBinary W data t = Inr t' \<and> dl_ready content t' \<and> dl_queue content t' = dl_queue content t @ data \<and>
    sampling t' = sampling t \<and> dl_stash t' = dl_stash t \<and> cap (the (play_buffer t')) = cap (the (play_buffer t))"
proof -
  note d = buffer_docD [OF doc]
  obtain play where b: "play_buffer t = Some play" using ready by (auto simp: dl_ready_def)
  have "length data \<le> buf_freespace W play" using room b d(2) [of play] by simp
  then have "drop_oldest W (length data) play = Some play" by (subst drop_oldest.simps) simp
  then have "onBinary W data t = Inr (t\<lparr>play_buffer := Some (buf_write W data play)\<rparr>)"
    using ready b room d(2) [of play] by (simp add: onBinary_def dl_ready_def)
  then show ?thesis using ready b room d(7,8) by (simp add: dl_ready_def dl_queue_def)
qed

section \<open>Properties\<close>

text \<open>A history of the downlink: audio from the server and frames for the caller, in any interleaving.
  The result lists the frames as they go out.\<close>

datatype dl_op = Audio bytes | Frame switch_frame

fun dl_run :: "('b, 'r) sw \<Rightarrow> dl_op list \<Rightarrow> ('b, 'r) private_t \<Rightarrow> fault + ('b, 'r) private_t \<times> switch_frame list" where
  "dl_run W [] t = Inr (t, [])"
| "dl_run W (Audio data # ops) t =
     (case onBinary W data t of Inl f \<Rightarrow> Inl f | Inr t1 \<Rightarrow> dl_run W ops t1)"
| "dl_run W (Frame fr # ops) t =
     (case stream_playback_frame W (Some fr) t of
        Inl f \<Rightarrow> Inl f
      | Inr (t1, fro) \<Rightarrow> map_sum id (\<lambda>(t2, frs). (t2, the fro # frs)) (dl_run W ops t1))"

text \<open>The specification: a frame is replaced by the front of the queue where the queue is long enough,
  and goes out as it is otherwise.\<close>

fun dl_spec :: "dl_op list \<Rightarrow> bytes \<Rightarrow> bytes \<times> switch_frame list" where
  "dl_spec [] q = (q, [])"
| "dl_spec (Audio data # ops) q = dl_spec ops (q @ data)"
| "dl_spec (Frame fr # ops) q =
     (let n = length (fr_data fr); hit = (n \<le> length q) in
      apsnd ((#) (if hit then fr\<lparr>fr_data := take n q\<rparr> else fr)) (dl_spec ops (if hit then drop n q else q)))"

fun audio_bytes :: "dl_op list \<Rightarrow> bytes" where
  "audio_bytes [] = []"
| "audio_bytes (Audio data # ops) = data @ audio_bytes ops"
| "audio_bytes (Frame fr # ops) = audio_bytes ops"

lemma dl_run_spec:
  assumes doc: "buffer_doc W content cap" and "dl_ready content t"
    "length (dl_queue content t) + length (audio_bytes ops) \<le> cap (the (play_buffer t))"
    "\<forall>fr. Frame fr \<in> set ops \<longrightarrow> plain_frame (sampling t) (cap (the (dl_stash t))) fr"
  shows "\<exists>t' frs. dl_run W ops t = Inr (t', frs) \<and> dl_spec ops (dl_queue content t) = (dl_queue content t', frs)"
  using assms(2-)
proof (induction ops arbitrary: t)
  case (Cons op ops)
  show ?case
  proof (cases op)
    case (Audio data)
    then have "length (content (the (play_buffer t))) + length data \<le> cap (the (play_buffer t))"
      using Cons.prems(2) by (simp add: dl_queue_def)
    from audio_step [OF doc Cons.prems(1) this] obtain t1 where t1: "onBinary W data t = Inr t1" "dl_ready content t1"
      "dl_queue content t1 = dl_queue content t @ data" "sampling t1 = sampling t" "dl_stash t1 = dl_stash t"
      "cap (the (play_buffer t1)) = cap (the (play_buffer t))" by blast
    from Cons.IH [OF t1(2)] show ?thesis using Cons.prems(2,3) t1 Audio by simp
  next
    case (Frame fr)
    then have "plain_frame (sampling t) (cap (the (dl_stash t))) fr" using Cons.prems(3) by simp
    define hit where "hit = (length (fr_data fr) \<le> length (dl_queue content t))"
    from playback_step [OF doc Cons.prems(1) \<open>plain_frame _ _ fr\<close>] obtain t1 where t1:
      "stream_playback_frame W (Some fr) t =
        Inr (t1, Some (if hit then fr\<lparr>fr_data := take (length (fr_data fr)) (dl_queue content t)\<rparr> else fr))"
      "dl_ready content t1"
      "dl_queue content t1 = (if hit then drop (length (fr_data fr)) (dl_queue content t) else dl_queue content t)"
      "sampling t1 = sampling t" "cap (the (dl_stash t1)) = cap (the (dl_stash t))"
      "cap (the (play_buffer t1)) = cap (the (play_buffer t))"
      unfolding hit_def by blast
    have "length (dl_queue content t1) + length (audio_bytes ops) \<le> cap (the (play_buffer t1))"
      using Cons.prems(2) t1(3,6) Frame by (cases hit) simp_all
    from Cons.IH [OF t1(2) this] Cons.prems(3) t1(4,5) obtain t' frs where "dl_run W ops t1 = Inr (t', frs)"
      "dl_spec ops (dl_queue content t1) = (dl_queue content t', frs)" by auto
    then show ?thesis using t1(1,3) Frame by (simp add: Let_def hit_def [symmetric])
  qed
qed simp

text \<open>C8: at the rate of the channel the downlink is one queue: whatever the interleaving of audio from
  the server and frames for the caller, a frame carries exactly the next bytes received where a frame's
  worth is there, and goes out untouched otherwise, so that no byte is lost, repeated or reordered as long
  as the buffer does not overflow. Both loops end.\<close>

theorem playback_is_a_queue:
  assumes "buffer_doc W content cap" "dl_ready content t"
    "length (dl_queue content t) + length (audio_bytes ops) \<le> cap (the (play_buffer t))"
    "\<forall>fr. Frame fr \<in> set ops \<longrightarrow> plain_frame (sampling t) (cap (the (dl_stash t))) fr"
  shows "\<exists>t' frs. dl_run W ops t = Inr (t', frs) \<and> dl_spec ops (dl_queue content t) = (dl_queue content t', frs)"
  by (rule dl_run_spec [OF assms])

text \<open>A call at 8000 Hz with its two buffers.\<close>

definition demo_tech :: "(nat \<times> bytes, unit) private_t" where
  "demo_tech = zero_tech\<lparr>mutex := True, play_mutex := True, sampling := 8000, channels := 1, rtp_packets := 1,
     sbuffer := Some (320, []), play_buffer := Some (160000, []), dl_stash := Some (960000, [])\<rparr>"

lemma demo_ready: "dl_ready clip demo_tech"
  by (simp add: demo_tech_def dl_ready_def zero_tech_def clip_def)

abbreviation "demo_frame \<equiv> \<lparr>fr_data = [9, 9], fr_rate = 8000, fr_channels = 1\<rparr>"

theorem playback_is_a_queue_witness:
  "\<exists>t'. dl_run list_sw [Audio [1, 2, 3], Frame demo_frame, Frame demo_frame, Audio [4], Frame demo_frame] demo_tech =
     Inr (t', [demo_frame\<lparr>fr_data := [1, 2]\<rparr>, demo_frame, demo_frame\<lparr>fr_data := [3, 4]\<rparr>])"
proof -
  let ?ops = "[Audio [1, 2, 3], Frame demo_frame, Frame demo_frame, Audio [4], Frame demo_frame]"
  have "\<exists>t' frs. dl_run list_sw ?ops demo_tech = Inr (t', frs) \<and>
      dl_spec ?ops (dl_queue clip demo_tech) = (dl_queue clip t', frs)"
    by (rule playback_is_a_queue [OF list_buffer_doc demo_ready])
      (simp_all add: demo_tech_def zero_tech_def dl_queue_def clip_def plain_frame_def)
  moreover have "dl_queue clip demo_tech = []" by (simp add: demo_tech_def dl_queue_def clip_def)
  ultimately show ?thesis by (auto simp: Let_def)
qed

text \<open>C25: a message of the server never makes the playback buffer exceed its capacity. A message that fits
  is kept whole, behind the newest part of the older audio: fewer than 4096 bytes more than necessary are
  dropped. A message longer than the buffer empties it and is dropped itself.\<close>

theorem onBinary_bounded:
  assumes "buffer_doc W content cap" "play_buffer t = Some b" "\<not> cleanup_started t" "play_mutex t"
  shows "\<exists>b' k. onBinary W data t = Inr (t\<lparr>play_buffer := Some b'\<rparr>) \<and> cap b' = cap b \<and> length (content b') \<le> cap b \<and>
    content b' = (if length data \<le> cap b then drop k (content b) @ data else []) \<and>
    (0 < k \<longrightarrow> k + cap b < length data + length (content b) + 4096)"
proof -
  note d = buffer_docD [OF assms(1)]
  obtain b1 k where b1: "drop_oldest W (length data) b = Some b1" "content b1 = drop k (content b)" "cap b1 = cap b"
    "length data \<le> cap b \<longrightarrow> length data + length (content b1) \<le> cap b" "cap b < length data \<longrightarrow> content b1 = []"
    "0 < k \<longrightarrow> k + cap b < length data + length (content b) + 4096"
    using drop_oldest_spec [OF assms(1), of "length data" b] by blast
  define b' where "b' = (if buf_freespace W b1 \<ge> length data then buf_write W data b1 else b1)"
  have "onBinary W data t = Inr (t\<lparr>play_buffer := Some b'\<rparr>)" using assms(2-4) b1(1) by (simp add: onBinary_def b'_def)
  moreover have "content b' = (if length data \<le> cap b then drop k (content b) @ data else [])" "cap b' = cap b"
    using b1 d(2) [of b1] d(7) [of b1 data] d(8) by (auto simp: b'_def)
  moreover have "length (content b') \<le> cap b" using d(3) [of b'] calculation(3) by simp
  ultimately show ?thesis using b1(6) by blast
qed

theorem onBinary_bounded_witness:
  "\<exists>b' k. onBinary list_sw [7, 8] (demo_tech\<lparr>play_buffer := Some (4, [1, 2, 3])\<rparr>) =
     Inr (demo_tech\<lparr>play_buffer := Some b'\<rparr>) \<and> clip b' = drop k [1, 2, 3] @ [7, 8]"
  using onBinary_bounded [OF list_buffer_doc, of "demo_tech\<lparr>play_buffer := Some (4, [1, 2, 3])\<rparr>" "(4, [1, 2, 3])" "[7, 8]"]
  by (auto simp: demo_tech_def zero_tech_def clip_def)

text \<open>After a clear message nothing queued is heard any more, whatever the rates: the next frame goes
  out untouched and the queue is empty.\<close>

theorem clear_silences:
  assumes "buffer_doc W content cap" "play_mutex t" "play_buffer t \<noteq> None" "dl_stash t \<noteq> None"
  shows "\<exists>t1 t2. clearPlayback W t = Inr t1 \<and> dl_queue content t1 = [] \<and>
    stream_playback_frame W (Some fr) t1 = Inr (t2, Some fr) \<and> dl_queue content t2 = []"
proof -
  note d = buffer_docD [OF assms(1)]
  obtain p s where b: "play_buffer t = Some p" "dl_stash t = Some s" using assms(3,4) by auto
  define t1 where "t1 = t\<lparr>play_buffer := Some (buf_zero W p), dl_stash := Some (buf_zero W s),
    dl_resampler := map_option (spx_reset W) (dl_resampler t)\<rparr>"
  have t1: "clearPlayback W t = Inr t1" "dl_queue content t1 = []"
    using assms(2) b d(9) by (simp_all add: clearPlayback_def t1_def dl_queue_def)
  have "\<exists>t2. stream_playback_frame W (Some fr) t1 = Inr (t2, Some fr) \<and> dl_queue content t2 = []"
  proof (cases "cleanup_started t1 \<or> fr_data fr = [] \<or> fr_rate fr = 0")
    case True
    then show ?thesis using t1(2) by (auto simp: stream_playback_frame_def)
  next
    case False
    define ch where "ch = (if fr_channels fr > 0 then fr_channels fr else 1)"
    define u where "u = dl_learn W (fr_rate fr) ch (buf_zero W s) t1"
    have "\<exists>s1. dl_stash u = Some s1 \<and> content s1 = []"
      using d(9) by (cases "dl_rate t = sint (fr_rate fr)") (simp_all add: u_def dl_learn_def t1_def)
    then obtain s1 where s1: "dl_stash u = Some s1" "content s1 = []" by blast
    obtain p2 s2 rs2 where up: "top_up W ch (fr_rate fr) (sampling u) (length (fr_data fr)) (buf_zero W p) s1 (dl_resampler u)
        = Some (p2, s2, rs2)" "content s2 = []" "content p2 = []"
      using top_up_returns [OF assms(1), of ch "fr_rate fr" "sampling u" "length (fr_data fr)" "buf_zero W p" s1 "dl_resampler u"]
        s1(2) d(9) by blast
    then have "stream_playback_frame W (Some fr) t1 =
        Inr (u\<lparr>play_buffer := Some p2, dl_stash := Some s2, dl_resampler := rs2, underruns := underruns u + 1\<rparr>, Some fr)"
      using False assms(2) s1(1) d(1)
      by (simp add: stream_playback_frame_def t1_def Let_def ch_def [symmetric] u_def [unfolded t1_def, symmetric])
    then show ?thesis using up by (simp add: dl_queue_def)
  qed
  then show ?thesis using t1 by blast
qed

theorem clear_silences_witness:
  "\<exists>t1 t2. clearPlayback list_sw (demo_tech\<lparr>play_buffer := Some (160000, [1, 2, 3])\<rparr>) = Inr t1 \<and> dl_queue clip t1 = [] \<and>
    stream_playback_frame list_sw (Some demo_frame) t1 = Inr (t2, Some demo_frame) \<and> dl_queue clip t2 = []"
  by (rule clear_silences [OF list_buffer_doc]) (simp_all add: demo_tech_def)

end
