(* ===== verification/Uplink.thy ===== *)
theory Uplink
  imports Playback
begin

text \<open>
  The uplink of the module, \<open>stream_frame\<close>: the frames the media bug has captured since the last call
  go to the server one by one, or resampled, or collected in \<open>sbuffer\<close> until it is full. A captured
  frame is its bytes and its number of samples.
\<close>

section \<open>Model\<close>

definition writeBinary :: "('d, 'i) ext \<Rightarrow> bytes \<Rightarrow> 'd client \<Rightarrow> 'd client" where
  "writeBinary Z data c = (if \<not> client_isConnected c then c else snd (sendBinary Z False data c))"

text \<open>A full buffer becomes a message.\<close>

definition flush_full :: "('b, 'r) sw \<Rightarrow> 'b \<Rightarrow> bytes list \<Rightarrow> 'b \<times> bytes list" where
  "flush_full W b pending =
     (if buf_freespace W b = 0 \<and> buf_inuse W b > 0
      then (case buf_read W (buf_inuse W b) b of
              (tmp, b1) \<Rightarrow> (buf_zero W b1, pending @ [tmp @ replicate (buf_inuse W b - length tmp) 0]))
      else (b, pending))"

text \<open>One frame, without a resampler.\<close>

definition read_plain :: "('b, 'r) sw \<Rightarrow> int \<Rightarrow> bytes \<times> nat \<Rightarrow> 'b \<times> bytes list \<Rightarrow> 'b \<times> bytes list" where
  "read_plain W rtp frame st =
     (case (frame, st) of
        ((data, samples), (b, pending)) \<Rightarrow>
          if data = [] then (b, pending)
          else if rtp = 1 then (b, pending @ [data])
          else flush_full W (if buf_freespace W b \<ge> length data then buf_write W data b else b) pending)"

text \<open>One frame, with a resampler.\<close>

definition read_resampled ::
    "('b, 'r) sw \<Rightarrow> nat \<Rightarrow> int \<Rightarrow> bytes \<times> nat \<Rightarrow> 'r \<times> 'b \<times> bytes list \<Rightarrow> 'r \<times> 'b \<times> bytes list" where
  "read_resampled W ch rtp frame st =
     (case (frame, st) of
        ((data, samples), (r, b, pending)) \<Rightarrow>
          if data = [] then (r, b, pending)
          else
            (let freespace = buf_freespace W b;
                 out_len = freespace div (ch * 2) mod 2 ^ 32
             in if out_len = 0 then (r, flush_full W b pending)
                else
                  (case spx_process W ch data samples out_len r of
                     (out, r1) \<Rightarrow>
                       if out \<noteq> [] \<and> rtp = 1 then (r1, b, pending @ [out])
                       else
                         (r1, flush_full W
                           (if out \<noteq> [] \<and> length out \<le> buf_freespace W b then buf_write W out b else b) pending))))"

text \<open>The callback. \<open>lock_free\<close> says whether the mutex can be taken at once. \<open>sbuffer\<close> exists before the
  media bug does.\<close>

definition stream_frame ::
    "('b, 'r) sw \<Rightarrow> ('d, 'i) ext \<Rightarrow> bool \<Rightarrow> (bytes \<times> nat) list \<Rightarrow> ('b, 'r) private_t \<Rightarrow> 'd client
      \<Rightarrow> fault + ('b, 'r) private_t \<times> 'd client" where
  "stream_frame W Z lock_free frames t c =
     (if audio_paused t \<or> cleanup_started t then Inr (t, c)
      else if \<not> mutex t then Inl NullMutex
      else if \<not> lock_free \<or> \<not> pAudioStreamer t then Inr (t, c)
      else
        (case sbuffer t of
           None \<Rightarrow> Inl NullBuffer
         | Some b \<Rightarrow>
             (case (case resampler t of
                      None \<Rightarrow> (None, fold (read_plain W (rtp_packets t)) frames (b, []))
                    | Some r \<Rightarrow>
                        (case fold (read_resampled W (nat (channels t)) (rtp_packets t)) frames (r, b, []) of
                           (r1, bp) \<Rightarrow> (Some r1, bp))) of
                (rs, b1, pending) \<Rightarrow>
                  Inr (t\<lparr>resampler := rs, sbuffer := Some b1\<rparr>,
                       if \<not> client_isConnected c then c
                       else fold (\<lambda>chunk c1. if chunk \<noteq> [] then writeBinary Z chunk c1 else c1) pending c))))"

section \<open>Lemmas\<close>

text \<open>Sending from the media thread only queues.\<close>

lemma writeBinary_queues:
  assumes "cl_ctx c = Some x" "isConnected x" "length (send_queue x) < 1024"
  shows "\<exists>x'. writeBinary Z data c = c\<lparr>cl_ctx := Some x'\<rparr> \<and> send_queue x' = send_queue x @ [PBinary data] \<and>
    connection_state x' = connection_state x \<and> trace x' = trace x \<and> send_event x' = send_event x \<and>
    (send_flush_pending x \<longrightarrow> send_flush_pending x') \<and>
    (connection_state x = CONNECTED \<and> send_event x \<longrightarrow> send_flush_pending x')"
proof -
  define y where "y = x\<lparr>send_queue := send_queue x @ [PBinary data]\<rparr>"
  define x' where "x' = (if connection_state x = CONNECTING then y else requestSendFlush y)"
  have "sendData Z False data BINARY x = (True, x')"
    using assms(3) by (simp add: sendData_def enqueue_def MAX_QUEUE_SIZE_def x'_def y_def)
  then have "writeBinary Z data c = c\<lparr>cl_ctx := Some x'\<rparr>"
    using assms(1,2) by (simp add: writeBinary_def client_isConnected_def sendBinary_def client_send_def)
  moreover have "send_queue x' = send_queue x @ [PBinary data]" "connection_state x' = connection_state x"
    "trace x' = trace x" "send_event x' = send_event x" "send_flush_pending x \<longrightarrow> send_flush_pending x'"
    "connection_state x = CONNECTED \<and> send_event x \<longrightarrow> send_flush_pending x'"
    by (simp_all add: x'_def y_def requestSendFlush_def)
  ultimately show ?thesis by blast
qed

lemma write_all_queues:
  assumes "cl_ctx c = Some x" "isConnected x" "length (send_queue x) + length chunks \<le> 1024" "[] \<notin> set chunks"
  shows "\<exists>x'. fold (\<lambda>chunk c1. if chunk \<noteq> [] then writeBinary Z chunk c1 else c1) chunks c = c\<lparr>cl_ctx := Some x'\<rparr> \<and>
    send_queue x' = send_queue x @ map PBinary chunks \<and> connection_state x' = connection_state x \<and> trace x' = trace x \<and>
    (send_flush_pending x \<or> connection_state x = CONNECTED \<and> send_event x \<and> chunks \<noteq> [] \<longrightarrow> send_flush_pending x')"
  using assms
proof (induction chunks arbitrary: c x)
  case Nil
  then have "c = c\<lparr>cl_ctx := Some x\<rparr>" by simp
  then show ?case by (intro exI [of _ x]) simp
next
  case (Cons d chunks)
  from writeBinary_queues [OF Cons.prems(1,2), of Z d] Cons.prems(3) obtain x1 where
    x1: "writeBinary Z d c = c\<lparr>cl_ctx := Some x1\<rparr>" "send_queue x1 = send_queue x @ [PBinary d]"
    "connection_state x1 = connection_state x" "trace x1 = trace x"
    "send_flush_pending x \<or> connection_state x = CONNECTED \<and> send_event x \<longrightarrow> send_flush_pending x1" by auto
  have "isConnected x1" using Cons.prems(2) x1(3) by (simp add: isConnected_def)
  from Cons.IH [of "c\<lparr>cl_ctx := Some x1\<rparr>" x1, OF _ this] Cons.prems(3,4) x1 show ?case by auto
qed

text \<open>The messages made of a full buffer are exactly as long as the buffer.\<close>

definition chunks_ok :: "nat \<Rightarrow> bytes list \<Rightarrow> bool" where
  "chunks_ok n pending \<longleftrightarrow> (\<forall>d \<in> set pending. length d = n)"

lemma flush_full_spec:
  assumes doc: "buffer_doc W content cap"
  shows "flush_full W b pending =
    (if length (content b) = cap b \<and> 0 < cap b
     then (fst (flush_full W b pending), pending @ [content b]) else (b, pending))"
    "cap (fst (flush_full W b pending)) = cap b"
    "content (fst (flush_full W b pending)) = (if length (content b) = cap b then [] else content b)"
proof -
  note d = buffer_docD [OF doc]
  have full: "buf_freespace W b = 0 \<and> buf_inuse W b > 0 \<longleftrightarrow> length (content b) = cap b \<and> 0 < cap b"
    using d(1,2,3) [of b] by auto
  show "flush_full W b pending =
    (if length (content b) = cap b \<and> 0 < cap b
     then (fst (flush_full W b pending), pending @ [content b]) else (b, pending))"
    unfolding flush_full_def full using d(1) [of b] d(4) by (auto simp: split_beta)
  show "cap (fst (flush_full W b pending)) = cap b"
    "content (fst (flush_full W b pending)) = (if length (content b) = cap b then [] else content b)"
    unfolding flush_full_def full using d(3) [of b] d(6,9,10) by (auto simp: split_beta)
qed

lemma dvd_room:
  assumes "F dvd (l::nat)" "F dvd n" "l < n"
  shows "l + F \<le> n"
proof -
  have "F dvd n - l" using assms by (simp add: dvd_diff_nat)
  then have "F \<le> n - l" using assms(3) by (intro dvd_imp_le) simp_all
  then show ?thesis using assms(3) by simp
qed

text \<open>Frames of one size that divides the buffer are collected without loss.\<close>

lemma read_plain_batches:
  assumes doc: "buffer_doc W content cap" and "rtp \<noteq> 1" "0 < F" "F dvd cap b" "F dvd length (content b)"
    "length (content b) < cap b" "\<forall>f \<in> set frames. length (fst f) = F"
  shows "\<exists>b' chunks. fold (read_plain W rtp) frames (b, pending) = (b', pending @ chunks) \<and>
    concat chunks @ content b' = content b @ concat (map fst frames) \<and> chunks_ok (cap b) chunks \<and>
    cap b' = cap b \<and> F dvd length (content b') \<and> length (content b') < cap b'"
  using assms(4-7)
proof (induction frames arbitrary: b pending)
  case Nil
  then show ?case by (intro exI [of _ b] exI [of _ "[]"]) (simp add: chunks_ok_def)
next
  case (Cons f frames)
  note d = buffer_docD [OF doc]
  obtain data samples where f: "f = (data, samples)" "length data = F" using Cons.prems(4) by (cases f) auto
  have fits: "length (content b) + F \<le> cap b" by (rule dvd_room [OF Cons.prems(2,1,3)])
  define b1 where "b1 = buf_write W data b"
  have b1: "content b1 = content b @ data" "cap b1 = cap b"
    using d(7,8) fits f(2) by (simp_all add: b1_def)
  define b2 where "b2 = fst (flush_full W b1 pending)"
  define now where "now = (if length (content b1) = cap b then [content b1] else [])"
  have "read_plain W rtp f (b, pending) = flush_full W b1 pending"
    using assms(2,3) f d(2) [of b] fits by (auto simp: read_plain_def b1_def)
  also have "\<dots> = (b2, pending @ now)"
    using flush_full_spec(1) [OF doc, of b1 pending] b1 Cons.prems(3) by (auto simp: b2_def now_def split: if_split_asm)
  finally have step: "read_plain W rtp f (b, pending) = (b2, pending @ now)" .
  have b2: "cap b2 = cap b" "concat now @ content b2 = content b @ data" "chunks_ok (cap b) now"
    using flush_full_spec(2,3) [OF doc, of b1 pending] b1 by (simp_all add: b2_def now_def chunks_ok_def)
  have "F dvd length (content b2)" "length (content b2) < cap b2"
    using flush_full_spec(3) [OF doc, of b1 pending] b1 b2(1) f(2) Cons.prems(2,3) fits
    by (auto simp: b2_def)
  from Cons.IH [of b2 "pending @ now"] this Cons.prems(1,4) b2(1) obtain b' chunks where
    "fold (read_plain W rtp) frames (b2, pending @ now) = (b', pending @ now @ chunks)"
    "concat chunks @ content b' = content b2 @ concat (map fst frames)" "chunks_ok (cap b) chunks"
    "cap b' = cap b" "F dvd length (content b')" "length (content b') < cap b'" by auto
  then show ?case using step b2(2,3) f(1)
    by (intro exI [of _ b'] exI [of _ "now @ chunks"]) (auto simp: chunks_ok_def)
qed

text \<open>With a resampler the messages still have the size of the buffer.\<close>

lemma read_resampled_chunks:
  assumes doc: "buffer_doc W content cap" and "rtp \<noteq> 1"
  shows "\<exists>r' b' chunks. fold (read_resampled W ch rtp) frames (r, b, pending) = (r', b', pending @ chunks) \<and>
    chunks_ok (cap b) chunks \<and> cap b' = cap b"
proof (induction frames arbitrary: r b pending)
  case Nil
  show ?case by (intro exI [of _ r] exI [of _ b] exI [of _ "[]"]) (simp add: chunks_ok_def)
next
  case (Cons f frames)
  note d = buffer_docD [OF doc]
  have flush: "\<exists>b2 now. flush_full W b1 pending = (b2, pending @ now) \<and> chunks_ok (cap b) now \<and> cap b2 = cap b"
    if "cap b1 = cap b" for b1
  proof (cases "length (content b1) = cap b1 \<and> 0 < cap b1")
    case True
    then have "flush_full W b1 pending = (fst (flush_full W b1 pending), pending @ [content b1])"
      using flush_full_spec(1) [OF doc, of b1 pending] by simp
    then show ?thesis using flush_full_spec(2) [OF doc, of b1 pending] that True
      by (intro exI [of _ "fst (flush_full W b1 pending)"] exI [of _ "[content b1]"]) (simp add: chunks_ok_def)
  next
    case False
    then have "flush_full W b1 pending = (b1, pending @ [])"
      using flush_full_spec(1) [OF doc, of b1 pending] unfolding if_not_P [OF False] by simp
    then show ?thesis using that by (intro exI [of _ b1] exI [of _ "[]"]) (simp add: chunks_ok_def)
  qed
  have "\<exists>r1 b2 now. read_resampled W ch rtp f (r, b, pending) = (r1, b2, pending @ now) \<and> chunks_ok (cap b) now \<and> cap b2 = cap b"
  proof (cases "fst f = []")
    case True
    then show ?thesis by (intro exI [of _ r] exI [of _ b] exI [of _ "[]"]) (simp add: read_resampled_def chunks_ok_def split_beta)
  next
    case False
    obtain r1 b1 where "read_resampled W ch rtp f (r, b, pending) = (r1, flush_full W b1 pending)" "cap b1 = cap b"
    proof (cases "buf_freespace W b div (ch * 2) mod 2 ^ 32 = 0")
      case True
      with False that [of r b] show ?thesis by (simp add: read_resampled_def split_beta Let_def)
    next
      case more: False
      obtain data samples where f: "f = (data, samples)" by (cases f)
      obtain out r1 where o: "spx_process W ch data samples (buf_freespace W b div (ch * 2) mod 2 ^ 32) r = (out, r1)"
        by (metis surj_pair)
      have "read_resampled W ch rtp f (r, b, pending) = (r1, flush_full W
          (if out \<noteq> [] \<and> length out \<le> buf_freespace W b then buf_write W out b else b) pending)"
        using False more assms(2) o f by (simp add: read_resampled_def Let_def)
      then show ?thesis using that d(8) by (auto split: if_splits)
    qed
    then show ?thesis using flush [of b1] by auto
  qed
  then obtain r1 b2 now where "read_resampled W ch rtp f (r, b, pending) = (r1, b2, pending @ now)" "chunks_ok (cap b) now"
    "cap b2 = cap b" by blast
  moreover obtain r' b' chunks where
    "fold (read_resampled W ch rtp) frames (r1, b2, pending @ now) = (r', b', (pending @ now) @ chunks)"
    "chunks_ok (cap b2) chunks" "cap b' = cap b2"
    using Cons.IH [of r1 b2 "pending @ now"] by blast
  ultimately show ?case
    by (intro exI [of _ r'] exI [of _ b'] exI [of _ "now @ chunks"]) (auto simp: chunks_ok_def)
qed

section \<open>Properties\<close>

text \<open>What is sent: each message through \<open>writeBinary\<close>, in order.\<close>

definition send_all :: "('d, 'i) ext \<Rightarrow> bytes list \<Rightarrow> 'd client \<Rightarrow> 'd client" where
  "send_all Z chunks c =
     (if client_isConnected c then fold (\<lambda>chunk c1. if chunk \<noteq> [] then writeBinary Z chunk c1 else c1) chunks c else c)"

definition ul_ready :: "('b, 'r) private_t \<Rightarrow> bool" where
  "ul_ready t \<longleftrightarrow> \<not> audio_paused t \<and> \<not> cleanup_started t \<and> mutex t \<and> pAudioStreamer t \<and> sbuffer t \<noteq> None"

text \<open>C26: audio collected in the buffer is sent without loss: where the frames captured have one size
  that divides the buffer, the messages and what stays in the buffer are together the old contents and
  the frames, in order, and every message fills the buffer exactly.\<close>

theorem uplink_collects:
  assumes "buffer_doc W content cap" "ul_ready t" "sbuffer t = Some b" "resampler t = None" "rtp_packets t \<noteq> 1"
    "0 < F" "F dvd cap b" "F dvd length (content b)" "length (content b) < cap b" "\<forall>f \<in> set frames. length (fst f) = F"
  shows "\<exists>b' chunks. stream_frame W Z True frames t c = Inr (t\<lparr>resampler := None, sbuffer := Some b'\<rparr>, send_all Z chunks c) \<and>
    concat chunks @ content b' = content b @ concat (map fst frames) \<and> chunks_ok (cap b) chunks \<and>
    cap b' = cap b \<and> F dvd length (content b') \<and> length (content b') < cap b'"
proof -
  obtain b' chunks where r: "fold (read_plain W (rtp_packets t)) frames (b, []) = (b', chunks)"
    "concat chunks @ content b' = content b @ concat (map fst frames)" "chunks_ok (cap b) chunks"
    "cap b' = cap b" "F dvd length (content b')" "length (content b') < cap b'"
    using read_plain_batches [OF assms(1,5-10), of "[]"] by auto
  then have "stream_frame W Z True frames t c = Inr (t\<lparr>resampler := None, sbuffer := Some b'\<rparr>, send_all Z chunks c)"
    using assms(2-4) by (simp add: stream_frame_def ul_ready_def send_all_def)
  then show ?thesis using r(2-) by blast
qed

text \<open>With a resampler the number of bytes per frame varies, but the messages do not: with several packets
  per message each one has exactly the size of the buffer.\<close>

lemma uplink_message_size:
  assumes "buffer_doc W content cap" "ul_ready t" "sbuffer t = Some b" "resampler t = Some r" "rtp_packets t \<noteq> 1"
  shows "\<exists>r' b' chunks. stream_frame W Z True frames t c =
      Inr (t\<lparr>resampler := Some r', sbuffer := Some b'\<rparr>, send_all Z chunks c) \<and>
    chunks_ok (cap b) chunks \<and> cap b' = cap b"
proof -
  obtain r' b' chunks where "fold (read_resampled W (nat (channels t)) (rtp_packets t)) frames (r, b, []) = (r', b', chunks)"
    "chunks_ok (cap b) chunks" "cap b' = cap b"
    using read_resampled_chunks [OF assms(1,5), of "nat (channels t)" frames r b "[]"] by auto
  moreover from this have "stream_frame W Z True frames t c =
      Inr (t\<lparr>resampler := Some r', sbuffer := Some b'\<rparr>, send_all Z chunks c)"
    using assms(2-4) by (simp add: stream_frame_def ul_ready_def send_all_def)
  ultimately show ?thesis by blast
qed

definition demo_uplink :: "(nat \<times> bytes, unit) private_t" where
  "demo_uplink = demo_tech\<lparr>pAudioStreamer := True, rtp_packets := 2, sbuffer := Some (4, [])\<rparr>"

lemma demo_uplink: "ul_ready demo_uplink" "resampler demo_uplink = None" "rtp_packets demo_uplink = 2"
  "sbuffer demo_uplink = Some (4, [])"
  by (simp_all add: demo_uplink_def demo_tech_def zero_tech_def ul_ready_def)

theorem uplink_collects_witness:
  "\<exists>b' chunks. stream_frame list_sw stored_ext True [([1, 2], 1), ([3, 4], 1), ([5, 6], 1)] demo_uplink demo_connected =
     Inr (demo_uplink\<lparr>resampler := None, sbuffer := Some b'\<rparr>, send_all stored_ext chunks demo_connected) \<and>
     concat chunks @ clip b' = [1, 2, 3, 4, 5, 6]"
  using uplink_collects [OF list_buffer_doc demo_uplink(1,4,2), of 2 "[([1, 2], 1), ([3, 4], 1), ([5, 6], 1)]" stored_ext demo_connected]
    demo_uplink by (auto simp: clip_def)

text \<open>With several packets per message, a frame that does not fit in the rest of the buffer is
  dropped, and the buffer is sent only when it is completely full: once the rest is shorter than the
  frames, every later frame is lost and nothing is ever sent again.\<close>

theorem uplink_stalls:
  assumes "buffer_doc W content cap" "ul_ready t" "sbuffer t = Some b" "resampler t = None" "rtp_packets t \<noteq> 1"
    "length (content b) < cap b" "\<forall>f \<in> set frames. cap b < length (content b) + length (fst f)"
  shows "stream_frame W Z True frames t c = Inr (t, c)"
proof -
  note d = buffer_docD [OF assms(1)]
  have "read_plain W (rtp_packets t) f (b, pending) = (b, pending)" if "f \<in> set frames" for f pending
  proof -
    have "\<not> length (fst f) \<le> buf_freespace W b" using that assms(7) d(2,3) [of b] by fastforce
    moreover have "flush_full W b pending = (b, pending)" using d(2) [of b] assms(6) by (simp add: flush_full_def)
    ultimately show ?thesis using assms(5) by (cases f) (simp add: read_plain_def)
  qed
  then have "fold (read_plain W (rtp_packets t)) frames (b, []) = (b, [])"
    by (induction frames) auto
  moreover have "t\<lparr>resampler := None, sbuffer := Some b\<rparr> = t" using assms(3,4) by simp
  ultimately show ?thesis using assms(2-4) by (simp add: stream_frame_def ul_ready_def)
qed

text \<open>30 ms frames of 480 bytes and messages of 40 ms.\<close>

theorem uplink_stalls_witness:
  "stream_frame list_sw stored_ext True [(replicate 480 2, 240), (replicate 480 3, 240)]
     (demo_uplink\<lparr>sbuffer := Some (640, replicate 480 1)\<rparr>) demo_connected =
   Inr (demo_uplink\<lparr>sbuffer := Some (640, replicate 480 1)\<rparr>, demo_connected)"
  by (rule uplink_stalls [OF list_buffer_doc, of _ "(640, replicate 480 1)"])
    (use demo_uplink in \<open>simp_all add: ul_ready_def clip_def\<close>)

text \<open>Without a resampler and with one packet per message each frame is queued.\<close>

lemma stream_frame_queues:
  assumes "ul_ready t" "resampler t = None" "rtp_packets t = 1" "cl_ctx c = Some x" "isConnected x"
    "length (send_queue x) + length frames \<le> 1024"
  shows "\<exists>x'. stream_frame W Z True frames t c = Inr (t, c\<lparr>cl_ctx := Some x'\<rparr>) \<and>
    c\<lparr>cl_ctx := Some x'\<rparr> = send_all Z (filter (\<lambda>d. d \<noteq> []) (map fst frames)) c \<and> connection_state x' = connection_state x \<and>
    send_queue x' = send_queue x @ map PBinary (filter (\<lambda>d. d \<noteq> []) (map fst frames)) \<and> trace x' = trace x \<and>
    (connection_state x = CONNECTED \<and> send_event x \<and> (\<exists>f \<in> set frames. fst f \<noteq> []) \<longrightarrow> send_flush_pending x')"
proof -
  define chunks where "chunks = filter (\<lambda>d. d \<noteq> []) (map fst frames)"
  obtain b where b: "sbuffer t = Some b" using assms(1) by (auto simp: ul_ready_def)
  have "fold (read_plain W 1) frames (b, pending) = (b, pending @ filter (\<lambda>d. d \<noteq> []) (map fst frames))" for pending
    by (induction frames arbitrary: pending) (auto simp: read_plain_def)
  then have fold: "fold (read_plain W 1) frames (b, []) = (b, chunks)" by (simp add: chunks_def)
  have "length chunks \<le> length frames" unfolding chunks_def by (metis length_filter_le length_map)
  then have room: "length (send_queue x) + length chunks \<le> 1024" using assms(6) by simp
  have nonempty: "[] \<notin> set chunks" by (simp add: chunks_def)
  obtain x' where x': "send_all Z chunks c = c\<lparr>cl_ctx := Some x'\<rparr>" "send_queue x' = send_queue x @ map PBinary chunks"
    "trace x' = trace x" "connection_state x' = connection_state x" "connection_state x = CONNECTED \<and> send_event x \<and> chunks \<noteq> [] \<longrightarrow> send_flush_pending x'"
    using write_all_queues [OF assms(4,5) room nonempty, of Z] assms(4,5)
    by (auto simp: send_all_def client_isConnected_def)
  have "t\<lparr>resampler := None, sbuffer := Some b\<rparr> = t" using assms(2) b by simp
  then have "stream_frame W Z True frames t c = Inr (t, send_all Z chunks c)"
    using assms(1-3) b fold by (simp add: stream_frame_def ul_ready_def send_all_def)
  moreover have "(\<exists>f \<in> set frames. fst f \<noteq> []) \<longleftrightarrow> chunks \<noteq> []"
    by (auto simp: chunks_def filter_empty_conv)
  ultimately show ?thesis using x'(1) [symmetric] x'(2-5) unfolding chunks_def by (intro exI [of _ x']) simp
qed

text \<open>Without a resampler and with one packet per message, every non-empty captured frame is queued
  as one binary message of the connection, in order, and a flush is requested on an open connection; no
  frame is written from the media thread.\<close>

theorem uplink_queues_frames:
  assumes "ul_ready t" "resampler t = None" "rtp_packets t = 1" "cl_ctx c = Some x" "isConnected x"
    "length (send_queue x) + length frames \<le> 1024"
  shows "\<exists>x'. stream_frame W Z True frames t c = Inr (t, c\<lparr>cl_ctx := Some x'\<rparr>) \<and>
    send_queue x' = send_queue x @ map PBinary (filter (\<lambda>d. d \<noteq> []) (map fst frames)) \<and> trace x' = trace x \<and>
    (connection_state x = CONNECTED \<and> send_event x \<and> (\<exists>f \<in> set frames. fst f \<noteq> []) \<longrightarrow> send_flush_pending x')"
  using stream_frame_queues [OF assms, of W Z] by blast

text \<open>A connection that is still being set up.\<close>

definition demo_calling :: "unit client" where
  "demo_calling = demo_client\<lparr>cl_ctx := Some (ctx demo_world)\<rparr>"

theorem uplink_queues_frames_witness:
  "\<exists>x'. stream_frame list_sw stored_ext True [([1, 2], 1), ([], 0), ([3, 4], 1)] (demo_uplink\<lparr>rtp_packets := 1\<rparr>) demo_calling =
     Inr (demo_uplink\<lparr>rtp_packets := 1\<rparr>, demo_calling\<lparr>cl_ctx := Some x'\<rparr>) \<and>
     send_queue x' = [PBinary [1, 2], PBinary [3, 4]]"
proof -
  have "isConnected (ctx demo_world)" "send_queue (ctx demo_world) = []"
    by (simp_all add: demo_defs ascii_Cons isConnected_def)
  then show ?thesis
    using uplink_queues_frames [of "demo_uplink\<lparr>rtp_packets := 1\<rparr>" demo_calling "ctx demo_world"
        "[([1, 2], 1), ([], 0), ([3, 4], 1)]" list_sw stored_ext] demo_uplink
    by (auto simp: ul_ready_def demo_calling_def)
qed

end
