(* ===== verification/Streamer.thy ===== *)
theory Streamer
  imports Uplink
begin

text \<open>
  AudioStreamer, which joins a call of FreeSWITCH to a connection: its construction from the settings
  of the call, and the callbacks of the connection, which become events of the module, audio in the
  playback buffer, or the end of the media bug. cJSON is a parameter.
\<close>

section \<open>JSON\<close>

text \<open>\<open>json_type\<close> is the string member "type" of the object a message parses to, if it is one;
  \<open>json_members\<close> are the children of the parsed text, each with its name and its string value where
  it has them; \<open>json_print\<close> prints a value on one line.\<close>

datatype jvalue = JString bytes | JNumber int | JObject "(bytes \<times> jvalue) list"

record cjson =
  json_type :: "bytes \<Rightarrow> bytes option"
  json_members :: "bytes \<Rightarrow> (bytes option \<times> bytes option) list option"
  json_print :: "jvalue \<Rightarrow> bytes"

section \<open>The streamer\<close>

record 'd streamer =
  s_client :: "'d client"
  m_sessionId :: bytes
  m_suppress_log :: bool
  m_cleanedUp :: bool

text \<open>The custom headers of the call: every member with a string value. A name is missing where the JSON
  text is an array; the std::string is then made of a null pointer.\<close>

fun add_headers :: "(bytes option \<times> bytes option) list \<Rightarrow> headers \<Rightarrow> fault + headers" where
  "add_headers [] h = Inr h"
| "add_headers ((name, None) # es) h = add_headers es h"
| "add_headers ((None, Some v) # es) h = Inl NullString"
| "add_headers ((Some k, Some v) # es) h = add_headers es (headers_set k v h)"

definition stream_headers :: "cjson \<Rightarrow> bytes option \<Rightarrow> fault + headers" where
  "stream_headers J extra =
     (case extra of
        None \<Rightarrow> Inr []
      | Some s \<Rightarrow> (case json_members J s of None \<Rightarrow> Inr [] | Some es \<Rightarrow> add_headers es []))"

definition default_tls :: WebSocketTLSOptions where
  "default_tls = \<lparr>certFile = [], keyFile = [], caFile = ascii ''SYSTEM'', ciphers = ascii ''DEFAULT'',
     disableHostnameValidation = False\<rparr>"

text \<open>The settings that come from channel variables.\<close>

record stream_settings =
  set_deflate :: int
  set_heart_beat :: int
  set_suppress_log :: bool
  set_rtp_packets :: int
  set_extra_headers :: "bytes option"
  set_cafile :: "bytes option"
  set_keyfile :: "bytes option"
  set_certfile :: "bytes option"
  set_no_hostname_check :: bool

definition stream_tls :: "stream_settings \<Rightarrow> WebSocketTLSOptions" where
  "stream_tls S =
     (let t0 = default_tls;
          t1 = (case set_cafile S of None \<Rightarrow> t0 | Some f \<Rightarrow> t0\<lparr>caFile := f\<rparr>);
          t2 = (case set_keyfile S of None \<Rightarrow> t1 | Some f \<Rightarrow> t1\<lparr>keyFile := f\<rparr>);
          t3 = (case set_certfile S of None \<Rightarrow> t2 | Some f \<Rightarrow> t2\<lparr>certFile := f\<rparr>)
      in t3\<lparr>disableHostnameValidation := set_no_hostname_check S\<rparr>)"

text \<open>The constructor, on the client \<open>cl0\<close> its member initialiser makes.\<close>

definition AudioStreamer ::
    "cjson \<Rightarrow> (bytes \<Rightarrow> bool) \<Rightarrow> (bytes \<Rightarrow> bool) \<Rightarrow> 'd client \<Rightarrow> bytes \<Rightarrow> bytes \<Rightarrow> stream_settings \<Rightarrow> fault + 'd streamer" where
  "AudioStreamer J pton4 pton6 cl0 sid wsUri S =
     (case stream_headers J (set_extra_headers S) of
        Inl f \<Rightarrow> Inl f
      | Inr hdrs \<Rightarrow>
          (let c1 = setTLSOptions (stream_tls S) (setUrl pton4 pton6 wsUri cl0);
               c2 = (if set_heart_beat S \<noteq> 0 then setPingInterval (set_heart_beat S) c1 else c1);
               c3 = (if set_deflate S \<noteq> 0 then enableCompression False c2 else c2);
               c4 = (if \<not> headers_empty hdrs then setHeaders hdrs c3 else c3)
           in Inr \<lparr>s_client = c4, m_sessionId = sid, m_suppress_log = set_suppress_log S, m_cleanedUp = False\<rparr>))"

definition bindCallbacks :: "'d client \<Rightarrow> 'd client" where
  "bindCallbacks c = client_setCloseCallback True (client_setErrorCallback True (client_setOpenCallback True
     (client_setBinaryCallback True (client_setMessageCallback True c))))"

definition streamer_create ::
    "cjson \<Rightarrow> (bytes \<Rightarrow> bool) \<Rightarrow> (bytes \<Rightarrow> bool) \<Rightarrow> ('d, 'i) ext \<Rightarrow> (bytes \<Rightarrow> bytes) option \<Rightarrow> bytes \<Rightarrow> bool
      \<Rightarrow> 'd client \<Rightarrow> bytes \<Rightarrow> bytes \<Rightarrow> stream_settings \<Rightarrow> fault + 'd streamer" where
  "streamer_create J pton4 pton6 Z openssl_SHA1 nonce thread_ok cl0 sid wsUri S =
     (case AudioStreamer J pton4 pton6 cl0 sid wsUri S of
        Inl f \<Rightarrow> Inl f
      | Inr sp \<Rightarrow>
          Inr (sp\<lparr>s_client := snd (client_connect Z openssl_SHA1 nonce thread_ok (bindCallbacks (s_client sp)))\<rparr>))"

definition writeText :: "('d, 'i) ext \<Rightarrow> bool \<Rightarrow> bytes \<Rightarrow> 'd streamer \<Rightarrow> 'd streamer" where
  "writeText Z on_event txt sp =
     (if \<not> client_isConnected (s_client sp) then sp
      else sp\<lparr>s_client := snd (sendMessage Z on_event (c_str txt) (s_client sp))\<rparr>)"

definition markCleanedUp :: "'d streamer \<Rightarrow> 'd streamer" where
  "markCleanedUp sp = sp\<lparr>m_cleanedUp := True,
     s_client := client_setCloseCallback False (client_setErrorCallback False (client_setOpenCallback False
       (client_setBinaryCallback False (client_setMessageCallback False (s_client sp)))))\<rparr>"

definition disconnect :: "'d streamer \<Rightarrow> 'd streamer" where
  "disconnect sp = sp\<lparr>s_client := client_disconnect (s_client sp)\<rparr>"

section \<open>The session\<close>

text \<open>What the module keeps of one call: \<open>private_t\<close>, the streamer while it exists, whether the channel
  still refers to the media bug, whether the bug is attached, whether FreeSWITCH has been asked to close
  it, whether the session can be located, and the events fired so far (name and body).\<close>

record ('b, 'r, 'd) session =
  tech :: "('b, 'r) private_t"
  streamer :: "'d streamer option"
  bug :: bool
  bug_attached :: bool
  bug_closing :: bool
  located :: bool
  fired :: "(bytes \<times> bytes) list"

definition EVENT_CONNECT :: bytes where "EVENT_CONNECT = ascii ''mod_ws_bridge::connect''"
definition EVENT_DISCONNECT :: bytes where "EVENT_DISCONNECT = ascii ''mod_ws_bridge::disconnect''"
definition EVENT_ERROR :: bytes where "EVENT_ERROR = ascii ''mod_ws_bridge::error''"
definition EVENT_JSON :: bytes where "EVENT_JSON = ascii ''mod_ws_bridge::json''"

definition responseHandler :: "bytes \<Rightarrow> bytes \<Rightarrow> ('b, 'r, 'd) session \<Rightarrow> ('b, 'r, 'd) session" where
  "responseHandler name json s = s\<lparr>fired := fired s @ [(name, c_str json)]\<rparr>"

definition send_initial_metadata :: "('d, 'i) ext \<Rightarrow> ('b, 'r, 'd) session \<Rightarrow> fault + ('b, 'r, 'd) session" where
  "send_initial_metadata Z s =
     (if \<not> bug s then Inr s
      else if 0 \<notin> set (initialMetadata (tech s)) then Inl Unterminated
      else if length (c_str (initialMetadata (tech s))) > 0
      then Inr (s\<lparr>streamer := map_option (writeText Z True (initialMetadata (tech s))) (streamer s)\<rparr>)
      else Inr s)"

definition media_bug_close :: "('b, 'r, 'd) session \<Rightarrow> ('b, 'r, 'd) session" where
  "media_bug_close s =
     (if bug s then s\<lparr>tech := (tech s)\<lparr>close_requested := True\<rparr>, bug_closing := True\<rparr> else s)"

datatype notifyEvent_t = CONNECT_SUCCESS | CONNECT_ERROR | CONNECTION_DROPPED | MESSAGE

definition eventCallback ::
    "('d, 'i) ext \<Rightarrow> notifyEvent_t \<Rightarrow> bytes \<Rightarrow> ('b, 'r, 'd) session \<Rightarrow> fault + ('b, 'r, 'd) session" where
  "eventCallback Z event msg s =
     (if \<not> located s then Inr s
      else
        (case event of
           CONNECT_SUCCESS \<Rightarrow> map_sum id (responseHandler EVENT_CONNECT msg) (send_initial_metadata Z s)
         | CONNECTION_DROPPED \<Rightarrow> Inr (responseHandler EVENT_DISCONNECT msg s)
         | CONNECT_ERROR \<Rightarrow> Inr (media_bug_close (responseHandler EVENT_ERROR msg s))
         | MESSAGE \<Rightarrow> Inr (responseHandler EVENT_JSON msg s)))"

text \<open>The callbacks. Each one does nothing once the streamer is gone or has been cleaned up.\<close>

definition alive :: "('b, 'r, 'd) session \<Rightarrow> bool" where
  "alive s \<longleftrightarrow> (case streamer s of None \<Rightarrow> False | Some sp \<Rightarrow> \<not> m_cleanedUp sp)"

definition cb_on_message ::
    "cjson \<Rightarrow> ('b, 'r) sw \<Rightarrow> ('d, 'i) ext \<Rightarrow> bytes \<Rightarrow> ('b, 'r, 'd) session \<Rightarrow> fault + ('b, 'r, 'd) session" where
  "cb_on_message J W Z message s =
     (if \<not> alive s then Inr s
      else if json_type J (c_str message) = Some (ascii ''clear'')
      then map_sum id (\<lambda>t. s\<lparr>tech := t\<rparr>) (clearPlayback W (tech s))
      else eventCallback Z MESSAGE (c_str message) s)"

definition cb_on_binary :: "('b, 'r) sw \<Rightarrow> bytes \<Rightarrow> ('b, 'r, 'd) session \<Rightarrow> fault + ('b, 'r, 'd) session" where
  "cb_on_binary W data s =
     (if \<not> alive s then Inr s else map_sum id (\<lambda>t. s\<lparr>tech := t\<rparr>) (onBinary W data (tech s)))"

definition cb_on_open :: "cjson \<Rightarrow> ('d, 'i) ext \<Rightarrow> ('b, 'r, 'd) session \<Rightarrow> fault + ('b, 'r, 'd) session" where
  "cb_on_open J Z s =
     (if \<not> alive s then Inr s
      else eventCallback Z CONNECT_SUCCESS (json_print J (JObject [(ascii ''status'', JString (ascii ''connected''))])) s)"

definition error_number :: "ErrorCode \<Rightarrow> int" where
  "error_number code =
     (case code of IO \<Rightarrow> 1 | INVALID_HEADER \<Rightarrow> 2 | SERVER_MASKED \<Rightarrow> 3 | NOT_SUPPORTED \<Rightarrow> 4 | PING_TIMEOUT \<Rightarrow> 5
      | CONNECT_FAILED \<Rightarrow> 6 | TLS_INIT_FAILED \<Rightarrow> 7 | SSL_HANDSHAKE_FAILED \<Rightarrow> 8 | SSL_ERROR \<Rightarrow> 9 | TIMEOUT \<Rightarrow> 10
      | PROTOCOL \<Rightarrow> 11)"

definition cb_on_error ::
    "cjson \<Rightarrow> ('d, 'i) ext \<Rightarrow> int \<Rightarrow> bytes \<Rightarrow> ('b, 'r, 'd) session \<Rightarrow> fault + ('b, 'r, 'd) session" where
  "cb_on_error J Z code msg s =
     (if \<not> alive s then Inr s
      else eventCallback Z CONNECT_ERROR (json_print J (JObject [(ascii ''status'', JString (ascii ''error'')),
        (ascii ''message'', JObject [(ascii ''code'', JNumber code), (ascii ''error'', JString (c_str msg))])])) s)"

definition cb_on_close ::
    "cjson \<Rightarrow> ('d, 'i) ext \<Rightarrow> int \<Rightarrow> bytes \<Rightarrow> ('b, 'r, 'd) session \<Rightarrow> fault + ('b, 'r, 'd) session" where
  "cb_on_close J Z code reason s =
     (if \<not> alive s then Inr s
      else eventCallback Z CONNECTION_DROPPED (json_print J (JObject [(ascii ''status'', JString (ascii ''disconnected'')),
        (ascii ''message'', JObject [(ascii ''code'', JNumber code), (ascii ''reason'', JString (c_str reason))])])) s)"

text \<open>What the module does with the events of a connection: a frame sent is no callback.\<close>

definition handle ::
    "cjson \<Rightarrow> ('b, 'r) sw \<Rightarrow> ('d, 'i) ext \<Rightarrow> ctx_event \<Rightarrow> ('b, 'r, 'd) session \<Rightarrow> fault + ('b, 'r, 'd) session" where
  "handle J W Z e s =
     (case e of
        OnOpen \<Rightarrow> cb_on_open J Z s
      | OnError code msg \<Rightarrow> cb_on_error J Z (error_number code) msg s
      | OnClose code reason \<Rightarrow> cb_on_close J Z code reason s
      | OnMessage m \<Rightarrow> cb_on_message J W Z m s
      | OnBinary d \<Rightarrow> cb_on_binary W d s
      | Sent type raw \<Rightarrow> Inr s)"

fun handle_all ::
    "cjson \<Rightarrow> ('b, 'r) sw \<Rightarrow> ('d, 'i) ext \<Rightarrow> ctx_event list \<Rightarrow> ('b, 'r, 'd) session \<Rightarrow> fault + ('b, 'r, 'd) session" where
  "handle_all J W Z [] s = Inr s"
| "handle_all J W Z (e # es) s = (case handle J W Z e s of Inl f \<Rightarrow> Inl f | Inr s1 \<Rightarrow> handle_all J W Z es s1)"

section \<open>Lemmas\<close>

text \<open>The name of the event of the module, if any, that an event of the connection fires.\<close>

definition fires :: "cjson \<Rightarrow> ctx_event \<Rightarrow> bytes option" where
  "fires J e =
     (case e of
        OnOpen \<Rightarrow> Some EVENT_CONNECT
      | OnError code msg \<Rightarrow> Some EVENT_ERROR
      | OnClose code reason \<Rightarrow> Some EVENT_DISCONNECT
      | OnMessage m \<Rightarrow> if json_type J (c_str m) = Some (ascii ''clear'') then None else Some EVENT_JSON
      | _ \<Rightarrow> None)"

lemma event_names [simp]:
  "EVENT_CONNECT \<noteq> EVENT_DISCONNECT" "EVENT_CONNECT \<noteq> EVENT_ERROR" "EVENT_CONNECT \<noteq> EVENT_JSON"
  "EVENT_DISCONNECT \<noteq> EVENT_ERROR" "EVENT_DISCONNECT \<noteq> EVENT_JSON" "EVENT_ERROR \<noteq> EVENT_JSON"
  by (simp_all add: EVENT_CONNECT_def EVENT_DISCONNECT_def EVENT_ERROR_def EVENT_JSON_def ascii_def)

lemma handle_fires:
  assumes "handle J W Z e s = Inr s'" "alive s" "located s"
  shows "map fst (fired s') = map fst (fired s) @ (case fires J e of None \<Rightarrow> [] | Some n \<Rightarrow> [n]) \<and> alive s' \<and> located s'"
proof (cases e)
  case OnOpen
  then show ?thesis using assms
    by (auto simp: handle_def cb_on_open_def eventCallback_def fires_def send_initial_metadata_def responseHandler_def
        alive_def writeText_def split: if_split_asm option.splits)
next
  case (OnError code msg)
  then show ?thesis using assms
    by (auto simp: handle_def cb_on_error_def eventCallback_def fires_def responseHandler_def media_bug_close_def alive_def)
next
  case (OnClose code reason)
  then show ?thesis using assms
    by (auto simp: handle_def cb_on_close_def eventCallback_def fires_def responseHandler_def alive_def)
next
  case (OnMessage m)
  then show ?thesis using assms
    by (cases "clearPlayback W (tech s)")
      (auto simp: handle_def cb_on_message_def eventCallback_def fires_def responseHandler_def alive_def split: if_split_asm)
next
  case (OnBinary d)
  then show ?thesis using assms
    by (cases "onBinary W d (tech s)") (auto simp: handle_def cb_on_binary_def fires_def alive_def)
next
  case (Sent type raw)
  then show ?thesis using assms by (simp add: handle_def fires_def)
qed

lemma handle_all_fires:
  assumes "handle_all J W Z es s = Inr s'" "alive s" "located s"
  shows "map fst (fired s') = map fst (fired s) @ List.map_filter (fires J) es"
  using assms
proof (induction es arbitrary: s)
  case (Cons e es)
  then obtain s1 where "handle J W Z e s = Inr s1" "handle_all J W Z es s1 = Inr s'" by (auto split: sum.split_asm)
  then show ?case using Cons.IH [of s1] handle_fires [of J W Z e s s1] Cons.prems(2,3)
    by (simp add: map_filter_simps split: option.split)
qed (simp add: map_filter_simps)

lemma map_filter_split:
  "List.map_filter f es = xs @ n # ys \<Longrightarrow>
     \<exists>us e vs. es = us @ e # vs \<and> List.map_filter f us = xs \<and> f e = Some n \<and> List.map_filter f vs = ys"
proof (induction es arbitrary: xs)
  case (Cons a es)
  show ?case
  proof (cases "f a")
    case None
    then obtain us e vs where "es = us @ e # vs" "List.map_filter f us = xs" "f e = Some n" "List.map_filter f vs = ys"
      using Cons.IH [of xs] Cons.prems by (auto simp: map_filter_simps)
    then show ?thesis using None by (intro exI [of _ "a # us"] exI [of _ e] exI [of _ vs]) (simp add: map_filter_simps)
  next
    case (Some m)
    show ?thesis
    proof (cases xs)
      case Nil
      then show ?thesis using Some Cons.prems
        by (intro exI [of _ "[]"] exI [of _ a] exI [of _ es]) (simp add: map_filter_simps)
    next
      case (Cons x xs')
      then obtain us e vs where "es = us @ e # vs" "List.map_filter f us = xs'" "f e = Some n" "List.map_filter f vs = ys"
        using Cons.IH [of xs'] Cons.prems Some by (auto simp: map_filter_simps)
      then show ?thesis using Some Cons Cons.prems
        by (intro exI [of _ "a # us"] exI [of _ e] exI [of _ vs]) (simp add: map_filter_simps)
    qed
  qed
qed (simp add: map_filter_simps)

lemma in_map_filter: "n \<in> set (List.map_filter f es) \<longleftrightarrow> (\<exists>e \<in> set es. f e = Some n)"
  by (induction es) (auto simp: map_filter_simps split: option.split)

lemma fires_iff:
  "fires J e = Some EVENT_CONNECT \<longleftrightarrow> e = OnOpen"
  "fires J e = Some EVENT_DISCONNECT \<longleftrightarrow> (\<exists>code reason. e = OnClose code reason)"
  "fires J e = Some EVENT_JSON \<Longrightarrow> \<exists>m. e = OnMessage m"
  by (cases e; simp add: fires_def event_names [symmetric] split: if_split_asm)+

text \<open>What surrounds an event in the trace of a connection.\<close>

lemma trace_around:
  assumes "reachable ws_started (ws_step Z) w" "trace (ctx w) = us @ e # vs"
  shows "e = OnMessage m \<Longrightarrow> OnOpen \<in> set us \<and> (\<forall>code reason. OnClose code reason \<notin> set us)"
    "e = OnOpen \<Longrightarrow> OnOpen \<notin> set vs"
    "e = OnClose code reason \<Longrightarrow> (\<forall>c r m. OnClose c r \<notin> set vs \<and> OnMessage m \<notin> set vs)"
proof -
  obtain l1 l2 l where l: "life_run us life_start = Some l1" "life_step e l1 = Some l2" "life_run vs l2 = Some l"
    using reachable_life [OF assms(1)] life_split [of us e vs] unfolding assms(2) by metis
  show "OnOpen \<in> set us \<and> (\<forall>code reason. OnClose code reason \<notin> set us)" if "e = OnMessage m"
  proof -
    have "opened l1" "\<not> closed l1" using l(2) that by (auto split: if_split_asm)
    moreover have "closed l1" if "OnClose code reason \<in> set us" for code reason
      using life_closed [OF l(1)] that by blast
    ultimately show ?thesis using life_opened [OF l(1)] by (auto simp: life_start_def)
  qed
  show "OnOpen \<notin> set vs" if "e = OnOpen"
  proof -
    have "opened l2" using l(2) that by (auto split: if_split_asm)
    then show ?thesis using life_opened_once [OF l(3)] by simp
  qed
  show "\<forall>c r m. OnClose c r \<notin> set vs \<and> OnMessage m \<notin> set vs" if "e = OnClose code reason"
    using life_after_close [OF l(3)] l(2) that by (auto split: if_split_asm)
qed

section \<open>Properties\<close>

text \<open>C27: the events a call fires on FreeSWITCH are well ordered, in any run of the connection: at most one
  connect event, a json event only after it, at most one disconnect event and no json event after it.\<close>

theorem module_events_ordered:
  assumes "reachable ws_started (ws_step Z) w" "handle_all J W Z (trace (ctx w)) s = Inr s'" "alive s" "located s"
    "fired s = []" "map fst (fired s') = xs @ n # ys"
  shows "(n = EVENT_JSON \<longrightarrow> EVENT_CONNECT \<in> set xs \<and> EVENT_DISCONNECT \<notin> set xs) \<and>
    (n = EVENT_CONNECT \<longrightarrow> EVENT_CONNECT \<notin> set ys) \<and>
    (n = EVENT_DISCONNECT \<longrightarrow> EVENT_DISCONNECT \<notin> set ys \<and> EVENT_JSON \<notin> set ys)"
proof -
  have "List.map_filter (fires J) (trace (ctx w)) = xs @ n # ys"
    using handle_all_fires [OF assms(2-4)] assms(5,6) by simp
  from map_filter_split [OF this] obtain us e vs where e: "trace (ctx w) = us @ e # vs" "List.map_filter (fires J) us = xs" "fires J e = Some n"
    "List.map_filter (fires J) vs = ys"
    by blast
  note around = trace_around [OF assms(1) e(1)]
  note inxs = in_map_filter [of _ "fires J" us, unfolded e(2)] and inys = in_map_filter [of _ "fires J" vs, unfolded e(4)]
  show ?thesis
  proof (intro conjI impI)
    assume n: "n = EVENT_JSON"
    then obtain m where m: "e = OnMessage m" using fires_iff(3) e(3) by blast
    show "EVENT_CONNECT \<in> set xs" "EVENT_DISCONNECT \<notin> set xs"
      using around(1) [OF m] unfolding inxs fires_iff by blast+
  next
    assume "n = EVENT_CONNECT"
    then have "e = OnOpen" using fires_iff(1) e(3) by blast
    then show "EVENT_CONNECT \<notin> set ys" using around(2) unfolding inys fires_iff by blast
  next
    assume "n = EVENT_DISCONNECT"
    then obtain code reason where "e = OnClose code reason" using fires_iff(2) e(3) by blast
    note after = around(3) [OF this]
    show "EVENT_DISCONNECT \<notin> set ys" using after unfolding inys fires_iff by blast
    show "EVENT_JSON \<notin> set ys" using after fires_iff(3) unfolding inys by blast
  qed
qed

text \<open>A call whose server has closed the connection.\<close>

definition no_json :: cjson where
  "no_json = \<lparr>json_type = (\<lambda>_. None), json_members = (\<lambda>_. None), json_print = (\<lambda>_. [])\<rparr>"

definition demo_session :: "unit ctx \<Rightarrow> (nat \<times> bytes, unit, unit) session" where
  "demo_session x = \<lparr>tech = demo_uplink\<lparr>initialMetadata := strncpy (initialMetadata demo_uplink) [0x7B, 0x7D] MAX_METADATA_LEN\<rparr>,
     streamer = Some \<lparr>s_client = demo_client\<lparr>cl_ctx := Some x\<rparr>, m_sessionId = ascii ''id'', m_suppress_log = False,
       m_cleanedUp = False\<rparr>,
     bug = True, bug_attached = True, bug_closing = False, located = True, fired = []\<rparr>"

lemma demo_metadata: "c_str (initialMetadata (tech (demo_session x))) = [0x7B, 0x7D]"
  "0 \<in> set (initialMetadata (tech (demo_session x)))"
proof -
  have "c_str (strncpy dst [0x7B, 0x7D] MAX_METADATA_LEN) = [0x7B, 0x7D]" for dst
    using c_str_strncpy [of "[0x7B, 0x7D]" MAX_METADATA_LEN dst] by (simp add: c_str_def MAX_METADATA_LEN_def)
  then show "c_str (initialMetadata (tech (demo_session x))) = [0x7B, 0x7D]" by (simp add: demo_session_def)
  show "0 \<in> set (initialMetadata (tech (demo_session x)))"
    by (simp add: demo_session_def strncpy_def c_str_def MAX_METADATA_LEN_def Let_def)
qed

theorem module_events_ordered_witness:
  "\<exists>s'. handle_all no_json list_sw stored_ext (trace (ctx demo_closed)) (demo_session (ctx demo_closed)) = Inr s' \<and>
     map fst (fired s') = [EVENT_CONNECT, EVENT_DISCONNECT] \<and> EVENT_CONNECT \<notin> set [EVENT_DISCONNECT]"
proof -
  let ?s = "demo_session (ctx demo_closed)"
  have s: "alive ?s" "located ?s" "fired ?s = []" by (simp_all add: demo_session_def alive_def)
  have "\<exists>s1. send_initial_metadata stored_ext ?s = Inr s1"
    by (simp add: send_initial_metadata_def demo_metadata)
  then obtain s1 where "send_initial_metadata stored_ext ?s = Inr s1" by blast
  then obtain s2 where "handle no_json list_sw stored_ext OnOpen ?s = Inr s2"
    using s(1,2) by (simp add: handle_def cb_on_open_def eventCallback_def)
  moreover have "\<exists>s3. handle no_json list_sw stored_ext (OnClose 1000 []) s2 = Inr s3"
    by (simp add: handle_def cb_on_close_def eventCallback_def)
  then obtain s3 where "handle no_json list_sw stored_ext (OnClose 1000 []) s2 = Inr s3" by blast
  moreover have "handle no_json list_sw stored_ext (Sent CLOSE [0x03, 0xE8]) s2 = Inr s2"
    by (simp add: handle_def)
  ultimately have "\<exists>s'. handle_all no_json list_sw stored_ext (trace (ctx demo_closed)) ?s = Inr s'"
    unfolding demo_closed_trace by simp
  then obtain s' where run: "handle_all no_json list_sw stored_ext (trace (ctx demo_closed)) ?s = Inr s'" by blast
  then have names: "map fst (fired s') = [] @ EVENT_CONNECT # [EVENT_DISCONNECT]"
    using handle_all_fires [OF run s(1,2)] s(3) by (simp add: demo_closed_trace fires_def map_filter_simps)
  then show ?thesis using run module_events_ordered [OF demo_closed_reachable run s names] by simp
qed

text \<open>The metadata of the call is not the first message: the audio captured while the connection was
  being set up has been queued, and goes out at the upgrade, before the open callback sends the metadata.\<close>

theorem metadata_after_audio:
  assumes "reachable ws_started (ws_step Z) w" "\<not> dead w" "\<not> upgraded (ctx w)"
    "\<not> cfg_compression_requested (config (ctx w))"
    "headerBytes resp = length resp" "resp \<noteq> []" "upgrade_accepted resp"
    "streamer s = Some sp" "cl_ctx (s_client sp) = Some (ctx (handleRead Z (w\<lparr>input := resp\<rparr>)))" "\<not> m_cleanedUp sp"
    "located s" "bug s" "0 \<in> set (initialMetadata (tech s))" "c_str (initialMetadata (tech s)) = metadata" "metadata \<noteq> []"
  shows "\<exists>s' sp' x. cb_on_open J Z s = Inr s' \<and> streamer s' = Some sp' \<and> cl_ctx (s_client sp') = Some x \<and>
    trace x = trace (ctx w) @ map pending_frame (send_queue (ctx w)) @ [OnOpen, Sent TEXT metadata]"
proof -
  define x0 where "x0 = ctx (handleRead Z (w\<lparr>input := resp\<rparr>))"
  note up = upgrade_flushes [OF assms(1-7), folded x0_def]
  define x where "x = ctx_send Z metadata TEXT x0"
  define sp' where "sp' = sp\<lparr>s_client := (s_client sp)\<lparr>cl_ctx := Some x\<rparr>\<rparr>"
  have meta: "c_str (initialMetadata (tech s)) = metadata" by (rule assms(14))
  have "sendData Z True metadata TEXT x0 = (True, x)" using up by (simp add: sendData_def sendNow_def x_def)
  then have "writeText Z True (initialMetadata (tech s)) sp = sp'"
    using assms(9) up(3) meta
    by (simp add: writeText_def client_isConnected_def isConnected_def x0_def [symmetric] sendMessage_def client_send_def sp'_def)
  then have "cb_on_open J Z s = Inr (responseHandler EVENT_CONNECT
      (json_print J (JObject [(ascii ''status'', JString (ascii ''connected''))])) (s\<lparr>streamer := Some sp'\<rparr>))"
    using assms(8,10-13,15) meta
    by (simp add: cb_on_open_def alive_def eventCallback_def send_initial_metadata_def)
  moreover have "trace x = trace x0 @ [Sent TEXT metadata]"
    by (rule ctx_send_shape [of Z metadata TEXT x0]) (simp add: x_def is_control_frame_def)
  ultimately show ?thesis using up(1) by (simp add: responseHandler_def sp'_def)
qed

text \<open>A call whose audio was captured before the server answered.\<close>

definition demo_early :: "(unit, unit) world" where
  "demo_early = demo_world\<lparr>ctx := snd (sendData stored_ext False [1, 2] BINARY (ctx demo_world))\<rparr>"

lemma demo_early: "reachable ws_started (ws_step stored_ext) demo_early" "trace (ctx demo_early) = []"
  "send_queue (ctx demo_early) = [PBinary [1, 2]]" "\<not> dead demo_early" "\<not> upgraded (ctx demo_early)"
  "\<not> cfg_compression_requested (config (ctx demo_early))"
proof -
  have "ws_step stored_ext demo_world demo_early"
    using api_send [of BINARY False demo_world stored_ext "[1, 2]"] by (simp add: demo_early_def)
  then show "reachable ws_started (ws_step stored_ext) demo_early"
    using reachable_init [of ws_started, OF demo_started] reachable_step by metis
qed (simp_all add: demo_early_def sendData_def enqueue_def MAX_QUEUE_SIZE_def demo_defs ascii_Cons)

theorem metadata_after_audio_witness:
  "\<exists>s' sp' x. cb_on_open no_json stored_ext (demo_session (ctx (handleRead stored_ext (demo_early\<lparr>input := demo_response\<rparr>)))) = Inr s' \<and>
     streamer s' = Some sp' \<and> cl_ctx (s_client sp') = Some x \<and>
     trace x = [Sent BINARY [1, 2], OnOpen, Sent TEXT [0x7B, 0x7D]]"
proof -
  let ?s = "demo_session (ctx (handleRead stored_ext (demo_early\<lparr>input := demo_response\<rparr>)))"
  have "demo_response \<noteq> []" using demo_headers(2) by auto
  then show ?thesis
    using metadata_after_audio [OF demo_early(1,4-6), of demo_response ?s "the (streamer ?s)" "[0x7B, 0x7D]" no_json]
      demo_headers demo_early(2,3) demo_metadata [of "ctx (handleRead stored_ext (demo_early\<lparr>input := demo_response\<rparr>))"]
    by (simp add: pending_frame_def demo_session_def)
qed

end
