(* ===== verification/Module.thy ===== *)
theory Module
  imports Streamer Utf8
begin

text \<open>
  The module from the outside: the checks of the arguments, the start of a session
  (\<open>stream_session_init\<close>, \<open>start_capture\<close>), its end (\<open>stream_session_cleanup\<close>), the media bug's callback
  and the API command. What FreeSWITCH, the resolver and OpenSSL answer is a record of the environment.
\<close>

section \<open>Arguments\<close>

definition host_char :: "byte \<Rightarrow> bool" where
  "host_char b \<longleftrightarrow> is_digit b \<or> (0x41 \<le> b \<and> b \<le> 0x5A) \<or> (0x61 \<le> b \<and> b \<le> 0x7A) \<or> b = 0x2D \<or> b = 0x2E"

text \<open>The result is the array the URI is copied to.\<close>

definition validate_ws_uri :: "bytes \<Rightarrow> bytes option" where
  "validate_ws_uri url0 =
     (let url = c_str url0 in
      case (if take 5 url = ascii ''ws://'' then Some (drop 5 url)
            else if take 6 url = ascii ''wss://'' then Some (drop 6 url) else None) of
        None \<Rightarrow> None
      | Some r \<Rightarrow>
          (let host = takeWhile (\<lambda>b. b \<noteq> 0x3A \<and> b \<noteq> 0x2F) r; rest = drop (length host) r in
           if \<not> list_all host_char host then None
           else if host = [] then None
           else if rest \<noteq> [] \<and> hd rest = 0x3A \<and> \<not> list_all is_digit (takeWhile (\<lambda>b. b \<noteq> 0x2F) (tl rest)) then None
           else Some (strncpy (replicate MAX_WS_URI 0) url MAX_WS_URI)))"

text \<open>\<open>strtol\<close> in base 10, with the rest it points to, and \<open>atoi\<close>.\<close>

definition strtol :: "bytes \<Rightarrow> int \<times> bytes" where
  "strtol s =
     (let s1 = dropWhile is_space s;
          neg = (s1 \<noteq> [] \<and> hd s1 = 0x2D);
          s2 = (if s1 \<noteq> [] \<and> (hd s1 = 0x2D \<or> hd s1 = 0x2B) then tl s1 else s1);
          ds = takeWhile is_digit s2;
          v = (if neg then - digits_value ds else digits_value ds)
      in if ds = [] then (0, s) else (max (- (2 ^ 63)) (min (2 ^ 63 - 1) v), dropWhile is_digit s2))"

definition atoi :: "bytes \<Rightarrow> int" where
  "atoi s = sint (word_of_int (fst (strtol s)) :: u32)"

section \<open>The environment\<close>

text \<open>\<open>e_client0\<close> is the client as its constructor leaves it, \<open>e_deflate0\<close> and \<open>e_heart_beat0\<close> are the
  values the uninitialised variables \<open>deflate\<close> and \<open>heart_beat\<close> happen to have.\<close>

record 'd call_env =
  e_uuid :: bytes
  e_var :: "string \<Rightarrow> bytes option"
  e_var_true :: "string \<Rightarrow> bool"
  e_pton4 :: "bytes \<Rightarrow> bool"
  e_pton6 :: "bytes \<Rightarrow> bool"
  e_resolve :: "bytes \<Rightarrow> bytes option"
  e_client0 :: "'d client"
  e_sha1 :: "(bytes \<Rightarrow> bytes) option"
  e_nonce :: bytes
  e_thread :: bool
  e_deflate0 :: int
  e_heart_beat0 :: int
  e_alloc :: bool
  e_pre_answer :: bool
  e_codec_rate :: u32
  e_bug_add :: bool

section \<open>Start\<close>

text \<open>The host of a ws:// URL is replaced by its address.\<close>

definition pre_resolve :: "'d call_env \<Rightarrow> bytes \<Rightarrow> bytes" where
  "pre_resolve E uri =
     (if take 5 uri = ascii ''ws://'' then
        (let hostEnd = find_first_of uri (ascii '':/'') 5;
             host = (case hostEnd of None \<Rightarrow> drop 5 uri | Some e \<Rightarrow> substr uri 5 (e - 5))
         in if host \<noteq> [] \<and> \<not> e_pton4 E (c_str host) then
              (case e_resolve E (c_str host) of
                 None \<Rightarrow> uri
               | Some ip \<Rightarrow> take 5 uri @ ip @ drop (5 + length host) uri)
            else uri)
      else uri)"

definition int_digits :: "int \<Rightarrow> bytes" where
  "int_digits i = (if i < 0 then 0x2D # nat_digits (nat (- i)) else nat_digits (nat i))"

definition stream_query :: "int \<Rightarrow> int \<Rightarrow> bytes \<Rightarrow> bytes" where
  "stream_query desired ch sid =
     ascii ''rate='' @ int_digits desired @ ascii ''&mix='' @ (if ch = 2 then ascii ''stereo'' else ascii ''mono'')
       @ ascii ''&uuid='' @ sid"

definition stream_uri :: "int \<Rightarrow> int \<Rightarrow> bytes \<Rightarrow> bytes \<Rightarrow> bytes" where
  "stream_uri desired ch sid uri =
     uri @ (if find_sub uri (ascii ''?'') 0 = None then ascii ''?'' else ascii ''&'') @ stream_query desired ch sid"

text \<open>The sizes of the buffers; a negative product becomes a huge size. The size of the uplink's buffer is computed in
  int, from left to right, before it is converted: \<open>sbuffer_len_fits\<close> says that no product leaves the type.\<close>

definition int_fits :: "int \<Rightarrow> bool" where
  "int_fits i \<longleftrightarrow> - (2 ^ 31) \<le> i \<and> i < 2 ^ 31"

definition sbuffer_len_fits :: "int \<Rightarrow> int \<Rightarrow> int \<Rightarrow> bool" where
  "sbuffer_len_fits desired ch rtp \<longleftrightarrow>
     int_fits (FRAME_SIZE_8000 * desired) \<and> int_fits ((FRAME_SIZE_8000 * desired sdiv 8000) * ch) \<and>
     int_fits ((FRAME_SIZE_8000 * desired sdiv 8000) * ch * rtp)"

definition sbuffer_len :: "int \<Rightarrow> int \<Rightarrow> int \<Rightarrow> nat" where
  "sbuffer_len desired ch rtp = unat (word_of_int ((FRAME_SIZE_8000 * desired sdiv 8000) * ch * rtp) :: u64)"

definition play_len :: "int \<Rightarrow> int \<Rightarrow> nat" where
  "play_len rate ch = unat (word_of_int (rate * 2 * ch * int (MAX_PLAY_BUFFER_MS div 1000)) :: u64)"

text \<open>The buffers and the resampler, with the returns where one cannot be made.\<close>

definition init_buffers ::
    "('b, 'r) sw \<Rightarrow> u32 \<Rightarrow> int \<Rightarrow> int \<Rightarrow> int \<Rightarrow> ('b, 'r) private_t \<Rightarrow> bool \<times> ('b, 'r) private_t" where
  "init_buffers W smp desired ch rtp t =
     (case buf_create W (sbuffer_len desired ch rtp) of
        None \<Rightarrow> (False, t)
      | Some b \<Rightarrow>
          (let t1 = t\<lparr>sbuffer := Some b\<rparr> in
           case buf_create W (play_len desired ch) of
             None \<Rightarrow> (False, t1)
           | Some p \<Rightarrow>
               (let t2 = t1\<lparr>play_buffer := Some p\<rparr> in
                case buf_create W (play_len 48000 ch) of
                  None \<Rightarrow> (False, t2)
                | Some st \<Rightarrow>
                    (let t3 = t2\<lparr>dl_stash := Some st\<rparr> in
                     if word_of_int desired \<noteq> smp then
                       (case spx_init W (word_of_int ch) smp (word_of_int desired) of
                          None \<Rightarrow> (False, t3)
                        | Some r \<Rightarrow> (True, t3\<lparr>resampler := Some r\<rparr>))
                     else (True, t3)))))"

text \<open>\<open>private_t\<close> before the connection is made. The id of the session is copied with the full size of its array, which a uuid
  of 256 characters or more leaves without a NUL, and then appended to the URI as a C string: \<open>stream_data_init\<close> goes on only where
  that is one.\<close>

definition call_tech ::
    "'d call_env \<Rightarrow> bytes \<Rightarrow> int \<Rightarrow> int \<Rightarrow> bytes option \<Rightarrow> int \<Rightarrow> ('b, 'r) private_t" where
  "call_tech E wsUri desired ch metadata rtp =
     (let t0 = zero_tech;
          sid = strncpy (sessionId t0) (e_uuid E) MAX_SESSION_ID;
          uri = stream_uri desired ch (c_str sid) (pre_resolve E (c_str wsUri))
      in t0\<lparr>sessionId := sid, ws_uri := strncpy (ws_uri t0) uri (MAX_WS_URI - 1),
            sampling := desired, rtp_packets := rtp, channels := ch,
            initialMetadata := (case metadata of
                None \<Rightarrow> initialMetadata t0
              | Some m \<Rightarrow> strncpy (initialMetadata t0) m MAX_METADATA_LEN)\<rparr>)"

definition stream_data_init ::
    "cjson \<Rightarrow> ('b, 'r) sw \<Rightarrow> ('d, 'i) ext \<Rightarrow> 'd call_env \<Rightarrow> bytes \<Rightarrow> int \<Rightarrow> int \<Rightarrow> bytes option \<Rightarrow> stream_settings
      \<Rightarrow> ('b, 'r, 'd) session \<Rightarrow> fault + bool \<times> ('b, 'r, 'd) session" where
  "stream_data_init J W Z E wsUri desired ch metadata S s =
     (if 0 \<notin> set wsUri then Inl Unterminated
      else
        (let t1 = call_tech E wsUri desired ch metadata (set_rtp_packets S) in
         if 0 \<notin> set (sessionId t1) then Inl Unterminated
         else if \<not> sbuffer_len_fits desired ch (set_rtp_packets S) then Inl IntOverflow
         else
         case streamer_create J (e_pton4 E) (e_pton6 E) Z (e_sha1 E) (e_nonce E) (e_thread E) (e_client0 E)
                (c_str (sessionId t1)) (c_str (ws_uri t1)) S of
           Inl f \<Rightarrow> Inl f
         | Inr sp \<Rightarrow>
             (case init_buffers W (e_codec_rate E) desired ch (set_rtp_packets S)
                     (t1\<lparr>pAudioStreamer := True, mutex := True, play_mutex := True\<rparr>) of
                (ok, t2) \<Rightarrow> Inr (ok, s\<lparr>tech := t2, streamer := Some sp\<rparr>))))"

text \<open>The settings from the channel variables.\<close>

definition stream_settings :: "'d call_env \<Rightarrow> stream_settings" where
  "stream_settings E =
     (let deflate = (if e_var_true E ''STREAM_MESSAGE_DEFLATE'' then 1 else e_deflate0 E);
          heart_beat = (case e_var E ''STREAM_HEART_BEAT'' of
              None \<Rightarrow> e_heart_beat0 E
            | Some v \<Rightarrow> (case strtol v of
                (value, rest) \<Rightarrow> if rest = [] \<and> value \<le> 2 ^ 31 - 1 \<and> - (2 ^ 31) \<le> value then value else e_heart_beat0 E));
          rtp = (case e_var E ''STREAM_BUFFER_SIZE'' of
              None \<Rightarrow> 1
            | Some v \<Rightarrow> (let bSize = atoi v in if bSize mod 20 \<noteq> 0 then 1 else if bSize \<ge> 20 then bSize div 20 else 1))
      in \<lparr>set_deflate = deflate, set_heart_beat = heart_beat, set_suppress_log = e_var_true E ''STREAM_SUPPRESS_LOG'',
          set_rtp_packets = rtp, set_extra_headers = e_var E ''STREAM_EXTRA_HEADERS'',
          set_cafile = e_var E ''STREAM_TLS_CA_FILE'', set_keyfile = e_var E ''STREAM_TLS_KEY_FILE'',
          set_certfile = e_var E ''STREAM_TLS_CERT_FILE'',
          set_no_hostname_check = e_var_true E ''STREAM_TLS_DISABLE_HOSTNAME_VALIDATION''\<rparr>)"

definition stream_session_init ::
    "cjson \<Rightarrow> ('b, 'r) sw \<Rightarrow> ('d, 'i) ext \<Rightarrow> 'd call_env \<Rightarrow> bytes \<Rightarrow> int \<Rightarrow> int \<Rightarrow> bytes option
      \<Rightarrow> ('b, 'r, 'd) session \<Rightarrow> fault + bool \<times> ('b, 'r, 'd) session" where
  "stream_session_init J W Z E wsUri desired ch metadata s =
     (if \<not> e_alloc E then Inr (False, s)
      else
        (case stream_data_init J W Z E wsUri desired ch metadata (stream_settings E) s of
           Inl f \<Rightarrow> Inl f
         | Inr (True, s1) \<Rightarrow> Inr (True, s1)
         | Inr (False, s1) \<Rightarrow> Inr (False, s1\<lparr>tech := destroy_tech_pvt (tech s1)\<rparr>)))"

definition start_capture ::
    "cjson \<Rightarrow> ('b, 'r) sw \<Rightarrow> ('d, 'i) ext \<Rightarrow> 'd call_env \<Rightarrow> bool \<Rightarrow> bytes \<Rightarrow> int \<Rightarrow> bytes option
      \<Rightarrow> ('b, 'r, 'd) session \<Rightarrow> fault + bool \<times> ('b, 'r, 'd) session" where
  "start_capture J W Z E stereo wsUri desired metadata s =
     (if bug s then Inr (False, s)
      else if \<not> e_pre_answer E then Inr (False, s)
      else
        (case stream_session_init J W Z E wsUri desired (if stereo then 2 else 1) metadata s of
           Inl f \<Rightarrow> Inl f
         | Inr (False, s1) \<Rightarrow> Inr (False, s1)
         | Inr (True, s1) \<Rightarrow>
             if \<not> e_bug_add E then Inr (False, s1)
             else Inr (True, s1\<lparr>bug := True, bug_attached := True\<rparr>)))"

section \<open>End\<close>

text \<open>\<open>on_event\<close> says whether the caller is the event thread of the connection. Removing the bug makes
  FreeSWITCH call back with ABC_TYPE_CLOSE, which finds no bug any more and returns. The id of the session is first copied
  with strcpy to an array of its size.\<close>

definition stream_session_cleanup ::
    "('d, 'i) ext \<Rightarrow> bool \<Rightarrow> bytes option \<Rightarrow> bool \<Rightarrow> ('b, 'r, 'd) session \<Rightarrow> fault + bool \<times> ('b, 'r, 'd) session" where
  "stream_session_cleanup Z on_event txt channelIsClosing s =
     (if \<not> bug s then Inr (False, s)
      else if 0 \<notin> set (sessionId (tech s)) then Inl Unterminated
      else if \<not> mutex (tech s) then Inl NullMutex
      else if cleanup_started (tech s) then Inr (True, s)
      else
        (let held = (if pAudioStreamer (tech s) then streamer s else None);
             s1 = s\<lparr>tech := (tech s)\<lparr>cleanup_started := True, pAudioStreamer := False\<rparr>, bug := False\<rparr>;
             s2 = (if \<not> channelIsClosing then s1\<lparr>bug_attached := False\<rparr> else s1);
             s3 = (case held of
                     None \<Rightarrow> s2
                   | Some sp \<Rightarrow>
                       s2\<lparr>streamer := Some (disconnect (markCleanedUp
                         (case txt of None \<Rightarrow> sp | Some m \<Rightarrow> writeText Z on_event m sp)))\<rparr>)
         in Inr (True, s3\<lparr>tech := destroy_tech_pvt (tech s3)\<rparr>)))"

definition stream_session_send_text ::
    "('d, 'i) ext \<Rightarrow> bytes \<Rightarrow> ('b, 'r, 'd) session \<Rightarrow> fault + bool \<times> ('b, 'r, 'd) session" where
  "stream_session_send_text Z txt s =
     (if \<not> bug s then Inr (False, s)
      else if \<not> mutex (tech s) then Inl NullMutex
      else
        (case (if pAudioStreamer (tech s) then streamer s else None) of
           None \<Rightarrow> Inr (False, s)
         | Some sp \<Rightarrow> Inr (True, s\<lparr>streamer := Some (writeText Z False txt sp)\<rparr>)))"

definition stream_session_pauseresume :: "bool \<Rightarrow> ('b, 'r, 'd) session \<Rightarrow> bool \<times> ('b, 'r, 'd) session" where
  "stream_session_pauseresume pause s =
     (if \<not> bug s then (False, s) else (True, s\<lparr>tech := (tech s)\<lparr>audio_paused := pause\<rparr>\<rparr>))"

section \<open>The media bug\<close>

datatype switch_abc_type_t = ABC_INIT | ABC_CLOSE | ABC_READ | ABC_WRITE_REPLACE | ABC_WRITE

text \<open>The callback, with the frames captured and the frame for the caller. The result says whether the
  bug stays.\<close>

definition capture_callback ::
    "('b, 'r) sw \<Rightarrow> ('d, 'i) ext \<Rightarrow> bool \<Rightarrow> bool \<Rightarrow> (bytes \<times> nat) list \<Rightarrow> switch_frame option \<Rightarrow> switch_abc_type_t
      \<Rightarrow> ('b, 'r, 'd) session \<Rightarrow> fault + bool \<times> ('b, 'r, 'd) session \<times> switch_frame option" where
  "capture_callback W Z on_event lock_free frames fro type s =
     (case type of
        ABC_CLOSE \<Rightarrow>
          map_sum id (\<lambda>(ok, s1). (True, s1, fro)) (stream_session_cleanup Z on_event None (\<not> close_requested (tech s)) s)
      | ABC_READ \<Rightarrow>
          if close_requested (tech s) then Inr (False, s, fro)
          else
            (case streamer s of
               None \<Rightarrow>
                 if audio_paused (tech s) \<or> cleanup_started (tech s) \<or> mutex (tech s) then Inr (True, s, fro)
                 else Inl NullMutex
             | Some sp \<Rightarrow>
                 map_sum id (\<lambda>(t, c). (True, s\<lparr>tech := t, streamer := Some (sp\<lparr>s_client := c\<rparr>)\<rparr>, fro))
                   (stream_frame W Z lock_free frames (tech s) (s_client sp)))
      | ABC_WRITE_REPLACE \<Rightarrow>
          if close_requested (tech s) then Inr (False, s, fro)
          else map_sum id (\<lambda>(t, fro1). (True, s\<lparr>tech := t\<rparr>, fro1)) (stream_playback_frame W fro (tech s))
      | _ \<Rightarrow> Inr (True, s, fro))"

section \<open>The API command\<close>

definition do_stop :: "('d, 'i) ext \<Rightarrow> bytes option \<Rightarrow> ('b, 'r, 'd) session \<Rightarrow> fault + bool \<times> ('b, 'r, 'd) session" where
  "do_stop Z txt s = stream_session_cleanup Z False txt False s"

definition do_pauseresume :: "bool \<Rightarrow> ('b, 'r, 'd) session \<Rightarrow> bool \<times> ('b, 'r, 'd) session" where
  "do_pauseresume pause s = stream_session_pauseresume pause s"

definition send_text :: "('d, 'i) ext \<Rightarrow> bytes \<Rightarrow> ('b, 'r, 'd) session \<Rightarrow> fault + bool \<times> ('b, 'r, 'd) session" where
  "send_text Z txt s = (if bug s then stream_session_send_text Z txt s else Inr (False, s))"

text \<open>The answer: usage, success, failure, or nothing at all.\<close>

datatype api_reply = Usage | Ok | Failed | NoReply

definition reply :: "fault + bool \<times> ('b, 'r, 'd) session \<Rightarrow> fault + api_reply \<times> ('b, 'r, 'd) session" where
  "reply r = map_sum id (\<lambda>(ok, s). (if ok then Ok else Failed, s)) r"

text \<open>The branch for start. A missing argument is a null pointer.\<close>

definition start_command ::
    "cjson \<Rightarrow> ('b, 'r) sw \<Rightarrow> ('d, 'i) ext \<Rightarrow> 'd call_env \<Rightarrow> bytes list \<Rightarrow> ('b, 'r, 'd) session
      \<Rightarrow> fault + api_reply \<times> ('b, 'r, 'd) session" where
  "start_command J W Z E argv s =
     (let argc = length argv; metadata = (if argc > 5 then Some (argv ! 5) else None) in
      if metadata \<noteq> None \<and> is_valid_utf8 (argv ! 2) \<noteq> Some True then Inr (NoReply, s)
      else if argc < 4 then Inl NullString
      else if argv ! 3 \<notin> {ascii ''mixed'', ascii ''stereo'', ascii ''mono''} then Inr (NoReply, s)
      else
        (let smp = (if argc > 4 then
                      (if argv ! 4 = ascii ''16k'' then 16000 else if argv ! 4 = ascii ''8k'' then 8000 else atoi (argv ! 4))
                    else 8000)
         in case validate_ws_uri (argv ! 2) of
              None \<Rightarrow> Inr (Failed, s)
            | Some wsUri \<Rightarrow>
                if smp mod 8000 \<noteq> 0 then Inr (Failed, s)
                else reply (start_capture J W Z E (argv ! 3 = ascii ''stereo'') wsUri smp metadata s)))"

definition stream_function ::
    "cjson \<Rightarrow> ('b, 'r) sw \<Rightarrow> ('d, 'i) ext \<Rightarrow> 'd call_env \<Rightarrow> bytes list \<Rightarrow> ('b, 'r, 'd) session
      \<Rightarrow> fault + api_reply \<times> ('b, 'r, 'd) session" where
  "stream_function J W Z E argv s =
     (let argc = length argv in
      if argc < 2 \<or> (argv ! 1 = ascii ''start'' \<and> argc < 4) then Inr (Usage, s)
      else if \<not> located s then Inr (Failed, s)
      else
        (let cmd = lower (argv ! 1) in
         if cmd = ascii ''stop'' then
           (if argc > 2 \<and> is_valid_utf8 (argv ! 2) \<noteq> Some True then Inr (NoReply, s)
            else reply (do_stop Z (if argc > 2 then Some (argv ! 2) else None) s))
         else if cmd = ascii ''pause'' then reply (Inr (do_pauseresume True s))
         else if cmd = ascii ''resume'' then reply (Inr (do_pauseresume False s))
         else if cmd = ascii ''send_text'' then
           (if argc < 3 then Inr (NoReply, s)
            else if is_valid_utf8 (argv ! 2) \<noteq> Some True then Inr (NoReply, s)
            else reply (send_text Z (argv ! 2) s))
         else if cmd = ascii ''start'' then start_command J W Z E argv s
         else Inr (Failed, s)))"

section \<open>Lemmas\<close>

text \<open>What a successful creation of the buffers leaves.\<close>

lemma init_buffers_ok:
  assumes "buffer_doc W content cap" "init_buffers W smp desired ch rtp t = (True, t')"
  obtains b p st rs where "t' = t\<lparr>sbuffer := Some b, play_buffer := Some p, dl_stash := Some st, resampler := rs\<rparr>"
    "content b = [] \<and> cap b = sbuffer_len desired ch rtp" "content p = [] \<and> cap p = play_len desired ch"
    "content st = [] \<and> cap st = play_len 48000 ch"
    "if word_of_int desired = smp then rs = resampler t else rs \<noteq> None"
proof -
  obtain b p st where b: "buf_create W (sbuffer_len desired ch rtp) = Some b" "buf_create W (play_len desired ch) = Some p"
    "buf_create W (play_len 48000 ch) = Some st"
    using assms(2) by (auto simp: init_buffers_def Let_def split: option.split_asm)
  note doc = buffer_docD(11) [OF assms(1)]
  let ?t = "t\<lparr>sbuffer := Some b, play_buffer := Some p, dl_stash := Some st\<rparr>"
  show ?thesis
  proof (cases "word_of_int desired = smp")
    case True
    have t': "t' = ?t" using assms(2) b True by (simp add: init_buffers_def)
    have "t' = ?t\<lparr>resampler := resampler t\<rparr>" unfolding t' by (cases t) simp
    then show ?thesis using doc [OF b(1)] doc [OF b(2)] doc [OF b(3)] True that [where b = b and p = p and st = st and rs = "resampler t"] by simp
  next
    case False
    then obtain r where "t' = ?t\<lparr>resampler := Some r\<rparr>"
      using assms(2) b by (auto simp: init_buffers_def Let_def split: option.split_asm)
    then show ?thesis using doc [OF b(1)] doc [OF b(2)] doc [OF b(3)] False
        that [where b = b and p = p and st = st and rs = "Some r"] by simp
  qed
qed

lemma init_buffers_frame:
  "mutex (snd (init_buffers W smp desired ch rtp t)) = mutex t"
  "play_mutex (snd (init_buffers W smp desired ch rtp t)) = play_mutex t"
  "cleanup_started (snd (init_buffers W smp desired ch rtp t)) = cleanup_started t"
  by (auto simp: init_buffers_def Let_def split: option.split)

lemma rtp_packets_bounds: "1 \<le> set_rtp_packets (stream_settings E) \<and> set_rtp_packets (stream_settings E) < 2 ^ 31"
proof -
  have "atoi v < 2 ^ 31" for v
    using sint_lt [of "word_of_int (fst (strtol v)) :: u32"] by (simp add: atoi_def)
  then have "20 \<le> atoi v \<Longrightarrow> 1 \<le> atoi v div 20 \<and> atoi v div 20 < 2 ^ 31" for v by (smt (verit) div_pos_pos_trivial
    zdiv_mono1 int_div_less_self div_self)
  then show ?thesis by (auto simp: stream_settings_def Let_def split: option.split)
qed

lemma sbuffer_len_fits_iff:
  assumes "0 < desired" "desired mod 8000 = 0" "ch = 1 \<or> ch = 2" "1 \<le> rtp"
  shows "sbuffer_len_fits desired ch rtp \<longleftrightarrow> 320 * desired < 2 ^ 31 \<and> desired div 25 * ch * rtp < 2 ^ 31"
proof -
  obtain k where k: "desired = 8000 * k" using assms(2) by (metis mult_div_mod_eq add.right_neutral)
  then have pos: "0 < k" using assms(1) by simp
  have quot: "320 * desired sdiv 8000 = 320 * k" "desired div 25 = 320 * k"
    using k pos by (simp_all add: signed_divide_int_def)
  define a where "a = 320 * k * ch"
  have "0 \<le> a" using assms(3) pos by (auto simp: a_def)
  then have "a \<le> a * rtp" using assms(4) by (simp add: mult_le_cancel_left1)
  then show ?thesis
    using \<open>0 \<le> a\<close> assms(1) unfolding sbuffer_len_fits_def int_fits_def FRAME_SIZE_8000_def quot a_def [symmetric] by auto
qed

lemma streamer_create_fault:
  assumes "streamer_create J p4 p6 Z sha nonce th cl0 sid u S = Inl f"
  shows "f = NullString"
proof -
  have "add_headers es h = Inl f \<Longrightarrow> f = NullString" for es h
    by (induction es h rule: add_headers.induct) auto
  then show ?thesis using assms
    by (auto simp: streamer_create_def AudioStreamer_def stream_headers_def Let_def split: sum.split_asm option.split_asm if_split_asm)
qed

lemma reply_overflow: "reply r = Inl f \<longleftrightarrow> r = Inl f"
  by (cases r) (auto simp: reply_def split: if_split_asm)

lemma find_char_mem: "find_sub s [c] 0 = None \<longleftrightarrow> c \<notin> set s"
proof -
  have "c \<in> set s \<longleftrightarrow> (\<exists>u v. s = u @ [c] @ v)" by (auto simp: in_set_conv_decomp)
  then show ?thesis using find_sub_factor [of s "[c]"] by blast
qed

text \<open>The streamer a start leaves behind.\<close>

lemma setUrl_ctx [simp]: "cl_ctx (setUrl p4 p6 u c) = cl_ctx c"
proof -
  have last: "cl_ctx (case p of (False, c2) \<Rightarrow> c2 | (True, c2) \<Rightarrow> if P c2 then c2 else U c2) = cl_ctx (snd p)"
    if "\<And>c2. cl_ctx (U c2) = cl_ctx c2" for p P and U :: "'a client \<Rightarrow> 'a client"
    using that by (cases p; cases "fst p") simp_all
  have port: "cl_ctx (snd (case x of None \<Rightarrow> (True, c2) | Some k \<Rightarrow>
      (case y k of None \<Rightarrow> (False, c3 k) | Some n \<Rightarrow> (True, c4 k n)))) = d"
    if "cl_ctx c2 = d" "\<And>k. cl_ctx (c3 k) = d" "\<And>k n. cl_ctx (c4 k n) = d"
    for x :: "nat option" and y :: "nat \<Rightarrow> int option" and c2 c3 c4 and d :: "'a ctx option"
    using that by (cases x; cases "y (the x)") simp_all
  have scheme: "cl_ctx (case z of None \<Rightarrow> c | Some (sec, pos) \<Rightarrow> F sec pos) = cl_ctx c"
    if "\<And>sec pos. cl_ctx (F sec pos) = cl_ctx c" for z :: "(bool \<times> nat) option" and F
    using that by (cases z) auto
  show ?thesis unfolding setUrl_def Let_def
    by (rule scheme, subst last, simp, rule port) simp_all
qed

lemma streamer_create_alive:
  assumes "streamer_create J p4 p6 Z None nonce True cl0 sid u S = Inr sp" "cl_ctx cl0 = None" "length nonce = 16"
  shows "\<not> m_cleanedUp sp \<and> cl_ctx (s_client sp) \<noteq> None"
proof -
  obtain sp0 where sp0: "AudioStreamer J p4 p6 cl0 sid u S = Inr sp0"
    "sp = sp0\<lparr>s_client := snd (client_connect Z None nonce True (bindCallbacks (s_client sp0)))\<rparr>"
    using assms(1) by (auto simp: streamer_create_def split: sum.split_asm)
  have "cl_ctx (s_client sp0) = None" "\<not> m_cleanedUp sp0"
    using sp0(1) assms(2)
    by (auto simp: AudioStreamer_def Let_def setTLSOptions_def setPingInterval_def enableCompression_def setHeaders_def
        split: sum.split_asm)
  then have "cl_ctx (bindCallbacks (s_client sp0)) = None"
    by (simp add: bindCallbacks_def client_setOpenCallback_def client_setCloseCallback_def client_setErrorCallback_def
        client_setMessageCallback_def client_setBinaryCallback_def)
  from client_connect_new [OF this assms(3), of Z True] show ?thesis
    using sp0(2) \<open>\<not> m_cleanedUp sp0\<close> by simp
qed

lemma call_tech_fields:
  "sampling (call_tech E u desired ch m rtp) = desired" "\<not> cleanup_started (call_tech E u desired ch m rtp)"
  "\<not> audio_paused (call_tech E u desired ch m rtp)" "\<not> close_requested (call_tech E u desired ch m rtp)"
  "resampler (call_tech E u desired ch m rtp) = None" "dl_rate (call_tech E u desired ch m rtp) = 0"
  "dl_resampler (call_tech E u desired ch m rtp) = None" "rtp_packets (call_tech E u desired ch m rtp) = rtp"
  by (simp_all add: call_tech_def zero_tech_def Let_def)

lemma call_tech_sid: "0 \<in> set (sessionId (call_tech E u desired ch m rtp)) \<longleftrightarrow> length (c_str (e_uuid E)) < MAX_SESSION_ID"
  using c_str_no_0 [of "e_uuid E"]
  by (auto simp: call_tech_def zero_tech_def strncpy_def Let_def not_less dest: in_set_takeD)

lemma stream_data_init_shape:
  assumes "stream_data_init J W Z E u desired ch m S s = Inr (ok, s1)"
  obtains t1 t2 sp where "t1 = call_tech E u desired ch m (set_rtp_packets S)"
    "init_buffers W (e_codec_rate E) desired ch (set_rtp_packets S)
       (t1\<lparr>pAudioStreamer := True, mutex := True, play_mutex := True\<rparr>) = (ok, t2)"
    "s1 = s\<lparr>tech := t2, streamer := Some sp\<rparr>"
    "streamer_create J (e_pton4 E) (e_pton6 E) Z (e_sha1 E) (e_nonce E) (e_thread E) (e_client0 E)
       (c_str (sessionId t1)) (c_str (ws_uri t1)) S = Inr sp"
    "sbuffer_len_fits desired ch (set_rtp_packets S)" "0 \<in> set (sessionId t1)"
  using assms by (auto simp: stream_data_init_def Let_def split: if_split_asm sum.split_asm prod.split_asm)

text \<open>The part of a URI behind its scheme.\<close>

definition hostport_ok :: "bytes \<Rightarrow> bool" where
  "hostport_ok r \<longleftrightarrow>
     (let host = takeWhile (\<lambda>b. b \<noteq> 0x3A \<and> b \<noteq> 0x2F) r; rest = drop (length host) r
      in list_all host_char host \<and> host \<noteq> [] \<and>
         \<not> (rest \<noteq> [] \<and> hd rest = 0x3A \<and> \<not> list_all is_digit (takeWhile (\<lambda>b. b \<noteq> 0x2F) (tl rest))))"

definition port_and_path :: "bytes \<Rightarrow> bool" where
  "port_and_path rest \<longleftrightarrow> rest = [] \<or> hd rest = 0x2F \<or>
     (\<exists>ds path. rest = ascii '':'' @ ds @ path \<and> list_all is_digit ds \<and> (path = [] \<or> hd path = 0x2F))"

lemma validate_ws_uri_scheme:
  assumes "0 \<notin> set url"
  shows "validate_ws_uri url \<noteq> None \<longleftrightarrow> (\<exists>sec r. url = ws_prefix sec @ r \<and> hostport_ok r)"
proof -
  have url: "c_str url = url" using assms by (rule c_str_id)
  have prefix: "take n url = pre \<longleftrightarrow> (\<exists>r. url = pre @ r)" if "n = length pre" for n and pre :: bytes
    unfolding that by (metis append_eq_conv_conj append_take_drop_id)
  have ws: "take 5 url = ascii ''ws://'' \<longleftrightarrow> (\<exists>r. url = ws_prefix False @ r)"
    using prefix [of 5 "ascii ''ws://''"] by (simp add: ws_prefix_def ascii_def)
  have wss: "take 6 url = ascii ''wss://'' \<longleftrightarrow> (\<exists>r. url = ws_prefix True @ r)"
    using prefix [of 6 "ascii ''wss://''"] by (simp add: ws_prefix_def ascii_def)
  have disj: "ws_prefix False @ r \<noteq> ws_prefix True @ r'" for r r' by (simp add: ws_prefix_def ascii_def)
  have len: "length (ws_prefix False) = 5" "length (ws_prefix True) = 6" by (simp_all add: ws_prefix_def ascii_def)
  consider r where "url = ws_prefix False @ r" | r where "url = ws_prefix True @ r"
    | "\<nexists>sec r. url = ws_prefix sec @ r" by (metis (full_types))
  then show ?thesis
  proof cases
    case (1 r)
    then have "take 5 url = ascii ''ws://''" "drop 5 url = r" using ws len(1) by (auto simp: drop_append)
    then have "validate_ws_uri url \<noteq> None \<longleftrightarrow> hostport_ok r" by (simp add: validate_ws_uri_def url Let_def hostport_ok_def)
    then show ?thesis using 1 disj by (metis (full_types) append_same_eq same_append_eq)
  next
    case (2 r)
    then have "take 5 url \<noteq> ascii ''ws://''" "take 6 url = ascii ''wss://''" "drop 6 url = r"
      using ws wss disj len(2) by (auto simp: drop_append) metis
    then have "validate_ws_uri url \<noteq> None \<longleftrightarrow> hostport_ok r" by (simp add: validate_ws_uri_def url Let_def hostport_ok_def)
    then show ?thesis using 2 disj by (metis (full_types) same_append_eq)
  next
    case 3
    then show ?thesis using ws wss by (auto simp: validate_ws_uri_def url)
  qed
qed

lemma hostport_ok_split:
  assumes "hostport_ok r"
  shows "\<exists>host rest. r = host @ rest \<and> host \<noteq> [] \<and> list_all host_char host \<and> port_and_path rest"
proof -
  let ?stop = "\<lambda>b :: byte. b \<noteq> 0x3A \<and> b \<noteq> 0x2F"
  define host where "host = takeWhile ?stop r"
  define rest where "rest = dropWhile ?stop r"
  have r: "r = host @ rest" by (simp add: host_def rest_def)
  then have dr: "drop (length host) r = rest" by simp
  have hd: "rest = [] \<or> hd rest = 0x3A \<or> hd rest = 0x2F" using hd_dropWhile [of ?stop r] by (auto simp: rest_def)
  note ok = assms [unfolded hostport_ok_def Let_def, folded host_def, unfolded dr]
  have "port_and_path rest"
  proof (cases "rest \<noteq> [] \<and> hd rest = 0x3A")
    case True
    then obtain t where t: "rest = 0x3A # t" by (cases rest) auto
    have "list_all is_digit (takeWhile (\<lambda>b. b \<noteq> 0x2F) t)" using ok by (simp add: t)
    moreover have "rest = ascii '':'' @ takeWhile (\<lambda>b. b \<noteq> 0x2F) t @ dropWhile (\<lambda>b. b \<noteq> 0x2F) t" using t by (simp add: ascii_def)
    moreover have "dropWhile (\<lambda>b. b \<noteq> 0x2F) t = [] \<or> hd (dropWhile (\<lambda>b. b \<noteq> 0x2F) t) = 0x2F"
      using hd_dropWhile [of "\<lambda>b. b \<noteq> 0x2F" t] by auto
    ultimately show ?thesis unfolding port_and_path_def by blast
  qed (use hd in \<open>auto simp: port_and_path_def\<close>)
  then show ?thesis using ok r by blast
qed

lemma hostport_ok_join:
  assumes "host \<noteq> []" "list_all host_char host" "port_and_path rest"
  shows "hostport_ok (host @ rest)"
proof -
  let ?stop = "\<lambda>b :: byte. b \<noteq> 0x3A \<and> b \<noteq> 0x2F"
  have stop: "\<forall>b \<in> set host. ?stop b" using assms(2) by (auto simp: list_all_iff host_char_def is_digit_def)
  have "rest = [] \<or> \<not> ?stop (hd rest)" using assms(3) by (auto simp: ascii_def port_and_path_def)
  then have tw: "takeWhile ?stop (host @ rest) = host" using stop by (cases rest) (auto simp: takeWhile_append2)
  have "list_all is_digit (takeWhile (\<lambda>b. b \<noteq> 0x2F) (tl rest))" if c: "rest \<noteq> []" "hd rest = 0x3A"
  proof -
    obtain ds path where d: "rest = ascii '':'' @ ds @ path" "list_all is_digit ds" "path = [] \<or> hd path = 0x2F"
      using assms(3) c by (auto simp: port_and_path_def)
    then have "\<forall>b \<in> set ds. b \<noteq> 0x2F" by (auto simp: list_all_iff is_digit_def)
    then have "takeWhile (\<lambda>b. b \<noteq> 0x2F) (ds @ path) = ds" using d(3) by (cases path) (auto simp: takeWhile_append2)
    then show ?thesis using d by (simp add: ascii_def)
  qed
  then show ?thesis using assms(1,2) tw by (auto simp: hostport_ok_def)
qed

section \<open>Properties\<close>

text \<open>C31: the URIs the command accepts are exactly those of the form scheme, host of letters, digits, hyphens
  and dots, then nothing, a path, or a colon with digits (even none) and then nothing or a path.\<close>

theorem validate_ws_uri_iff:
  assumes "0 \<notin> set url"
  shows "validate_ws_uri url \<noteq> None \<longleftrightarrow>
    (\<exists>sec host rest. url = ws_prefix sec @ host @ rest \<and> host \<noteq> [] \<and> list_all host_char host \<and>
      (rest = [] \<or> hd rest = 0x2F \<or>
       (\<exists>ds path. rest = ascii '':'' @ ds @ path \<and> list_all is_digit ds \<and> (path = [] \<or> hd path = 0x2F))))"
  unfolding validate_ws_uri_scheme [OF assms] port_and_path_def [symmetric]
  using hostport_ok_split hostport_ok_join by blast

theorem validate_ws_uri_iff_witness:
  "validate_ws_uri (ws_prefix False @ ascii ''pbx-1.example'' @ ascii '':'' @ [] @ ascii ''/stream'') \<noteq> None"
proof -
  have "list_all host_char (ascii ''pbx-1.example'')" by code_simp
  then show ?thesis
    by (intro validate_ws_uri_iff [THEN iffD2] exI [of _ False] exI [of _ "ascii ''pbx-1.example''"]
        exI [of _ "ascii '':'' @ [] @ ascii ''/stream''"] conjI disjI2 exI [of _ "[] :: bytes"] exI [of _ "ascii ''/stream''"])
      (simp_all add: ws_prefix_def ascii_def)
qed

text \<open>C28: a start that succeeds makes everything the media callbacks rely on: the queue to the caller is
  empty and holds ten seconds, the buffer of the uplink is empty and a whole number of 20 ms frames, the
  streamer is alive, and a resampler exists exactly where the rates differ.\<close>

theorem session_starts:
  assumes "buffer_doc W content cap" "start_capture J W Z E stereo u desired m s = Inr (True, s1)"
    "e_sha1 E = None" "e_thread E" "length (e_nonce E) = 16" "cl_ctx (e_client0 E) = None"
    "0 < desired"
  defines "ch \<equiv> if stereo then 2 else 1"
  shows "bug s1 \<and> alive s1 \<and> ul_ready (tech s1) \<and> dl_ready content (tech s1) \<and> dl_queue content (tech s1) = [] \<and>
    int (cap (the (play_buffer (tech s1)))) = desired * 2 * ch * 10 \<and>
    int (cap (the (dl_stash (tech s1)))) = 48000 * 2 * ch * 10 \<and>
    content (the (sbuffer (tech s1))) = [] \<and>
    int (cap (the (sbuffer (tech s1)))) = (320 * desired div 8000) * ch * rtp_packets (tech s1) \<and>
    (resampler (tech s1) = None \<longleftrightarrow> word_of_int desired = e_codec_rate E)"
proof -
  define rtp where "rtp = set_rtp_packets (stream_settings E)"
  have ch: "ch = 1 \<or> ch = 2" by (simp add: ch_def)
  obtain s0 where s0: "stream_data_init J W Z E u desired ch m (stream_settings E) s = Inr (True, s0)"
    "s1 = s0\<lparr>bug := True, bug_attached := True\<rparr>"
    using assms(2) unfolding start_capture_def stream_session_init_def ch_def
    by (auto split: if_split_asm sum.split_asm prod.split_asm bool.split_asm)
  obtain t1 t2 sp where t: "t1 = call_tech E u desired ch m rtp"
    "init_buffers W (e_codec_rate E) desired ch rtp (t1\<lparr>pAudioStreamer := True, mutex := True, play_mutex := True\<rparr>) = (True, t2)"
    "s0 = s\<lparr>tech := t2, streamer := Some sp\<rparr>"
    "streamer_create J (e_pton4 E) (e_pton6 E) Z (e_sha1 E) (e_nonce E) (e_thread E) (e_client0 E)
       (c_str (sessionId t1)) (c_str (ws_uri t1)) (stream_settings E) = Inr sp"
    "sbuffer_len_fits desired ch rtp"
    by (rule stream_data_init_shape [OF s0(1), folded rtp_def]) blast
  have sp: "\<not> m_cleanedUp sp" using streamer_create_alive [of J _ _ Z] t(4) assms(3-6) by fastforce
  have t1: "sampling t1 = desired" "\<not> cleanup_started t1" "\<not> audio_paused t1" "resampler t1 = None" "dl_rate t1 = 0"
    "dl_resampler t1 = None" "rtp_packets t1 = rtp"
    by (simp_all add: t(1) call_tech_fields)
  obtain b p st rs where bufs: "t2 = t1\<lparr>pAudioStreamer := True, mutex := True, play_mutex := True, sbuffer := Some b,
      play_buffer := Some p, dl_stash := Some st, resampler := rs\<rparr>"
    "content b = [] \<and> cap b = sbuffer_len desired ch rtp" "content p = [] \<and> cap p = play_len desired ch"
    "content st = [] \<and> cap st = play_len 48000 ch"
    and res: "if word_of_int desired = e_codec_rate E then rs = resampler t1 else rs \<noteq> None"
    by (rule init_buffers_ok [OF assms(1) t(2)]) simp
  have rs: "rs = None \<longleftrightarrow> word_of_int desired = e_codec_rate E"
    using res t1(4) by (simp split: if_split_asm)
  have rtp: "1 \<le> rtp" "rtp < 2 ^ 31" using rtp_packets_bounds [of E] by (simp_all add: rtp_def)
  have u64: "int (unat (word_of_int i :: u64)) = i" if "0 \<le> i" "i < 2 ^ 64" for i
    using that by (simp add: unat_eq_nat_uint uint_word_of_int)
  have desired: "desired < 2 ^ 31" "320 * desired < 2 ^ 31" using t(5) assms(7) by (simp_all add: sbuffer_len_fits_def int_fits_def FRAME_SIZE_8000_def)
  have quot: "320 * desired sdiv 8000 = 320 * desired div 8000" using assms(7) by (simp add: signed_divide_int_def)
  have "0 \<le> (320 * desired div 8000) * ch * rtp" "(320 * desired div 8000) * ch * rtp < 2 ^ 31"
    using t(5) assms(7) rtp ch by (auto simp: sbuffer_len_fits_def int_fits_def FRAME_SIZE_8000_def quot)
  then have "int (sbuffer_len desired ch rtp) = (320 * desired div 8000) * ch * rtp"
    unfolding sbuffer_len_def FRAME_SIZE_8000_def quot by (intro u64) auto
  moreover have "int (play_len r ch) = r * 2 * ch * 10" if "0 \<le> r" "r < 2 ^ 31" for r
    unfolding play_len_def MAX_PLAY_BUFFER_MS_def using that ch by (subst u64) auto
  ultimately show ?thesis
    using sp bufs rs assms(7) desired(1) t1 unfolding s0(2) t(3)
    by (simp add: alive_def ul_ready_def dl_ready_def dl_queue_def)
qed

text \<open>A call for which everything works.\<close>

definition demo_call :: "unit call_env" where
  "demo_call = \<lparr>e_uuid = ascii ''6d1f'', e_var = (\<lambda>_. None), e_var_true = (\<lambda>_. False), e_pton4 = (\<lambda>_. True),
     e_pton6 = (\<lambda>_. False), e_resolve = (\<lambda>_. None), e_client0 = WebSocketClient 80 False False, e_sha1 = None,
     e_nonce = replicate 16 0, e_thread = True, e_deflate0 = 0, e_heart_beat0 = 0, e_alloc = True, e_pre_answer = True,
     e_codec_rate = 8000, e_bug_add = True\<rparr>"

definition demo_idle :: "(nat \<times> bytes, unit, unit) session" where
  "demo_idle = \<lparr>tech = zero_tech, streamer = None, bug = False, bug_attached = False, bug_closing = False, located = True, fired = []\<rparr>"

abbreviation "demo_uri \<equiv> ascii ''ws://127.0.0.1:8090/stream'' @ [0]"

lemma demo_call:
  "e_sha1 demo_call = None" "e_thread demo_call" "length (e_nonce demo_call) = 16" "cl_ctx (e_client0 demo_call) = None"
  "e_pre_answer demo_call" "e_alloc demo_call"
  by (simp_all add: demo_call_def WebSocketClient_def)

lemma start_capture_result:
  fixes W :: "('b, 'r) sw"
  assumes "\<not> bug s" "e_pre_answer E" "e_alloc E" "0 \<in> set u" "e_var E ''STREAM_EXTRA_HEADERS'' = None"
    "\<And>t. fst (init_buffers W (e_codec_rate E) desired (if stereo then 2 else 1) (set_rtp_packets (stream_settings E)) t) = made"
    "ok = (made \<and> e_bug_add E)" "length (c_str (e_uuid E)) < MAX_SESSION_ID" "sbuffer_len_fits desired (if stereo then 2 else 1) (set_rtp_packets (stream_settings E))"
  shows "\<exists>s1. start_capture J W Z E stereo u desired m s = Inr (ok, s1)"
proof -
  let ?ch = "if stereo then 2 else 1 :: int" and ?S = "stream_settings E"
  have "set_extra_headers ?S = None" using assms(5) by (simp add: stream_settings_def Let_def)
  then have create: "\<exists>sp. streamer_create J p4 p6 Z sha nonce th cl0 sid uri ?S = Inr sp" for p4 p6 sha nonce th cl0 sid uri
    by (simp add: streamer_create_def AudioStreamer_def stream_headers_def Let_def)
  obtain s0 where "stream_data_init J W Z E u desired ?ch m ?S s = Inr (made, s0)"
  proof -
    define t1 :: "('b, 'r) private_t" where "t1 = (call_tech E u desired ?ch m (set_rtp_packets ?S))\<lparr>pAudioStreamer := True, mutex := True, play_mutex := True\<rparr>"
    obtain t2 where "init_buffers W (e_codec_rate E) desired ?ch (set_rtp_packets ?S) t1 = (made, t2)"
      using assms(6) [of t1] by (cases "init_buffers W (e_codec_rate E) desired ?ch (set_rtp_packets ?S) t1") auto
    moreover obtain sp where "streamer_create J (e_pton4 E) (e_pton6 E) Z (e_sha1 E) (e_nonce E) (e_thread E) (e_client0 E)
       (c_str (sessionId (call_tech E u desired ?ch m (set_rtp_packets ?S) :: ('b, 'r) private_t)))
       (c_str (ws_uri (call_tech E u desired ?ch m (set_rtp_packets ?S) :: ('b, 'r) private_t))) ?S = Inr sp"
      using create by blast
    moreover have "0 \<in> set (sessionId (call_tech E u desired ?ch m (set_rtp_packets ?S) :: ('b, 'r) private_t))"
      using assms(8) by (simp add: call_tech_sid)
    ultimately show ?thesis using assms(4,9) that unfolding stream_data_init_def t1_def Let_def by simp
  qed
  then show ?thesis using assms(1-3,7)
    by (cases made) (simp_all add: start_capture_def stream_session_init_def)
qed

lemma demo_fits: "sbuffer_len_fits 8000 1 (set_rtp_packets (stream_settings (demo_call\<lparr>e_bug_add := ok\<rparr>)))"
  by (subst sbuffer_len_fits_iff) (simp_all add: stream_settings_def demo_call_def)

lemma demo_uuid: "length (c_str (e_uuid demo_call)) < MAX_SESSION_ID"
  by (simp add: demo_call_def c_str_def ascii_def MAX_SESSION_ID_def)

lemma demo_start:
  "\<exists>s1. start_capture no_json list_sw stored_ext (demo_call\<lparr>e_bug_add := ok\<rparr>) False demo_uri 8000 None demo_idle = Inr (ok, s1)"
proof (rule start_capture_result [where made = True])
  show "fst (init_buffers list_sw (e_codec_rate (demo_call\<lparr>e_bug_add := ok\<rparr>)) 8000 (if False then 2 else 1)
      (set_rtp_packets (stream_settings (demo_call\<lparr>e_bug_add := ok\<rparr>))) t) = True" for t
    by (simp add: init_buffers_def list_sw_def Let_def)
qed (use demo_fits demo_uuid in \<open>simp_all add: demo_call_def demo_idle_def\<close>)

lemma demo_call_ok: "demo_call\<lparr>e_bug_add := True\<rparr> = demo_call"
  by (simp add: demo_call_def)

theorem session_starts_witness:
  "\<exists>s1. start_capture no_json list_sw stored_ext demo_call False demo_uri 8000 None demo_idle = Inr (True, s1) \<and>
     alive s1 \<and> ul_ready (tech s1) \<and> dl_ready clip (tech s1) \<and> fst (the (play_buffer (tech s1))) = 160000"
proof -
  obtain s1 where s1: "start_capture no_json list_sw stored_ext demo_call False demo_uri 8000 None demo_idle = Inr (True, s1)"
    using demo_start [of True] demo_call_ok by auto
  show ?thesis using session_starts [OF list_buffer_doc s1 demo_call(1-4)] s1 by (intro exI [of _ s1]) simp
qed

text \<open>C40: a start that fails after the connection has been set up leaves the connection behind: its callbacks
  stay armed, stop finds no session to end, and where the buffers or the resampler could not be made, the
  first clear message locks a mutex that is gone.\<close>

theorem start_failure_leaks:
  fixes W :: "('b, 'r) sw"
  assumes "start_capture J W Z E stereo u desired m s = Inr (False, s1)" "\<not> bug s" "e_pre_answer E" "e_alloc E"
    "e_sha1 E = None" "e_thread E" "length (e_nonce E) = 16" "cl_ctx (e_client0 E) = None"
    "json_type J (c_str clear) = Some (ascii ''clear'')"
  shows "alive s1 \<and> (\<exists>sp. streamer s1 = Some sp \<and> cl_ctx (s_client sp) \<noteq> None) \<and> do_stop Z txt s1 = Inr (False, s1) \<and>
    (e_bug_add E \<longrightarrow> cb_on_message J W Z clear s1 = Inl NullMutex)"
proof -
  obtain ok s0 where s0: "stream_data_init J W Z E u desired (if stereo then 2 else 1) m (stream_settings E) s = Inr (ok, s0)"
    "if ok then s1 = s0 \<and> \<not> e_bug_add E else s1 = s0\<lparr>tech := destroy_tech_pvt (tech s0)\<rparr>"
    using assms(1-4) unfolding start_capture_def stream_session_init_def
    by (auto split: if_split_asm sum.split_asm prod.split_asm bool.split_asm)
  obtain t1 t2 :: "('b, 'r) private_t" and sp where t0: "s0 = s\<lparr>tech := t2, streamer := Some sp\<rparr>"
    "streamer_create J (e_pton4 E) (e_pton6 E) Z (e_sha1 E) (e_nonce E) (e_thread E) (e_client0 E)
       (c_str (sessionId t1)) (c_str (ws_uri t1)) (stream_settings E) = Inr sp"
    by (rule stream_data_init_shape [OF s0(1)]) blast
  have t: "s0 = s\<lparr>tech := t2, streamer := Some sp\<rparr>" "\<not> m_cleanedUp sp \<and> cl_ctx (s_client sp) \<noteq> None"
    using t0 streamer_create_alive [of J "e_pton4 E" "e_pton6 E" Z "e_nonce E" "e_client0 E"] assms(5-8) by simp_all
  then have a: "alive s1" "streamer s1 = Some sp" "\<not> bug s1"
    using s0(2) assms(2) by (auto simp: alive_def split: if_split_asm)
  moreover have "cb_on_message J W Z clear s1 = Inl NullMutex" if "e_bug_add E"
    using that s0(2) a(1) assms(9) by (auto simp: cb_on_message_def clearPlayback_def destroy_tech_pvt_def split: if_split_asm)
  ultimately show ?thesis using t(2) by (simp add: do_stop_def stream_session_cleanup_def)
qed

definition clear_json :: cjson where
  "clear_json = no_json\<lparr>json_type := (\<lambda>_. Some (ascii ''clear''))\<rparr>"

theorem start_failure_leaks_witness:
  "\<exists>s1. start_capture clear_json (list_sw\<lparr>buf_create := (\<lambda>_. None)\<rparr>) stored_ext demo_call False demo_uri 8000 None demo_idle
      = Inr (False, s1) \<and> alive s1 \<and> do_stop stored_ext None s1 = Inr (False, s1) \<and>
    cb_on_message clear_json (list_sw\<lparr>buf_create := (\<lambda>_. None)\<rparr>) stored_ext [] s1 = Inl NullMutex"
proof -
  have "\<exists>s1. start_capture clear_json (list_sw\<lparr>buf_create := (\<lambda>_. None)\<rparr>) stored_ext demo_call False demo_uri 8000 None demo_idle
      = Inr (False, s1)"
  proof (rule start_capture_result [where made = False])
    show "fst (init_buffers (list_sw\<lparr>buf_create := (\<lambda>_. None)\<rparr>) (e_codec_rate demo_call) 8000 (if False then 2 else 1)
        (set_rtp_packets (stream_settings demo_call)) t) = False" for t
      by (simp add: init_buffers_def)
  qed (use demo_fits demo_uuid in \<open>simp_all add: demo_call_def demo_idle_def\<close>)
  then obtain s1 where s1: "start_capture clear_json (list_sw\<lparr>buf_create := (\<lambda>_. None)\<rparr>) stored_ext demo_call False demo_uri
      8000 None demo_idle = Inr (False, s1)" by blast
  have "\<not> bug demo_idle" "json_type clear_json (c_str []) = Some (ascii ''clear'')" "e_bug_add demo_call"
    by (simp_all add: demo_idle_def clear_json_def demo_call_def)
  then show ?thesis
    using start_failure_leaks [OF s1 _ demo_call(5,6,1-4), of "[]" None] s1 by (intro exI [of _ s1]) simp
qed

text \<open>C29: the end of a session takes effect once and completely: a second stop finds nothing, no event of the
  connection reaches FreeSWITCH or the buffers any more, and no frame is captured or replaced. The id of the session has a NUL in its
  array, which a start makes sure of by failing otherwise (\<open>long_uuid_unterminated\<close>).\<close>

theorem session_ends_once:
  assumes "bug s" "mutex (tech s)" "\<not> cleanup_started (tech s)" "pAudioStreamer (tech s)" "0 \<in> set (sessionId (tech s))"
  shows "\<exists>s1. stream_session_cleanup Z on_event txt is_closing s = Inr (True, s1) \<and> do_stop Z txt' s1 = Inr (False, s1) \<and>
    handle J W Z e s1 = Inr s1 \<and> stream_frame W Z lock_free frames (tech s1) c = Inr (tech s1, c) \<and>
    stream_playback_frame W fro (tech s1) = Inr (tech s1, fro)"
proof -
  obtain s1 where s1: "stream_session_cleanup Z on_event txt is_closing s = Inr (True, s1)" "\<not> bug s1" "cleanup_started (tech s1)"
    "streamer s1 = map_option (\<lambda>sp. disconnect (markCleanedUp (case txt of None \<Rightarrow> sp | Some m \<Rightarrow> writeText Z on_event m sp))) (streamer s)"
    using assms by (cases "streamer s") (simp_all add: stream_session_cleanup_def destroy_tech_pvt_def Let_def)
  have "\<not> alive s1" using s1(4) by (simp add: alive_def disconnect_def markCleanedUp_def split: option.split)
  then have "handle J W Z e s1 = Inr s1"
    by (simp add: handle_def cb_on_open_def cb_on_error_def cb_on_close_def cb_on_message_def cb_on_binary_def split: ctx_event.split)
  then show ?thesis using s1(1-3)
    by (simp add: do_stop_def stream_session_cleanup_def stream_frame_def stream_playback_frame_def)
qed

theorem session_ends_once_witness:
  "\<exists>s1. stream_session_cleanup stored_ext False (Some [0x7B, 0x7D]) False (demo_session (ctx demo_open)) = Inr (True, s1) \<and>
     do_stop stored_ext None s1 = Inr (False, s1) \<and> handle no_json list_sw stored_ext (OnMessage [0x61]) s1 = Inr s1"
proof -
  let ?s = "demo_session (ctx demo_open)"
  have "bug ?s" "mutex (tech ?s)" "\<not> cleanup_started (tech ?s)" "pAudioStreamer (tech ?s)" "0 \<in> set (sessionId (tech ?s))"
    by (simp_all add: demo_session_def demo_uplink_def demo_tech_def zero_tech_def MAX_SESSION_ID_def)
  from session_ends_once [OF this] show ?thesis by metis
qed

text \<open>A URI that is too long for its array passes the check, but its copy has no terminating NUL: a
  start with a URI of 4096 characters or more reads past the end of the array.\<close>

theorem long_uri_unterminated:
  assumes "0 \<notin> set url" "validate_ws_uri url \<noteq> None" "mix \<in> {ascii ''mixed'', ascii ''stereo'', ascii ''mono''}"
    "\<not> bug s" "e_pre_answer E" "e_alloc E" "MAX_WS_URI \<le> length url"
  shows "start_command J W Z E [uuid, cmd, url, mix] s = Inl Unterminated"
proof -
  have "c_str url = url" using assms(1) by (rule c_str_id)
  then have "validate_ws_uri url = Some (strncpy (replicate MAX_WS_URI 0) url MAX_WS_URI)"
    using assms(2) by (auto simp: validate_ws_uri_def Let_def split: option.split_asm if_split_asm)
  moreover have "0 \<notin> set (strncpy (replicate MAX_WS_URI 0) url MAX_WS_URI)"
    using assms(1,7) \<open>c_str url = url\<close> by (auto simp: strncpy_def Let_def dest: in_set_takeD)
  ultimately show ?thesis using assms(3-6)
    by (auto simp: start_command_def start_capture_def stream_session_init_def stream_data_init_def reply_def)
qed

theorem long_uri_unterminated_witness:
  "start_command no_json list_sw stored_ext demo_call
     [ascii ''6d1f'', ascii ''start'', ascii ''ws://h/'' @ replicate 4089 0x61, ascii ''mono''] demo_idle = Inl Unterminated"
proof (rule long_uri_unterminated)
  let ?url = "ascii ''ws://h/'' @ replicate 4089 0x61"
  have no0: "0 \<notin> set ?url" by (simp add: ascii_def)
  then show "0 \<notin> set ?url" .
  have "c_str ?url = ?url" using no0 by (rule c_str_id)
  then show "validate_ws_uri ?url \<noteq> None"
    by (simp add: validate_ws_uri_def ascii_def host_char_def)
qed (simp_all add: demo_idle_def demo_call_def MAX_WS_URI_def ascii_def)

text \<open>The uuid of the call is copied with the full size of its array too: one of 256 characters or more is read past the end
  when it is appended to the URI, and no session starts from there.\<close>

theorem long_uuid_unterminated:
  assumes "MAX_SESSION_ID \<le> length (c_str (e_uuid E))" "\<not> bug s" "e_pre_answer E" "e_alloc E" "0 \<in> set u"
  shows "start_capture J W Z E stereo u desired m s = Inl Unterminated"
  using assms by (simp add: start_capture_def stream_session_init_def stream_data_init_def call_tech_sid Let_def)

theorem long_uuid_unterminated_witness:
  "start_capture no_json list_sw stored_ext (demo_call\<lparr>e_uuid := replicate 256 0x61\<rparr>) False demo_uri 8000 None demo_idle = Inl Unterminated"
proof (rule long_uuid_unterminated)
  have "c_str (replicate 256 0x61) = replicate 256 (0x61 :: byte)" by (rule c_str_id) simp
  then show "MAX_SESSION_ID \<le> length (c_str (e_uuid (demo_call\<lparr>e_uuid := replicate 256 0x61\<rparr>)))"
    by (simp add: MAX_SESSION_ID_def)
qed (simp_all add: demo_call_def demo_idle_def)

text \<open>C30: the size of the uplink's buffer overflows exactly for the rates and the STREAM_BUFFER_SIZE whose products leave the
  type int, once the id of the session has been read. The command accepts all of them: it asks for multiples of 8000 and 20 and
  for no upper bound.\<close>

theorem start_overflow_iff:
  assumes "0 \<notin> set url" "length url < MAX_WS_URI" "validate_ws_uri url \<noteq> None"
    "mix \<in> {ascii ''mixed'', ascii ''stereo'', ascii ''mono''}" "\<not> bug s" "e_pre_answer E" "e_alloc E"
    "rate \<notin> {ascii ''16k'', ascii ''8k''}" "0 < atoi rate" "atoi rate mod 8000 = 0"
  shows "start_command J W Z E [uuid, cmd, url, mix, rate] s = Inl IntOverflow \<longleftrightarrow>
    length (c_str (e_uuid E)) < MAX_SESSION_ID \<and>
    (2 ^ 31 \<le> 320 * atoi rate \<or>
     2 ^ 31 \<le> atoi rate div 25 * (if mix = ascii ''stereo'' then 2 else 1) * set_rtp_packets (stream_settings E))"
proof -
  let ?stereo = "mix = ascii ''stereo''" and ?arr = "strncpy (replicate MAX_WS_URI 0) url MAX_WS_URI"
  let ?ch = "if ?stereo then 2 else 1 :: int"
  have url: "c_str url = url" using assms(1) by (rule c_str_id)
  then have "validate_ws_uri url = Some ?arr"
    using assms(3) by (auto simp: validate_ws_uri_def Let_def split: option.split_asm if_split_asm)
  then have "start_command J W Z E [uuid, cmd, url, mix, rate] s =
      reply (start_capture J W Z E ?stereo ?arr (atoi rate) None s)"
    using assms(4,8,10) by (auto simp: start_command_def Let_def)
  moreover have "start_capture J W Z E ?stereo ?arr (atoi rate) None s = Inl IntOverflow \<longleftrightarrow>
      stream_data_init J W Z E ?arr (atoi rate) ?ch None (stream_settings E) s = Inl IntOverflow"
    using assms(5-7) by (auto simp: start_capture_def stream_session_init_def split: sum.splits prod.splits bool.splits)
  moreover have "0 \<in> set ?arr" using assms(2) url by (simp add: strncpy_def Let_def)
  then have "stream_data_init J W Z E ?arr (atoi rate) ?ch None (stream_settings E) s = Inl IntOverflow \<longleftrightarrow>
      length (c_str (e_uuid E)) < MAX_SESSION_ID \<and> \<not> sbuffer_len_fits (atoi rate) ?ch (set_rtp_packets (stream_settings E))"
    by (auto simp: stream_data_init_def Let_def call_tech_sid dest: streamer_create_fault split: sum.splits prod.splits)
  moreover have "?ch = 1 \<or> ?ch = 2" by simp
  ultimately show ?thesis
    using sbuffer_len_fits_iff [OF assms(9,10) \<open>?ch = 1 \<or> ?ch = 2\<close>] rtp_packets_bounds [of E]
    by (simp add: reply_overflow not_less del: if_split)
qed

theorem start_overflow_iff_witness:
  "start_command no_json list_sw stored_ext demo_call
     [ascii ''6d1f'', ascii ''start'', ascii ''ws://127.0.0.1:8090/stream'', ascii ''mono'', ascii ''8000000''] demo_idle = Inl IntOverflow"
proof -
  have rate: "atoi (ascii ''8000000'') = 8000000" by code_simp
  have url: "0 \<notin> set (ascii ''ws://127.0.0.1:8090/stream'')" "length (ascii ''ws://127.0.0.1:8090/stream'') < MAX_WS_URI"
    "validate_ws_uri (ascii ''ws://127.0.0.1:8090/stream'') \<noteq> None"
    by (simp_all add: validate_ws_uri_def c_str_def ascii_def host_char_def is_digit_def MAX_WS_URI_def)
  have "ascii ''8000000'' \<notin> {ascii ''16k'', ascii ''8k''}" by (simp add: ascii_def)
  from start_overflow_iff [OF url _ _ _ _ this, of "ascii ''mono''" demo_idle demo_call]
  show ?thesis using demo_uuid unfolding rate by (simp add: demo_idle_def demo_call_def)
qed

text \<open>The parameters of the stream reach the server: for a URI with a port and a path, the client asks for
  the path with rate, mix and the uuid of the call appended, whether the path has a query already or not.\<close>

theorem request_has_parameters:
  assumes "host \<noteq> []" "0x3A \<notin> set host" "0x2F \<notin> set host" "n < 2 ^ 31" "path \<noteq> []" "hd path = 0x2F"
  shows "setUrl p4 p6 (stream_uri desired ch sid (ws_prefix sec @ (host @ ascii '':'' @ nat_digits n) @ path)) c =
    c\<lparr>cl_secure := sec, cl_host := host, cl_port := word_of_nat n,
      cl_uri := path @ (if 0x3F \<in> set host \<or> 0x3F \<in> set path then ascii ''&'' else ascii ''?'') @ stream_query desired ch sid,
      cl_is_ip_address := isHostIPAddress p4 p6 host\<rparr>"
proof -
  define hp where "hp = host @ ascii '':'' @ nat_digits n"
  have digits: "0x2F \<notin> set (nat_digits n)" "0x3F \<notin> set (nat_digits n)"
    using nat_digits_value [of n] by (auto simp: list_all_iff is_digit_def)
  have nopath: "0x2F \<notin> set hp" using assms(3) digits by (simp add: hp_def ascii_def)
  have q: "find_sub (ws_prefix sec @ hp @ path) (ascii ''?'') 0 = None \<longleftrightarrow> 0x3F \<notin> set host \<and> 0x3F \<notin> set path"
    using find_char_mem [where s = "ws_prefix sec @ hp @ path" and c = "0x3F"] digits
    by (auto simp: hp_def ascii_def ws_prefix_def)
  define path' where "path' = path @ (if 0x3F \<in> set host \<or> 0x3F \<in> set path then ascii ''&'' else ascii ''?'') @ stream_query desired ch sid"
  have uri: "stream_uri desired ch sid (ws_prefix sec @ hp @ path) = ws_prefix sec @ hp @ path'"
    using q by (simp add: stream_uri_def path'_def)
  have path': "path' = [] \<or> hd path' = 0x2F" "path' \<noteq> []" using assms(5,6) by (simp_all add: path'_def)
  have "find_sub hp (ascii '':'') 0 = Some (length host)"
    using find_char_Some [OF assms(2), of "[]" "nat_digits n"] by (simp add: hp_def ascii_def)
  moreover have "stoi (nat_digits n) = Some (int n)" using stoi_nat_digits [OF assms(4), of "[]"] by simp
  moreover have "drop (length host + 1) hp = nat_digits n" "take (length host) hp = host" by (simp_all add: hp_def ascii_def)
  ultimately show ?thesis using assms(1) path'(2)
    unfolding hp_def [symmetric] uri setUrl_behind_scheme [OF nopath path'(1)] path'_def [symmetric] by simp
qed

theorem request_has_parameters_witness:
  "cl_uri (setUrl (\<lambda>_. True) (\<lambda>_. False) (stream_uri 16000 1 (ascii ''6d1f'')
     (ws_prefix False @ (ascii ''10.0.0.1'' @ ascii '':'' @ nat_digits 8090) @ ascii ''/stream'')) (WebSocketClient 80 False False)) =
   ascii ''/stream?rate=16000&mix=mono&uuid=6d1f''"
proof -
  have "int_digits 16000 = ascii ''16000''" by (simp add: int_digits_def nat_digits.simps ascii_def)
  then show ?thesis
    by (subst request_has_parameters) (simp_all add: stream_query_def ascii_def)
qed

text \<open>For a URI without a path, which the command accepts, the parameters are lost: the query is taken for
  part of the port, and the client asks for the root.\<close>

theorem request_without_path:
  assumes "host \<noteq> []" "0x3A \<notin> set host" "0x2F \<notin> set host" "0x3F \<notin> set host" "n < 2 ^ 31" "0x2F \<notin> set sid"
  shows "setUrl p4 p6 (stream_uri desired ch sid (ws_prefix sec @ (host @ ascii '':'' @ nat_digits n))) c =
    c\<lparr>cl_secure := sec, cl_host := host, cl_port := word_of_nat n, cl_uri := ascii ''/'',
      cl_is_ip_address := isHostIPAddress p4 p6 host\<rparr>"
proof -
  define query where "query = ascii ''?'' @ stream_query desired ch sid"
  define hp where "hp = host @ ascii '':'' @ nat_digits n @ query"
  have digits: "0x2F \<notin> set (nat_digits k)" "0x3F \<notin> set (nat_digits k)" for k
    using nat_digits_value [of k] by (auto simp: list_all_iff is_digit_def)
  have nopath: "0x2F \<notin> set hp" using assms(3,6) digits
    by (auto simp: hp_def query_def stream_query_def int_digits_def ascii_def split: if_split_asm)
  have "0x3F \<notin> set (ws_prefix sec @ (host @ ascii '':'' @ nat_digits n))"
    using assms(4) digits by (simp add: ws_prefix_def ascii_def)
  then have "find_sub (ws_prefix sec @ (host @ ascii '':'' @ nat_digits n)) (ascii ''?'') 0 = None"
    using find_char_mem [where s = "ws_prefix sec @ (host @ ascii '':'' @ nat_digits n)" and c = "0x3F"] by (simp add: ascii_def)
  then have uri: "stream_uri desired ch sid (ws_prefix sec @ (host @ ascii '':'' @ nat_digits n)) = ws_prefix sec @ hp @ []"
    by (simp add: stream_uri_def hp_def query_def)
  have "find_sub hp (ascii '':'') 0 = Some (length host)"
    using find_char_Some [OF assms(2), of "[]" "nat_digits n @ query"] by (simp add: hp_def ascii_def)
  moreover have "stoi (nat_digits n @ query) = Some (int n)"
    using stoi_nat_digits [OF assms(5), of query] by (simp add: query_def ascii_def is_digit_def)
  moreover have "drop (length host + 1) hp = nat_digits n @ query" "take (length host) hp = host" by (simp_all add: hp_def ascii_def)
  ultimately show ?thesis using assms(1)
    unfolding uri setUrl_behind_scheme [OF nopath disjI1 [OF refl]] by simp
qed

theorem request_without_path_witness:
  "cl_uri (setUrl (\<lambda>_. True) (\<lambda>_. False) (stream_uri 16000 1 (ascii ''6d1f'')
     (ws_prefix False @ (ascii ''10.0.0.1'' @ ascii '':'' @ nat_digits 8090))) (WebSocketClient 80 False False)) = ascii ''/''"
  by (subst request_without_path) (simp_all add: ascii_def)

text \<open>The command starts a session only where everything it was given is valid: there was none, the mix is
  one of the three, the URI is accepted and the rate is a multiple of 8000.\<close>

theorem api_start_guarded:
  assumes "stream_function J W Z E argv s = Inr (Ok, s')" "lower (argv ! 1) = ascii ''start''"
  shows "4 \<le> length argv \<and> \<not> bug s \<and> bug s' \<and> validate_ws_uri (argv ! 2) \<noteq> None \<and>
    argv ! 3 \<in> {ascii ''mixed'', ascii ''stereo'', ascii ''mono''} \<and>
    (length argv > 4 \<longrightarrow> argv ! 4 \<in> {ascii ''16k'', ascii ''8k''} \<or> atoi (argv ! 4) mod 8000 = 0)"
proof -
  have names: "ascii ''start'' \<noteq> ascii ''stop''" "ascii ''start'' \<noteq> ascii ''pause''" "ascii ''start'' \<noteq> ascii ''resume''"
    "ascii ''start'' \<noteq> ascii ''send_text''" by (simp_all add: ascii_def)
  have start: "start_command J W Z E argv s = Inr (Ok, s')"
    using assms names unfolding stream_function_def Let_def by (simp split: if_split_asm)
  define smp where "smp = (if length argv > 4 then
      (if argv ! 4 = ascii ''16k'' then 16000 else if argv ! 4 = ascii ''8k'' then 8000 else atoi (argv ! 4)) else 8000)"
  obtain arr where guards: "4 \<le> length argv" "argv ! 3 \<in> {ascii ''mixed'', ascii ''stereo'', ascii ''mono''}"
    "validate_ws_uri (argv ! 2) = Some arr" "smp mod 8000 = 0"
    and run: "reply (start_capture J W Z E (argv ! 3 = ascii ''stereo'') arr smp
      (if length argv > 5 then Some (argv ! 5) else None) s) = Inr (Ok, s')"
    using start unfolding start_command_def Let_def smp_def [symmetric]
    by (auto split: if_split_asm option.split_asm)
  from run obtain ok s1 where "start_capture J W Z E (argv ! 3 = ascii ''stereo'') arr smp
      (if length argv > 5 then Some (argv ! 5) else None) s = Inr (ok, s1)" "ok" "s1 = s'"
    by (cases "start_capture J W Z E (argv ! 3 = ascii ''stereo'') arr smp (if length argv > 5 then Some (argv ! 5) else None) s")
      (auto simp: reply_def split: if_split_asm)
  then have "\<not> bug s \<and> bug s'"
    by (auto simp: start_capture_def split: if_split_asm sum.split_asm prod.split_asm bool.split_asm)
  then show ?thesis using guards by (auto simp: smp_def split: if_split_asm)
qed

abbreviation "demo_argv \<equiv> [ascii ''6d1f'', ascii ''start'', ascii ''ws://127.0.0.1:8090/stream'', ascii ''mono'']"

theorem api_start_guarded_witness:
  "\<exists>s1. stream_function no_json list_sw stored_ext demo_call demo_argv demo_idle = Inr (Ok, s1) \<and> \<not> bug demo_idle \<and> bug s1"
proof -
  let ?arr = "strncpy (replicate MAX_WS_URI 0) (ascii ''ws://127.0.0.1:8090/stream'') MAX_WS_URI"
  have "validate_ws_uri (ascii ''ws://127.0.0.1:8090/stream'') = Some ?arr"
    by (simp add: validate_ws_uri_def c_str_def ascii_def host_char_def is_digit_def)
  moreover have "\<exists>s1. start_capture no_json list_sw stored_ext demo_call False ?arr 8000 None demo_idle = Inr (True, s1)"
  proof (rule start_capture_result [where made = True])
    show "fst (init_buffers list_sw (e_codec_rate demo_call) 8000 (if False then 2 else 1)
      (set_rtp_packets (stream_settings demo_call)) t) = True" for t
      by (simp add: init_buffers_def list_sw_def Let_def demo_call_def)
    show "0 \<in> set ?arr" by (simp add: strncpy_def c_str_def ascii_def MAX_WS_URI_def Let_def)
  qed (use demo_fits demo_uuid in \<open>simp_all add: demo_call_def demo_idle_def\<close>)
  moreover have "lower (ascii ''start'') = ascii ''start''" "located demo_idle" by (code_simp, simp add: demo_idle_def)
  ultimately have "\<exists>s1. stream_function no_json list_sw stored_ext demo_call demo_argv demo_idle = Inr (Ok, s1)"
    by (auto simp: stream_function_def start_command_def reply_def ascii_def)
  then obtain s1 where s1: "stream_function no_json list_sw stored_ext demo_call demo_argv demo_idle = Inr (Ok, s1)" by blast
  have "lower (demo_argv ! 1) = ascii ''start''" by (simp, code_simp)
  then show ?thesis using api_start_guarded [OF s1] s1 by blast
qed

text \<open>The number of arguments is checked for "start" as it is spelt, but the command is recognised in any
  case: "START" with a URI and nothing more compares a null pointer with the names of the mixes.\<close>

theorem start_without_mix_faults:
  assumes "located s" "lower cmd = ascii ''start''" "cmd \<noteq> ascii ''start''"
  shows "stream_function J W Z E [uuid, cmd, url] s = Inl NullString"
  using assms by (simp add: stream_function_def start_command_def ascii_def)

theorem start_without_mix_faults_witness:
  "stream_function no_json list_sw stored_ext demo_call
     [ascii ''6d1f'', ascii ''START'', ascii ''ws://127.0.0.1:8090/stream''] demo_idle = Inl NullString"
proof (rule start_without_mix_faults)
  show "lower (ascii ''START'') = ascii ''start''" by code_simp
qed (simp_all add: demo_idle_def ascii_def)

end
