(* ===== verification/Session.thy ===== *)
theory Session
  imports Module
begin

text \<open>
  A session as a whole: everything FreeSWITCH, the connection and the API can do to it between its start
  and after its end, in any order of whole operations. The invariant says which pointers are set, which arrays are terminated and which
  fields never change; it is what makes every one of these operations free of faults. That two of them overlap is another matter:
  \<open>send_text_seen\<close> is the rest of a call during which a stop has gone through.
\<close>

section \<open>Operations on a session\<close>

text \<open>One whole operation of the three threads. \<open>Connection x\<close> is whatever the event thread does to the
  connection object between two callbacks.\<close>

datatype 'd session_op =
    Captured bool "(bytes \<times> nat) list"
  | ToCaller "switch_frame option"
  | BugClosed bool
  | FromServer ctx_event
  | Stop "bytes option"
  | Pause bool
  | SendText bytes
  | Connection "'d ctx"

definition session_do ::
    "cjson \<Rightarrow> ('b, 'r) sw \<Rightarrow> ('d, 'i) ext \<Rightarrow> 'd session_op \<Rightarrow> ('b, 'r, 'd) session \<Rightarrow> fault + ('b, 'r, 'd) session" where
  "session_do J W Z op s =
     (case op of
        Captured lock_free frames \<Rightarrow>
          map_sum id (\<lambda>(stay, s1, fr). s1) (capture_callback W Z False lock_free frames None ABC_READ s)
      | ToCaller fr \<Rightarrow>
          map_sum id (\<lambda>(stay, s1, fr1). s1) (capture_callback W Z False True [] fr ABC_WRITE_REPLACE s)
      | BugClosed on_event \<Rightarrow>
          map_sum id (\<lambda>(stay, s1, fr). s1) (capture_callback W Z on_event True [] None ABC_CLOSE s)
      | FromServer e \<Rightarrow> handle J W Z e s
      | Stop txt \<Rightarrow> map_sum id snd (do_stop Z txt s)
      | Pause pause \<Rightarrow> Inr (snd (do_pauseresume pause s))
      | SendText txt \<Rightarrow> map_sum id snd (send_text Z txt s)
      | Connection x \<Rightarrow>
          Inr (s\<lparr>streamer := map_option (\<lambda>sp. sp\<lparr>s_client := (s_client sp)\<lparr>cl_ctx := Some x\<rparr>\<rparr>) (streamer s)\<rparr>))"

fun session_run ::
    "cjson \<Rightarrow> ('b, 'r) sw \<Rightarrow> ('d, 'i) ext \<Rightarrow> 'd session_op list \<Rightarrow> ('b, 'r, 'd) session \<Rightarrow> fault + ('b, 'r, 'd) session" where
  "session_run J W Z [] s = Inr s"
| "session_run J W Z (op # ops) s = (case session_do J W Z op s of Inl f \<Rightarrow> Inl f | Inr s1 \<Rightarrow> session_run J W Z ops s1)"

section \<open>The invariant\<close>

text \<open>What stays of \<open>private_t\<close> from its start on: the settings, and the buffers with their sizes.\<close>

definition tech_shape ::
    "('b \<Rightarrow> nat) \<Rightarrow> ('b, 'r) private_t \<Rightarrow> bytes \<times> bytes \<times> bytes \<times> int \<times> int \<times> int \<times> nat option \<times> nat option \<times> nat option" where
  "tech_shape cap t = (sessionId t, ws_uri t, initialMetadata t, sampling t, channels t, rtp_packets t,
     map_option cap (sbuffer t), map_option cap (play_buffer t), map_option cap (dl_stash t))"

text \<open>A session is on, with everything its callbacks use in place, or over.\<close>

definition session_on :: "('b, 'r, 'd) session \<Rightarrow> bool" where
  "session_on s \<longleftrightarrow> bug s \<and> alive s \<and> pAudioStreamer (tech s) \<and> mutex (tech s) \<and> play_mutex (tech s) \<and>
     \<not> cleanup_started (tech s) \<and> sbuffer (tech s) \<noteq> None \<and> play_buffer (tech s) \<noteq> None \<and> dl_stash (tech s) \<noteq> None \<and>
     0 \<in> set (initialMetadata (tech s)) \<and> 0 \<in> set (sessionId (tech s))"

definition session_over :: "('b, 'r, 'd) session \<Rightarrow> bool" where
  "session_over s \<longleftrightarrow> \<not> bug s \<and> \<not> alive s \<and> cleanup_started (tech s)"

definition session_ok :: "('b \<Rightarrow> nat) \<Rightarrow> ('b, 'r) private_t \<Rightarrow> ('b, 'r, 'd) session \<Rightarrow> bool" where
  "session_ok cap t0 s \<longleftrightarrow> (session_on s \<or> session_over s) \<and> tech_shape cap (tech s) = tech_shape cap t0"

text \<open>An operation that goes on as a session that is on, or leaves one that is over.\<close>

definition goes_to :: "('b \<Rightarrow> nat) \<Rightarrow> ('b, 'r, 'd) session \<Rightarrow> fault + ('b, 'r, 'd) session \<Rightarrow> bool" where
  "goes_to cap s r \<longleftrightarrow> (\<exists>s'. r = Inr s' \<and> (session_on s' \<or> session_over s') \<and>
     tech_shape cap (tech s') = tech_shape cap (tech s))"

section \<open>Every operation goes on\<close>

lemma read_plain_cap:
  assumes "buffer_doc W content cap"
  shows "cap (fst (read_plain W rtp f (b, pending))) = cap b"
  using flush_full_spec(2) [OF assms] buffer_docD(8) [OF assms]
  by (cases f) (simp add: read_plain_def)

lemma read_plain_fold_cap:
  assumes "buffer_doc W content cap"
  shows "cap (fst (fold (read_plain W rtp) frames (b, pending))) = cap b"
proof (induction frames arbitrary: b pending)
  case (Cons f frames)
  obtain b1 p1 where "read_plain W rtp f (b, pending) = (b1, p1)" by fastforce
  then show ?case using Cons [of b1 p1] read_plain_cap [OF assms, of rtp f b pending] by simp
qed simp

lemma read_resampled_cap:
  assumes "buffer_doc W content cap" "read_resampled W ch rtp f (r, b, pending) = (r1, b1, p1)"
  shows "cap b1 = cap b"
proof -
  obtain data samples where f: "f = (data, samples)" by (cases f)
  obtain out r2 where o: "spx_process W ch data samples (buf_freespace W b div (ch * 2) mod 2 ^ 32) r = (out, r2)"
    by fastforce
  have flush: "cap b2 = cap b3" if "flush_full W b3 p = (b2, q)" for b2 b3 p q
    using flush_full_spec(2) [OF assms(1), of b3 p] that by simp
  show ?thesis
    using assms(2) o buffer_docD(8) [OF assms(1)]
    by (auto simp: read_resampled_def f Let_def split: if_split_asm dest!: flush)
qed

lemma read_resampled_fold_cap:
  assumes "buffer_doc W content cap" "fold (read_resampled W ch rtp) frames (r, b, pending) = (r1, b1, p1)"
  shows "cap b1 = cap b"
  using assms(2)
proof (induction frames arbitrary: r b pending)
  case (Cons f frames)
  obtain r2 b2 p2 where s: "read_resampled W ch rtp f (r, b, pending) = (r2, b2, p2)" by (metis prod_cases3)
  then show ?case using Cons.IH [of r2 b2 p2] Cons.prems read_resampled_cap [OF assms(1) s] by simp
qed simp

text \<open>The uplink.\<close>

lemma stream_frame_goes_on:
  assumes "buffer_doc W content cap" "mutex t" "sbuffer t \<noteq> None"
  shows "\<exists>rs b c1. stream_frame W Z lock_free frames t c = Inr (t\<lparr>resampler := rs, sbuffer := b\<rparr>, c1) \<and>
    map_option cap b = map_option cap (sbuffer t) \<and> b \<noteq> None"
proof -
  have same: "t = t\<lparr>resampler := resampler t, sbuffer := sbuffer t\<rparr>" by simp
  obtain b where b: "sbuffer t = Some b" using assms(3) by auto
  show ?thesis
  proof (cases "audio_paused t \<or> cleanup_started t \<or> \<not> lock_free \<or> \<not> pAudioStreamer t")
    case True
    then have "stream_frame W Z lock_free frames t c = Inr (t, c)" using assms(2) by (auto simp: stream_frame_def)
    then show ?thesis using same assms(3) by metis
  next
    case False
    show ?thesis
    proof (cases "resampler t")
      case None
      obtain b1 p1 where f: "fold (read_plain W (rtp_packets t)) frames (b, []) = (b1, p1)" by fastforce
      then have "cap b1 = cap b" using read_plain_fold_cap [OF assms(1), of "rtp_packets t" frames b "[]"] by simp
      then show ?thesis using False None f b assms(2)
        by (intro exI [of _ None] exI [of _ "Some b1"]) (simp add: stream_frame_def)
    next
      case (Some r)
      obtain r1 b1 p1 where f: "fold (read_resampled W (nat (channels t)) (rtp_packets t)) frames (r, b, []) = (r1, b1, p1)"
        by (metis prod_cases3)
      note cap = read_resampled_fold_cap [OF assms(1) f]
      show ?thesis using False Some f b assms(2) cap
        by (intro exI [of _ "Some r1"] exI [of _ "Some b1"]) (simp add: stream_frame_def)
    qed
  qed
qed

text \<open>The downlink.\<close>

definition tech_flags :: "('b, 'r) private_t \<Rightarrow> bool \<times> bool \<times> bool \<times> bool" where
  "tech_flags t = (mutex t, play_mutex t, pAudioStreamer t, cleanup_started t)"

lemma dl_learn_shape:
  assumes "buffer_doc W content cap" "dl_stash t = Some stash"
  shows "tech_shape cap (dl_learn W rate ch stash t) = tech_shape cap t" "tech_flags (dl_learn W rate ch stash t) = tech_flags t"
  using assms buffer_docD(10) [OF assms(1)] by (simp_all add: dl_learn_def tech_shape_def tech_flags_def)

lemma playback_goes_on:
  assumes doc: "buffer_doc W content cap" and "play_mutex t" "play_buffer t \<noteq> None" "dl_stash t \<noteq> None"
  shows "\<exists>t1 fro1. stream_playback_frame W fro t = Inr (t1, fro1) \<and> tech_shape cap t1 = tech_shape cap t \<and> tech_flags t1 = tech_flags t"
proof (cases "cleanup_started t \<or> fro = None \<or> fr_data (the fro) = [] \<or> fr_rate (the fro) = 0")
  case True
  then show ?thesis by (auto simp: stream_playback_frame_def split: option.split)
next
  case False
  then obtain fr where fr: "fro = Some fr" "fr_data fr \<noteq> []" "fr_rate fr \<noteq> 0" "\<not> cleanup_started t" by auto
  obtain play stash where b: "play_buffer t = Some play" "dl_stash t = Some stash" using assms(3,4) by auto
  define ch where "ch = (if fr_channels fr > 0 then fr_channels fr else 1)"
  define n where "n = length (fr_data fr)"
  define u where "u = dl_learn W (fr_rate fr) ch stash t"
  note u = dl_learn_shape [OF doc b(2), of "fr_rate fr" ch, folded u_def]
  obtain s1 where s1: "dl_stash u = Some s1" "cap s1 = cap stash" using u(1) b(2) by (auto simp: tech_shape_def)
  obtain play2 stash2 rs2 where up: "top_up W ch (fr_rate fr) (sampling u) n play s1 (dl_resampler u) = Some (play2, stash2, rs2)"
    "cap stash2 = cap s1" "cap play2 = cap play"
    using top_up_returns [OF doc, of ch "fr_rate fr" "sampling u" n play s1 "dl_resampler u"] by blast
  define u2 where "u2 = u\<lparr>play_buffer := Some play2, dl_stash := Some stash2, dl_resampler := rs2\<rparr>"
  have u2: "tech_shape cap u2 = tech_shape cap t" "tech_flags u2 = tech_flags t" "dl_stash u2 = Some stash2"
    using u up(2,3) s1 b by (simp_all add: u2_def tech_shape_def tech_flags_def)
  have "stream_playback_frame W fro t =
      (if buf_inuse W stash2 \<ge> n
       then Inr (u2\<lparr>dl_stash := Some (snd (buf_read W n stash2)), replaced := replaced u2 + 1\<rparr>,
                 Some (fr\<lparr>fr_data := fst (buf_read W n stash2)\<rparr>))
       else Inr (u2\<lparr>underruns := underruns u2 + 1\<rparr>, Some fr))"
    using fr b assms(2) up(1) s1(1) by (simp add: stream_playback_frame_def n_def Let_def ch_def [symmetric] u_def [symmetric] u2_def)
  moreover have "tech_shape cap (u2\<lparr>dl_stash := Some (snd (buf_read W n stash2)), replaced := replaced u2 + 1\<rparr>) = tech_shape cap t"
    using u2 buffer_docD(6) [OF doc] by (simp add: tech_shape_def)
  moreover have "tech_shape cap (u2\<lparr>underruns := underruns u2 + 1\<rparr>) = tech_shape cap t"
    using u2(1) by (simp add: tech_shape_def)
  moreover have "tech_flags (u2\<lparr>dl_stash := Some (snd (buf_read W n stash2)), replaced := replaced u2 + 1\<rparr>) = tech_flags t"
    "tech_flags (u2\<lparr>underruns := underruns u2 + 1\<rparr>) = tech_flags t"
    using u2(2) by (simp_all add: tech_flags_def)
  ultimately show ?thesis by (cases "buf_inuse W stash2 \<ge> n") simp_all
qed

lemma onBinary_goes_on:
  assumes doc: "buffer_doc W content cap" and "play_mutex t"
  shows "\<exists>t1. onBinary W data t = Inr t1 \<and> tech_shape cap t1 = tech_shape cap t \<and> tech_flags t1 = tech_flags t"
proof (cases "play_buffer t = None \<or> cleanup_started t")
  case True
  then show ?thesis by (auto simp: onBinary_def split: option.split)
next
  case False
  then obtain b where b: "play_buffer t = Some b" by auto
  obtain b1 where b1: "drop_oldest W (length data) b = Some b1" "cap b1 = cap b"
    using drop_oldest_spec [OF doc, of "length data" b] by blast
  then show ?thesis using False b assms(2) buffer_docD(8) [OF doc]
    by (simp add: onBinary_def tech_shape_def tech_flags_def)
qed

lemma clearPlayback_goes_on:
  assumes doc: "buffer_doc W content cap" and "play_mutex t"
  shows "\<exists>t1. clearPlayback W t = Inr t1 \<and> tech_shape cap t1 = tech_shape cap t \<and> tech_flags t1 = tech_flags t"
  using assms(2) buffer_docD(10) [OF doc]
  by (simp add: clearPlayback_def tech_shape_def tech_flags_def option.map_comp comp_def)

text \<open>A session that is on stays so under changes of \<open>private_t\<close> that keep its shape and flags.\<close>

lemma session_on_tech:
  assumes "session_on s" "tech_shape cap t1 = tech_shape cap (tech s)" "tech_flags t1 = tech_flags (tech s)"
  shows "session_on (s\<lparr>tech := t1\<rparr>)"
  using assms by (auto simp: session_on_def tech_shape_def tech_flags_def alive_def)

lemma goes_to_on:
  assumes "r = Inr s'" "session_on s'" "tech_shape cap (tech s') = tech_shape cap (tech s)"
  shows "goes_to cap s r"
  using assms by (simp add: goes_to_def)

lemma goes_to_tech:
  assumes "session_on s" "r = Inr t1" "tech_shape cap t1 = tech_shape cap (tech s)" "tech_flags t1 = tech_flags (tech s)"
  shows "goes_to cap s (map_sum id (\<lambda>t. s\<lparr>tech := t\<rparr>) r)"
  using assms session_on_tech [OF assms(1,3,4)] by (simp add: goes_to_def)

text \<open>The callbacks of the connection.\<close>

lemma eventCallback_goes_on:
  assumes "session_on s"
  shows "goes_to cap s (eventCallback Z event msg s)"
  using assms
  by (cases event; cases "located s")
    (auto simp: eventCallback_def goes_to_def session_on_def alive_def responseHandler_def media_bug_close_def
      send_initial_metadata_def tech_shape_def writeText_def split: option.splits)

lemma handle_goes_on:
  assumes doc: "buffer_doc W content cap" and on: "session_on s"
  shows "goes_to cap s (handle J W Z e s)"
proof (cases e)
  case (OnMessage m)
  obtain t1 where "clearPlayback W (tech s) = Inr t1" "tech_shape cap t1 = tech_shape cap (tech s)" "tech_flags t1 = tech_flags (tech s)"
    using clearPlayback_goes_on [OF doc, of "tech s"] on by (auto simp: session_on_def)
  then show ?thesis using on OnMessage goes_to_tech [OF on] eventCallback_goes_on [OF on]
    by (auto simp: handle_def cb_on_message_def session_on_def)
next
  case (OnBinary d)
  obtain t1 where "onBinary W d (tech s) = Inr t1" "tech_shape cap t1 = tech_shape cap (tech s)" "tech_flags t1 = tech_flags (tech s)"
    using onBinary_goes_on [OF doc, of "tech s" d] on by (auto simp: session_on_def)
  from goes_to_tech [OF on this] show ?thesis using on OnBinary
    by (simp add: handle_def cb_on_binary_def session_on_def)
next
  case (Sent type raw)
  then show ?thesis using on by (simp add: handle_def goes_to_def)
qed (use on eventCallback_goes_on [OF on] in
    \<open>simp_all add: handle_def cb_on_open_def cb_on_error_def cb_on_close_def session_on_def\<close>)

lemma cleanup_goes_on:
  assumes "session_on s"
  shows "goes_to cap s (map_sum id snd (stream_session_cleanup Z on_event txt is_closing s))"
proof -
  obtain sp where sp: "streamer s = Some sp" using assms by (auto simp: session_on_def alive_def split: option.split_asm)
  have held: "(if pAudioStreamer (tech s) then streamer s else None) = Some sp"
    using assms sp by (simp add: session_on_def)
  show ?thesis using assms held
    by (simp add: stream_session_cleanup_def goes_to_def session_on_def session_over_def alive_def disconnect_def
        markCleanedUp_def destroy_tech_pvt_def tech_shape_def Let_def)
qed

lemma send_text_goes_on:
  assumes "session_on s"
  shows "goes_to cap s (map_sum id snd (send_text Z txt s))"
  using assms
  by (auto simp: send_text_def stream_session_send_text_def goes_to_def session_on_def alive_def writeText_def
      tech_shape_def split: option.split)

text \<open>Once the session is over nothing happens to \<open>private_t\<close> any more.\<close>

lemma session_over_stays:
  assumes "session_over s"
  shows "goes_to cap s (session_do J W Z op s)"
proof (cases op)
  case (Captured lock_free frames)
  show ?thesis
  proof (cases "streamer s")
    case None
    then show ?thesis using assms Captured by (simp add: session_do_def capture_callback_def goes_to_def session_over_def)
  next
    case (Some sp)
    have "stream_frame W Z lock_free frames (tech s) (s_client sp) = Inr (tech s, s_client sp)"
      using assms by (simp add: stream_frame_def session_over_def)
    then show ?thesis using assms Captured Some
      by (simp add: session_do_def capture_callback_def goes_to_def session_over_def alive_def)
  qed
next
  case (FromServer e)
  then show ?thesis using assms
    by (auto simp: session_do_def handle_def goes_to_def session_over_def cb_on_message_def cb_on_binary_def cb_on_open_def
        cb_on_error_def cb_on_close_def split: ctx_event.split)
next
  case (Connection x)
  then show ?thesis using assms
    by (auto simp: session_do_def goes_to_def session_over_def alive_def split: option.split)
qed (use assms in \<open>simp_all add: session_do_def capture_callback_def stream_playback_frame_def stream_session_cleanup_def
    do_stop_def do_pauseresume_def stream_session_pauseresume_def send_text_def goes_to_def session_over_def\<close>)

lemma session_on_goes_on:
  assumes doc: "buffer_doc W content cap" and on: "session_on s"
  shows "goes_to cap s (session_do J W Z op s)"
proof (cases op)
  case (Captured lock_free frames)
  obtain sp where sp: "streamer s = Some sp" using on by (auto simp: session_on_def alive_def split: option.split_asm)
  have "mutex (tech s)" "sbuffer (tech s) \<noteq> None" using on by (simp_all add: session_on_def)
  from stream_frame_goes_on [OF doc this, of Z lock_free frames "s_client sp"] obtain rs b c1 where
    f: "stream_frame W Z lock_free frames (tech s) (s_client sp) = Inr ((tech s)\<lparr>resampler := rs, sbuffer := b\<rparr>, c1)"
    "map_option cap b = map_option cap (sbuffer (tech s))" "b \<noteq> None" by blast
  show ?thesis
  proof (cases "close_requested (tech s)")
    case True
    then show ?thesis using on Captured by (simp add: session_do_def capture_callback_def goes_to_def)
  next
    case False
    have "session_on (s\<lparr>tech := (tech s)\<lparr>resampler := rs, sbuffer := b\<rparr>, streamer := Some (sp\<lparr>s_client := c1\<rparr>)\<rparr>)"
      using on sp f(3) by (simp add: session_on_def alive_def)
    then show ?thesis using Captured False sp f(1,2)
      by (simp add: session_do_def capture_callback_def goes_to_def tech_shape_def)
  qed
next
  case (ToCaller fr)
  obtain t1 fro1 where "stream_playback_frame W fr (tech s) = Inr (t1, fro1)" "tech_shape cap t1 = tech_shape cap (tech s)"
    "tech_flags t1 = tech_flags (tech s)"
    using playback_goes_on [OF doc, of "tech s" fr] on by (auto simp: session_on_def)
  then show ?thesis using on ToCaller session_on_tech [OF on]
    by (auto simp: session_do_def capture_callback_def goes_to_def)
next
  case (BugClosed on_event)
  have "session_do J W Z op s = map_sum id snd (stream_session_cleanup Z on_event None (\<not> close_requested (tech s)) s)"
    using BugClosed by (cases "stream_session_cleanup Z on_event None (\<not> close_requested (tech s)) s")
      (auto simp: session_do_def capture_callback_def)
  then show ?thesis using cleanup_goes_on [OF on] by simp
next
  case (Connection x)
  then show ?thesis using on by (auto simp: session_do_def goes_to_def session_on_def alive_def split: option.splits)
next
  case (Pause pause)
  then show ?thesis using on
    by (simp add: session_do_def do_pauseresume_def stream_session_pauseresume_def goes_to_def session_on_def alive_def tech_shape_def)
qed (use on handle_goes_on [OF doc on] cleanup_goes_on [OF on] send_text_goes_on [OF on] in
    \<open>simp_all add: session_do_def do_stop_def\<close>)

lemma session_ok_step:
  assumes "buffer_doc W content cap" "session_ok cap t0 s"
  shows "\<exists>s1. session_do J W Z op s = Inr s1 \<and> session_ok cap t0 s1"
  using assms session_over_stays [of s cap J W Z op] session_on_goes_on [OF assms(1), of s J Z op]
  unfolding session_ok_def goes_to_def by metis

lemma session_ok_run:
  assumes "buffer_doc W content cap" "session_ok cap t0 s"
  shows "\<exists>s1. session_run J W Z ops s = Inr s1 \<and> session_ok cap t0 s1"
  using assms(2)
proof (induction ops arbitrary: s)
  case (Cons op ops)
  obtain s1 where "session_do J W Z op s = Inr s1" "session_ok cap t0 s1"
    using session_ok_step [OF assms(1) Cons.prems] by blast
  then show ?case using Cons.IH by simp
qed simp

text \<open>What a successful start leaves is a session that is on.\<close>

lemma session_started_on:
  assumes "buffer_doc W content cap" "start_capture J W Z E stereo u desired m s = Inr (True, s1)"
    "e_sha1 E = None" "e_thread E" "length (e_nonce E) = 16" "cl_ctx (e_client0 E) = None"
    "\<And>m1. m = Some m1 \<Longrightarrow> length (c_str m1) < 8192"
  shows "session_on s1"
proof -
  define ch :: int where "ch = (if stereo then 2 else 1)"
  obtain s0 where s0: "stream_data_init J W Z E u desired ch m (stream_settings E) s = Inr (True, s0)"
    "s1 = s0\<lparr>bug := True, bug_attached := True\<rparr>"
    using assms(2) unfolding start_capture_def stream_session_init_def ch_def
    by (auto split: if_split_asm sum.split_asm prod.split_asm bool.split_asm)
  obtain t1 t2 sp where t: "t1 = call_tech E u desired ch m (set_rtp_packets (stream_settings E))"
    "init_buffers W (e_codec_rate E) desired ch (set_rtp_packets (stream_settings E))
       (t1\<lparr>pAudioStreamer := True, mutex := True, play_mutex := True\<rparr>) = (True, t2)"
    "s0 = s\<lparr>tech := t2, streamer := Some sp\<rparr>"
    "streamer_create J (e_pton4 E) (e_pton6 E) Z (e_sha1 E) (e_nonce E) (e_thread E) (e_client0 E)
       (c_str (sessionId t1)) (c_str (ws_uri t1)) (stream_settings E) = Inr sp"
    "0 \<in> set (sessionId t1)"
    by (rule stream_data_init_shape [OF s0(1)]) blast
  have sp: "\<not> m_cleanedUp sp" using streamer_create_alive [of J _ _ Z] t(4) assms(3-6) by fastforce
  obtain b p st rs where bufs: "t2 = t1\<lparr>pAudioStreamer := True, mutex := True, play_mutex := True, sbuffer := Some b,
      play_buffer := Some p, dl_stash := Some st, resampler := rs\<rparr>"
    by (rule init_buffers_ok [OF assms(1) t(2)]) simp
  have meta: "0 \<in> set (initialMetadata t1)"
  proof (cases m)
    case None
    then show ?thesis by (simp add: t(1) call_tech_def zero_tech_def MAX_METADATA_LEN_def Let_def)
  next
    case (Some m1)
    then have "c_str m1 = take 8192 (c_str m1)" "length (c_str m1) < 8192" using assms(7) by simp_all
    then show ?thesis using Some by (simp add: t(1) call_tech_def strncpy_def MAX_METADATA_LEN_def Let_def)
  qed
  show ?thesis
    using sp meta t(5) unfolding s0(2) t(3) bufs by (simp add: session_on_def alive_def t(1) call_tech_fields)
qed

section \<open>Properties\<close>



text \<open>\<open>send_text\<close> looks for the bug first, in \<open>send_text\<close> and again in \<open>stream_session_send_text\<close>, and locks the mutex of
  \<open>private_t\<close> afterwards. This is what is left of it when it has found the bug.\<close>

definition send_text_seen :: "('d, 'i) ext \<Rightarrow> bytes \<Rightarrow> ('b, 'r, 'd) session \<Rightarrow> fault + bool \<times> ('b, 'r, 'd) session" where
  "send_text_seen Z txt s =
     (if \<not> mutex (tech s) then Inl NullMutex
      else
        (case (if pAudioStreamer (tech s) then streamer s else None) of
           None \<Rightarrow> Inr (False, s)
         | Some sp \<Rightarrow> Inr (True, s\<lparr>streamer := Some (writeText Z False txt sp)\<rparr>)))"

lemma send_text_seen_now: "bug s \<Longrightarrow> send_text_seen Z txt s = send_text Z txt s"
  by (simp add: send_text_seen_def send_text_def stream_session_send_text_def)

text \<open>A stop that goes through between the two has released the mutex: the text command of the other thread locks a null
  pointer. Nothing in the module keeps them apart.\<close>

theorem overlapping_stop_faults:
  assumes "session_on s"
  shows "\<exists>s1. do_stop Z txt s = Inr (True, s1) \<and> send_text_seen Z text s1 = Inl NullMutex"
proof -
  obtain s1 where "do_stop Z txt s = Inr (True, s1)" "\<not> mutex (tech s1)"
    using assms by (auto simp: session_on_def do_stop_def stream_session_cleanup_def destroy_tech_pvt_def Let_def)
  then show ?thesis by (simp add: send_text_seen_def)
qed

theorem overlapping_stop_faults_witness:
  "\<exists>s s1. start_capture no_json list_sw stored_ext demo_call False demo_uri 8000 None demo_idle = Inr (True, s) \<and>
     do_stop stored_ext None s = Inr (True, s1) \<and> send_text_seen stored_ext [0x61] s1 = Inl NullMutex"
proof -
  obtain s where s: "start_capture no_json list_sw stored_ext demo_call False demo_uri 8000 None demo_idle = Inr (True, s)"
    using demo_start [of True] demo_call_ok by auto
  have "session_on s"
    using session_started_on [OF list_buffer_doc s demo_call(1-4)] by simp
  from overlapping_stop_faults [OF this] s show ?thesis by blast
qed

end
