(* ===== verification/Invariant.thy ===== *)
theory Invariant
  imports Connection
begin

text \<open>
  The interface for invariants of a connection: a property that every operation of the connection object
  keeps holds in every state of every run. The receiver is reached through its own interface, with the
  property as part of the endpoint's invariant.
\<close>

section \<open>Properties of the connection object\<close>

text \<open>The opening of the connection: the queue is flushed in the state it is opened to, then the callback is made.\<close>

definition ctx_opened :: "('d, 'i) ext \<Rightarrow> 'd ctx \<Rightarrow> 'd ctx" where
  "ctx_opened Z x =
     (let x1 = flushSendQueue Z (x\<lparr>upgraded := True, connection_state := CONNECTED\<rparr>)
      in (if cb_open x1 then emit OnOpen x1 else x1)\<lparr>timeout_event := False\<rparr>)"

text \<open>The way the opening handshake is refused.\<close>

definition ctx_refused :: "'d ctx \<Rightarrow> 'd ctx" where
  "ctx_refused x = requestLoopExit True
     (sendError CONNECT_FAILED (ascii ''WebSocket upgrade failed'') (x\<lparr>connection_state := FAILED\<rparr>))"

text \<open>The steps that are not calls of \<open>sendData\<close>.\<close>

inductive loop_step :: "('d, 'i) ext \<Rightarrow> ('d, 'i) world \<Rightarrow> ('d, 'i) world \<Rightarrow> bool" for Z where
  loop_stop: "loop_step Z w (w\<lparr>ctx := ctx_stop (ctx w)\<rparr>)"
| loop_read: "\<not> dead w \<Longrightarrow> loop_step Z w (handleRead Z (w\<lparr>input := input w @ bs\<rparr>))"
| loop_event: "\<not> dead w \<Longrightarrow> (ev_connected ev \<longrightarrow> \<not> upgraded (ctx w)) \<Longrightarrow>
    loop_step Z w (w\<lparr>ctx := handleEvent ev (ctx w)\<rparr>)"
| loop_timeout: "\<not> dead w \<Longrightarrow> timeout_event (ctx w) \<Longrightarrow> loop_step Z w (w\<lparr>ctx := timeoutCallback (ctx w)\<rparr>)"
| loop_ping: "\<not> dead w \<Longrightarrow> ping_event (ctx w) \<Longrightarrow> loop_step Z w (w\<lparr>ctx := pingCallback Z (ctx w)\<rparr>)"
| loop_close_timer: "\<not> dead w \<Longrightarrow> close_timer_armed (ctx w) \<Longrightarrow>
    loop_step Z w (w\<lparr>ctx := closeTimerCb ((ctx w)\<lparr>close_timer_armed := False\<rparr>)\<rparr>)"
| loop_wakeup: "\<not> dead w \<Longrightarrow> wakeup_active (ctx w) \<Longrightarrow>
    loop_step Z w (w\<lparr>ctx := wakeupCallback Z ((ctx w)\<lparr>wakeup_active := False\<rparr>)\<rparr>)"
| loop_send: "\<not> dead w \<Longrightarrow> send_active (ctx w) \<Longrightarrow>
    loop_step Z w (w\<lparr>ctx := sendCallback Z ((ctx w)\<lparr>send_active := False\<rparr>)\<rparr>)"
| loop_end: "\<not> dead w \<Longrightarrow> loop_exit (ctx w) \<Longrightarrow> loop_step Z w (w\<lparr>ctx := run_end (ctx w), dead := True\<rparr>)"

lemma ws_step_split:
  "ws_step Z w w' \<longleftrightarrow> loop_step Z w w' \<or>
     (\<exists>type on_event data. type \<in> {TEXT, BINARY} \<and> (on_event \<longrightarrow> \<not> dead w) \<and>
        w' = w\<lparr>ctx := snd (sendData Z on_event data type (ctx w))\<rparr>)"
proof
  assume "ws_step Z w w'"
  then show "loop_step Z w w' \<or> (\<exists>type on_event data. type \<in> {TEXT, BINARY} \<and> (on_event \<longrightarrow> \<not> dead w) \<and>
      w' = w\<lparr>ctx := snd (sendData Z on_event data type (ctx w))\<rparr>)"
  proof cases
    case (api_send type on_event data)
    then show ?thesis by blast
  qed (auto intro: loop_step.intros)
next
  assume "loop_step Z w w' \<or> (\<exists>type on_event data. type \<in> {TEXT, BINARY} \<and> (on_event \<longrightarrow> \<not> dead w) \<and>
      w' = w\<lparr>ctx := snd (sendData Z on_event data type (ctx w))\<rparr>)"
  then show "ws_step Z w w'"
  proof
    assume "loop_step Z w w'"
    then show ?thesis by cases (auto intro: ws_step.intros)
  qed (auto intro: ws_step.intros)
qed

lemma loop_step_ws: "loop_step Z w w' \<Longrightarrow> ws_step Z w w'"
  by (simp add: ws_step_split)

text \<open>The contract of the operations the event loop calls, and, with sending, of all of them.\<close>

locale loop_property =
  fixes Z :: "('d, 'i) ext" and P :: "'d ctx \<Rightarrow> bool"
  assumes by_stop: "P x \<Longrightarrow> P (ctx_stop x)"
    and by_event: "conn_ok is_open x \<Longrightarrow> P x \<Longrightarrow> ev_connected ev \<longrightarrow> \<not> upgraded x \<Longrightarrow> P (handleEvent ev x)"
    and by_timeout: "conn_ok is_open x \<Longrightarrow> P x \<Longrightarrow> P (timeoutCallback x)"
    and by_ping: "conn_ok is_open x \<Longrightarrow> P x \<Longrightarrow> P (pingCallback Z x)"
    and by_close_timer: "conn_ok is_open x \<Longrightarrow> P x \<Longrightarrow> P (closeTimerCb (x\<lparr>close_timer_armed := False\<rparr>))"
    and by_wakeup: "conn_ok is_open x \<Longrightarrow> P x \<Longrightarrow> wakeup_active x \<Longrightarrow> P (wakeupCallback Z (x\<lparr>wakeup_active := False\<rparr>))"
    and by_flush: "conn_ok is_open x \<Longrightarrow> P x \<Longrightarrow> send_active x \<Longrightarrow> P (sendCallback Z (x\<lparr>send_active := False\<rparr>))"
    and by_deliver: "rx_good x \<Longrightarrow> \<not> ctx_rxIsTerminating x \<Longrightarrow> P x \<Longrightarrow> P (emit (OnMessage m) x) \<and> P (emit (OnBinary m) x)"
    and by_rx_ping: "rx_good x \<Longrightarrow> \<not> ctx_rxIsTerminating x \<Longrightarrow> P x \<Longrightarrow> P (ctx_onRxPing Z raw x)"
    and by_rx_close: "rx_good x \<Longrightarrow> \<not> ctx_rxIsTerminating x \<Longrightarrow> P x \<Longrightarrow> P (ctx_onRxClose Z code reason x)"
    and by_rx_error: "rx_good x \<Longrightarrow> \<not> ctx_rxIsTerminating x \<Longrightarrow> P x \<Longrightarrow> P (ctx_onRxProtocolError code why x)"
    and by_refusing: "conn_ok False x \<Longrightarrow> P x \<Longrightarrow> P (ctx_refused x)"
    and by_negotiation: "P (ctx w) \<Longrightarrow> P (ctx (setupCompression Z resp w))"
    and by_opening: "conn_ok False x \<Longrightarrow> \<not> upgraded x \<Longrightarrow> P x \<Longrightarrow> P (ctx_opened Z x)"

locale connection_property = loop_property +
  assumes by_send: "conn_ok is_open x \<Longrightarrow> P x \<Longrightarrow> type \<noteq> CLOSE \<Longrightarrow> P (snd (sendData Z on_event raw type x))"

sublocale loop_property \<subseteq> endpoint: rx_endpoint "ctx_sinks Z" "\<lambda>x. rx_good x \<and> P x" rx_log
proof (unfold_locales, goal_cases)
  case (1 c p c' m)
  then have good: "rx_good c" "\<not> ctx_rxIsTerminating c" by (simp_all add: ctx_sinks_def)
  have "P c'" using 1(1,4) good by_deliver [OF good, of m] by_rx_ping [OF good, of p]
    by (auto simp: ctx_sinks_def ctx_onRxText_def ctx_onRxBinary_def)
  then show ?case using ctx_endpoint.goes_on [OF good(1), where Z = Z] 1 by auto
next
  case (2 c close_code c' code reason why)
  then have good: "rx_good c" "\<not> ctx_rxIsTerminating c" by (simp_all add: ctx_sinks_def)
  have "P c'" using 2(1,4) good by_rx_close [OF good] by_rx_error [OF good] by (auto simp: ctx_sinks_def)
  then show ?case using ctx_endpoint.stops [OF good(1), where Z = Z] 2 by auto
qed (auto simp: ctx_endpoint.log_text ctx_endpoint.log_binary ctx_endpoint.log_ping
    ctx_endpoint.log_close ctx_endpoint.log_error)

context loop_property
begin

lemma by_onData:
  assumes "rx_good (ctx w)" "P (ctx w)"
  shows "P (ctx (world_onData Z w))"
proof (cases "onData Z (ctx_sinks Z) (input w) (rx w) (ctx w)")
  case (Some res)
  obtain threw rest r x where "res = (threw, rest, r, x)" by (metis prod_cases4)
  then show ?thesis using Some endpoint.onData_good [OF Some [unfolded \<open>res = _\<close>]] assms
    by (simp add: world_onData_def)
qed (use assms in \<open>simp add: world_onData_def\<close>)

lemma by_read:
  assumes "conn_inv (ctx w)" "P (ctx w)"
  shows "P (ctx (handleRead Z w))"
proof (cases "upgraded (ctx w)")
  case True
  then show ?thesis using by_onData [of w] assms by (simp add: handleRead_def rx_good_def)
next
  case False
  define n where "n = headerBytes (input w)"
  define resp where "resp = take n (input w)"
  define w1 where "w1 = setupCompression Z resp w"
  define w2 where "w2 = w1\<lparr>ctx := ctx_opened Z (ctx w1), input := drop n (input w1)\<rparr>"
  have "conn_ok False (ctx w1)" "\<not> upgraded (ctx w1)"
    using setupCompression_ok [of False w Z resp] assms False by (simp_all add: w1_def)
  note open_now = flushSendQueue_ok [OF upgrade_ok [OF this], of Z] by_opening [OF this]
  have "P (ctx w2)" using open_now(5) by_negotiation [OF assms(2)] by (simp add: w2_def w1_def)
  moreover have "rx_good (ctx w2)"
    using open_ok [OF open_now(1)] open_now(2) by (simp add: w2_def ctx_opened_def Let_def)
  ultimately have "P (ctx w2)" "P (ctx (world_onData Z w2))" using by_onData by blast+
  moreover have "P (ctx_refused (ctx w))" using by_refusing [OF _ assms(2)] assms(1) False by simp
  moreover have "handleRead Z w =
      (if length (input w) < 4 \<or> n = 0 then w
       else if \<not> upgrade_accepted resp then w\<lparr>ctx := ctx_refused (ctx w), input := []\<rparr>
       else if input w2 \<noteq> [] then world_onData Z w2 else w2)"
    unfolding handleRead_def Let_def w2_def w1_def resp_def n_def ctx_opened_def ctx_refused_def using False by simp
  ultimately show ?thesis using assms(2) by simp
qed

lemma by_loop:
  assumes "world_ok w" "\<not> dead w \<longrightarrow> P (ctx w)" "loop_step Z w w'" "\<not> dead w'"
  shows "P (ctx w')"
  using assms(3)
proof cases
  case (loop_read bs)
  then show ?thesis using assms by_read [of "w\<lparr>input := input w @ bs\<rparr>"] by (simp add: world_ok_def)
next
  case (loop_event ev)
  then show ?thesis using assms by_event [of "upgraded (ctx w)" "ctx w" ev] by (simp add: world_ok_def)
qed (use assms by_stop by_timeout [of "upgraded (ctx w)" "ctx w"] by_ping [of "upgraded (ctx w)" "ctx w"]
    by_close_timer [of "upgraded (ctx w)" "ctx w"] by_wakeup [of "upgraded (ctx w)" "ctx w"]
    by_flush [of "upgraded (ctx w)" "ctx w"] in \<open>simp_all add: world_ok_def\<close>)

end

context connection_property
begin

lemma by_step:
  assumes "world_ok w" "\<not> dead w \<longrightarrow> P (ctx w)" "ws_step Z w w'" "\<not> dead w'"
  shows "P (ctx w')"
  using assms(3) unfolding ws_step_split
proof (elim disjE exE conjE)
  assume "loop_step Z w w'"
  then show ?thesis using by_loop assms by blast
next
  fix type on_event data
  assume "type \<in> {TEXT, BINARY}" "w' = w\<lparr>ctx := snd (sendData Z on_event data type (ctx w))\<rparr>"
  then show ?thesis using assms by_send [of "upgraded (ctx w)" "ctx w" type on_event data] by (auto simp: world_ok_def)
qed

text \<open>Where the property holds at the start it holds as long as the event thread runs.\<close>

lemma while_running:
  assumes "reachable init (ws_step Z) w" "\<And>w. init w \<Longrightarrow> ws_started w \<and> P (ctx w)" "\<not> dead w"
  shows "P (ctx w)"
proof -
  have "world_ok w \<and> (\<not> dead w \<longrightarrow> P (ctx w))"
    using assms(1)
  proof induction
    case (reachable_init w)
    then show ?case using assms(2) ws_started_ok by blast
  next
    case (reachable_step w w')
    then show ?case using by_step [of w w'] ws_step_ok [of w Z w'] by blast
  qed
  then show ?thesis using assms(3) by blast
qed

end

text \<open>Some properties survive the end of the event thread.\<close>

locale lasting_property = connection_property +
  assumes by_queueing: "P x \<Longrightarrow> P (snd (sendData Z False raw type x))"
    and by_end: "P x \<Longrightarrow> P (run_end x)"
begin

lemma always:
  assumes "reachable init (ws_step Z) w" "\<And>w. init w \<Longrightarrow> ws_started w \<and> P (ctx w)"
  shows "P (ctx w)"
proof -
  have "world_ok w \<and> P (ctx w)"
    using assms(1)
  proof induction
    case (reachable_init w)
    then show ?case using assms(2) ws_started_ok by blast
  next
    case (reachable_step w w')
    have "P (ctx w')"
    proof (cases "dead w'")
      case False
      then show ?thesis using by_step [of w w'] reachable_step by blast
    next
      case True
      from reachable_step(2) show ?thesis
      proof cases
        case (bytes_arrive bs)
        then show ?thesis using reachable_step(3) by_read [of "w\<lparr>input := input w @ bs\<rparr>"] by (simp add: world_ok_def)
      qed (use True reachable_step(3) by_queueing by_stop by_end in auto)
    qed
    then show ?case using reachable_step ws_step_ok [of w Z w'] by blast
  qed
  then show ?thesis by blast
qed

end

section \<open>The trace only grows\<close>

definition grows :: "ctx_event list \<Rightarrow> 'd ctx \<Rightarrow> bool" where
  "grows tr x \<longleftrightarrow> (\<exists>es. trace x = tr @ es)"

lemma grows_frame [simp]:
  "grows tr (x\<lparr>wakeup_active := b\<rparr>) = grows tr x" "grows tr (x\<lparr>stop_requested := b\<rparr>) = grows tr x"
  "grows tr (x\<lparr>send_active := b\<rparr>) = grows tr x" "grows tr (x\<lparr>send_flush_pending := b\<rparr>) = grows tr x"
  "grows tr (x\<lparr>use_compression := b\<rparr>) = grows tr x" "grows tr (x\<lparr>pmd := cfg\<rparr>) = grows tr x"
  "grows tr (x\<lparr>tx := t\<rparr>) = grows tr x" "grows tr (x\<lparr>upgraded := b\<rparr>) = grows tr x"
  "grows tr (x\<lparr>timeout_event := b\<rparr>) = grows tr x" "grows tr (x\<lparr>connection_state := st\<rparr>) = grows tr x"
  "grows tr (x\<lparr>close_sent := b\<rparr>) = grows tr x" "grows tr (x\<lparr>close_received := b\<rparr>) = grows tr x"
  "grows tr (x\<lparr>close_cb_fired := b\<rparr>) = grows tr x" "grows tr (x\<lparr>protocol_failed := b\<rparr>) = grows tr x"
  "grows tr (x\<lparr>close_timer := b\<rparr>) = grows tr x" "grows tr (x\<lparr>close_timer_armed := b\<rparr>) = grows tr x"
  "grows tr (x\<lparr>out_buf := out\<rparr>) = grows tr x" "grows tr (x\<lparr>send_queue := q\<rparr>) = grows tr x"
  "grows tr (requestWakeup x) = grows tr x" "grows tr (requestLoopExit on_event x) = grows tr x"
  "grows tr (requestSendFlush x) = grows tr x" "grows tr (armCloseTimer x) = grows tr x"
  "grows tr (snd (ctx_close on_event c reason x)) = grows tr x"
  by (simp_all add: grows_def armCloseTimer_def ctx_close_def Let_def)

lemma grows_more [simp]:
  assumes "grows tr x"
  shows "grows tr (emit e x)" "grows tr (ctx_send Z raw type x)" "grows tr (sendError code msg x)"
    "grows tr (sendCloseCallback c reason x)" "grows tr (snd (sendNow Z raw type x))"
    "grows tr (snd (sendData Z on_event raw type x))"
  using assms
  by (auto simp: grows_def emit_def sendError_def sendCloseCallback_def sendNow_def sendData_def enqueue_def Let_def)

lemma grows_flush [simp]:
  assumes "grows tr x"
  shows "grows tr (flushSendQueue Z x)"
proof -
  have "grows tr (flushPending Z can p y)" if "grows tr y" for can p and y :: "'a ctx"
  proof (cases p)
    case (PClose d)
    obtain b y1 where s: "sendNow Z d CLOSE y = (b, y1)" by fastforce
    then have "grows tr y1" using grows_more(5) [OF that, of Z d CLOSE] by simp
    then show ?thesis using PClose s that by (cases b) (simp_all add: flushPending_def)
  qed (use that in \<open>simp_all add: flushPending_def\<close>)
  then have "grows tr (fold (flushPending Z can) ps y)" if "grows tr y" for can ps and y :: "'a ctx"
    using that by (induction ps arbitrary: y) simp_all
  then show ?thesis using assms by (simp add: flushSendQueue_def Let_def)
qed

interpretation grow: lasting_property Z "grows tr"
proof (unfold_locales, goal_cases)
  case (2 is_open x ev)
  then show ?case by (simp add: handleEvent_def handleError_def handleTimeout_def handleEof_def handleConnected_def
      sendHandshakeRequest_def Let_def)
next
  case (13 w resp)
  then show ?case by (simp add: setupCompression_def Let_def split: option.split prod.split)
next
  case (17 x)
  then show ?case by (simp add: run_end_def cleanup_def grows_def)
qed (simp_all add: ctx_stop_def timeoutCallback_def pingCallback_def sendPing_def closeTimerCb_def wakeupCallback_def
    stopNow_def sendCallback_def ctx_onRxPing_def ctx_onRxClose_def ctx_onRxProtocolError_def ctx_refused_def
    ctx_opened_def Let_def)

end
