(* ===== verification/Wire.thy ===== *)
theory Wire
  imports Lifecycle Invariant
begin

text \<open>
  What is on the wire: in any run, the bytes a connection has written are the requests of the handshake
  followed by frames, and an RFC 6455 server reads from them exactly the frames the trace lists.
\<close>

section \<open>The reading of a server\<close>

lemma rfc_length_shorter: "rfc_length b rest = Some (n, rest1) \<Longrightarrow> length rest1 \<le> length rest"
  by (auto simp: rfc_length_def Let_def split: if_split_asm)

lemma rfc_client_frame_shorter: "rfc_client_frame bs = Some (f, rest) \<Longrightarrow> length rest < length bs"
  by (auto simp: rfc_client_frame_def split: list.split_asm option.split_asm if_split_asm dest!: rfc_length_shorter)

function server_frames :: "bytes \<Rightarrow> frame list option" where
  "server_frames bs =
     (if bs = [] then Some []
      else (case rfc_client_frame bs of None \<Rightarrow> None | Some (f, rest) \<Rightarrow> map_option ((#) f) (server_frames rest)))"
  by pat_completeness auto
termination by (relation "measure length") (auto dest: rfc_client_frame_shorter)

declare server_frames.simps [simp del]

text \<open>What the frame of a message looks like to a server whose inflater is \<open>whole peer\<close>.\<close>

definition frame_carries ::
    "('i \<Rightarrow> bytes \<Rightarrow> (bytes \<times> 'i) option) \<Rightarrow> 'i \<Rightarrow> frame \<Rightarrow> MessageType \<times> bytes \<Rightarrow> bool" where
  "frame_carries whole peer f m \<longleftrightarrow>
     frame_fin f \<and> frame_opcode f = rfc_opcode (fst m) \<and> snd (frame_rsv f) = (False, False) \<and>
     (if fst (frame_rsv f) then (\<exists>i'. whole peer (frame_payload f @ sync_trailer) = Some (snd m, i'))
      else frame_payload f = snd m)"

text \<open>The frames in a trace.\<close>

fun sent :: "ctx_event list \<Rightarrow> (MessageType \<times> bytes) list" where
  "sent [] = []"
| "sent (Sent type raw # es) = (type, raw) # sent es"
| "sent (e # es) = sent es"

lemma sent_append [simp]: "sent (es @ fs) = sent es @ sent fs"
  by (induction es rule: sent.induct) simp_all

lemma sent_pending: "sent (map pending_frame ps) =
    map (\<lambda>p. case p of PText d \<Rightarrow> (TEXT, d) | PBinary d \<Rightarrow> (BINARY, d) | PClose d \<Rightarrow> (CLOSE, d)) ps"
  by (induction ps) (auto simp: pending_frame_def split: Pending.split)

text \<open>Messages below 4 GB, for which the bounds of the deflater are representable.\<close>

definition sendable :: "('d, 'i) ext \<Rightarrow> (MessageType \<times> bytes) list \<Rightarrow> bool" where
  "sendable Z ms \<longleftrightarrow> (\<forall>m \<in> set ms. length (snd m) < 2 ^ 32 \<and> (\<forall>d. deflateBound Z d (length (snd m)) + 256 < 2 ^ 32))"

text \<open>Pieces of output, each a frame whatever follows it.\<close>

definition frame_bytes :: "bytes \<Rightarrow> frame \<Rightarrow> bool" where
  "frame_bytes out f \<longleftrightarrow> (\<forall>rest. rfc_client_frame (out @ rest) = Some (f, rest))"

lemma server_frames_concat:
  "list_all2 frame_bytes outs fs \<Longrightarrow> server_frames (concat outs) = Some fs"
proof (induction outs fs rule: list_all2_induct)
  case Nil
  show ?case by (simp add: server_frames.simps)
next
  case (Cons out outs f fs)
  then have f: "rfc_client_frame (out @ concat outs) = Some (f, concat outs)" by (simp add: frame_bytes_def)
  moreover have "out @ concat outs \<noteq> []"
    using rfc_client_frame_shorter [OF f] by (metis less_nat_zero_code list.size(3))
  ultimately show ?case using Cons.IH by (subst server_frames.simps) simp
qed

section \<open>The invariant\<close>

definition on_wire :: "('d, 'i) ext \<Rightarrow> ('i \<Rightarrow> bytes \<Rightarrow> (bytes \<times> 'i) option) \<Rightarrow> 'i \<Rightarrow> 'd ctx \<Rightarrow> bool" where
  "on_wire Z whole peer x \<longleftrightarrow> (sendable Z (sent (trace x)) \<longrightarrow>
     (\<exists>k outs fs. out_buf x = concat (replicate k (handshakeRequest (config x) (ws_key x))) @ concat outs \<and>
        list_all2 frame_bytes outs fs \<and> list_all2 (frame_carries whole peer) fs (sent (trace x)) \<and>
        (outs \<noteq> [] \<longrightarrow> upgraded x)))"

lemma on_wire_cong:
  assumes "on_wire Z whole peer x" "out_buf y = out_buf x" "config y = config x" "ws_key y = ws_key x"
    "sent (trace y) = sent (trace x)" "upgraded x \<longrightarrow> upgraded y"
  shows "on_wire Z whole peer y"
proof -
  have "\<exists>k outs fs. out_buf y = concat (replicate k (handshakeRequest (config y) (ws_key y))) @ concat outs \<and>
        list_all2 frame_bytes outs fs \<and> list_all2 (frame_carries whole peer) fs (sent (trace y)) \<and>
        (outs \<noteq> [] \<longrightarrow> upgraded y)" if "sendable Z (sent (trace y))"
    using assms(1) that assms(6) unfolding on_wire_def assms(2-5) by blast
  then show ?thesis by (simp add: on_wire_def)
qed

text \<open>Writing a frame.\<close>

lemma on_wire_send:
  assumes doc: "deflate_doc Z whole peer" and "on_wire Z whole peer x" "upgraded x"
  shows "on_wire Z whole peer (ctx_send Z raw type x)"
proof (cases "is_control_frame type \<and> length raw > 125")
  case True
  then have "ctx_send Z raw type x = x" by (simp add: ctx_send_def ws_send_def)
  then show ?thesis using assms(2) by simp
next
  case False
  obtain out t s where out: "ws_send Z (use_compression x) raw type (tx x, mask_state x) = (out, t, s)" by (metis prod_cases3)
  then have "out \<noteq> []" using ws_send_empty [of Z "use_compression x" raw type "(tx x, mask_state x)"] False by auto
  define y where "y = ctx_send Z raw type x"
  have y: "out_buf y = out_buf x @ out" "config y = config x" "ws_key y = ws_key x" "upgraded y = upgraded x"
    "sent (trace y) = sent (trace x) @ [(type, raw)]"
    using out \<open>out \<noteq> []\<close> by (simp_all add: y_def ctx_send_def emit_def)
  have "\<exists>k outs fs. out_buf y = concat (replicate k (handshakeRequest (config y) (ws_key y))) @ concat outs \<and>
        list_all2 frame_bytes outs fs \<and> list_all2 (frame_carries whole peer) fs (sent (trace y)) \<and>
        (outs \<noteq> [] \<longrightarrow> upgraded y)" if ok: "sendable Z (sent (trace y))"
  proof -
    have "sendable Z (sent (trace x))" "length raw < 2 ^ 32" "\<And>d. deflateBound Z d (length raw) + 256 < 2 ^ 32"
      using ok by (auto simp: y(5) sendable_def)
    moreover obtain k outs fs where "out_buf x = concat (replicate k (handshakeRequest (config x) (ws_key x))) @ concat outs"
      "list_all2 frame_bytes outs fs" "list_all2 (frame_carries whole peer) fs (sent (trace x))"
      using assms(2) calculation(1) unfolding on_wire_def by blast
    moreover obtain f where "frame_bytes out f" "frame_carries whole peer f (type, raw)"
      using ws_send_frame [OF doc calculation(2,3) out False] by (auto simp: frame_bytes_def frame_carries_def split: if_split_asm)
    ultimately show ?thesis using assms(3) unfolding y
      by (intro exI [of _ k] exI [of _ "outs @ [out]"] exI [of _ "fs @ [f]"])
        (auto intro!: list_all2_appendI)
  qed
  then show ?thesis by (simp add: on_wire_def y_def)
qed

text \<open>Writing the request.\<close>

lemma on_wire_request:
  assumes "on_wire Z whole peer x" "\<not> upgraded x"
  shows "on_wire Z whole peer (sendHandshakeRequest x)"
proof (cases "bev x")
  case True
  define y where "y = sendHandshakeRequest x"
  have y: "out_buf y = out_buf x @ handshakeRequest (config x) (ws_key x)" "config y = config x" "ws_key y = ws_key x"
    "upgraded y = upgraded x" "trace y = trace x"
    using True by (simp_all add: y_def sendHandshakeRequest_def)
  have "\<exists>k outs fs. out_buf y = concat (replicate k (handshakeRequest (config y) (ws_key y))) @ concat outs \<and>
        list_all2 frame_bytes outs fs \<and> list_all2 (frame_carries whole peer) fs (sent (trace y)) \<and>
        (outs \<noteq> [] \<longrightarrow> upgraded y)" if ok: "sendable Z (sent (trace y))"
  proof -
    obtain k outs fs where *: "out_buf x = concat (replicate k (handshakeRequest (config x) (ws_key x))) @ concat outs"
      "list_all2 frame_bytes outs fs" "list_all2 (frame_carries whole peer) fs (sent (trace x))" "outs \<noteq> [] \<longrightarrow> upgraded x"
      using assms(1) ok unfolding on_wire_def y by blast
    have "concat (replicate (Suc k) r) = concat (replicate k r) @ r" for r :: bytes
      by (induction k) simp_all
    then show ?thesis using * assms(2) unfolding y
      by (intro exI [of _ "Suc k"] exI [of _ outs] exI [of _ fs]) simp
  qed
  then show ?thesis by (simp add: on_wire_def y_def)
qed (use assms in \<open>simp add: sendHandshakeRequest_def\<close>)

text \<open>Changes to other fields, and events that are no frames.\<close>

lemma on_wire_frame [simp]:
  "on_wire Z whole peer (x\<lparr>wakeup_active := b\<rparr>) = on_wire Z whole peer x"
  "on_wire Z whole peer (x\<lparr>send_active := b\<rparr>) = on_wire Z whole peer x"
  "on_wire Z whole peer (x\<lparr>send_flush_pending := b\<rparr>) = on_wire Z whole peer x"
  "on_wire Z whole peer (x\<lparr>stop_requested := b\<rparr>) = on_wire Z whole peer x"
  "on_wire Z whole peer (x\<lparr>loop_exit := b\<rparr>) = on_wire Z whole peer x"
  "on_wire Z whole peer (x\<lparr>use_compression := b\<rparr>) = on_wire Z whole peer x"
  "on_wire Z whole peer (x\<lparr>pmd := cfg\<rparr>) = on_wire Z whole peer x"
  "on_wire Z whole peer (x\<lparr>tx := t\<rparr>) = on_wire Z whole peer x"
  "on_wire Z whole peer (x\<lparr>timeout_event := b\<rparr>) = on_wire Z whole peer x"
  "on_wire Z whole peer (x\<lparr>connection_state := st\<rparr>) = on_wire Z whole peer x"
  "on_wire Z whole peer (x\<lparr>send_queue := q\<rparr>) = on_wire Z whole peer x"
  "on_wire Z whole peer (x\<lparr>close_sent := b\<rparr>) = on_wire Z whole peer x"
  "on_wire Z whole peer (x\<lparr>close_received := b\<rparr>) = on_wire Z whole peer x"
  "on_wire Z whole peer (x\<lparr>close_cb_fired := b\<rparr>) = on_wire Z whole peer x"
  "on_wire Z whole peer (x\<lparr>protocol_failed := b\<rparr>) = on_wire Z whole peer x"
  "on_wire Z whole peer (x\<lparr>close_timer := b\<rparr>) = on_wire Z whole peer x"
  "on_wire Z whole peer (x\<lparr>close_timer_armed := b\<rparr>) = on_wire Z whole peer x"
  "on_wire Z whole peer (x\<lparr>running := b\<rparr>) = on_wire Z whole peer x"
  "on_wire Z whole peer (x\<lparr>ping_event := b\<rparr>) = on_wire Z whole peer x"
  "on_wire Z whole peer (x\<lparr>bev := b\<rparr>) = on_wire Z whole peer x"
  "on_wire Z whole peer (x\<lparr>dns_base := b\<rparr>) = on_wire Z whole peer x"
  "on_wire Z whole peer (x\<lparr>wakeup_event := b\<rparr>) = on_wire Z whole peer x"
  "on_wire Z whole peer (x\<lparr>send_event := b\<rparr>) = on_wire Z whole peer x"
  "on_wire Z whole peer (x\<lparr>base := b\<rparr>) = on_wire Z whole peer x"
  by (simp_all add: on_wire_def)

lemma on_wire_upgrade: "on_wire Z whole peer x \<Longrightarrow> on_wire Z whole peer (x\<lparr>upgraded := True\<rparr>)"
  by (rule on_wire_cong) simp_all

lemma on_wire_emit [simp]: "sent [e] = [] \<Longrightarrow> on_wire Z whole peer (emit e x) = on_wire Z whole peer x"
  by (simp add: on_wire_def emit_def)

lemma on_wire_requests [simp]:
  "on_wire Z whole peer (requestWakeup x) = on_wire Z whole peer x"
  "on_wire Z whole peer (requestLoopExit on_event x) = on_wire Z whole peer x"
  "on_wire Z whole peer (requestSendFlush x) = on_wire Z whole peer x"
  "on_wire Z whole peer (armCloseTimer x) = on_wire Z whole peer x"
  "on_wire Z whole peer (sendError code msg x) = on_wire Z whole peer x"
  "on_wire Z whole peer (sendCloseCallback c reason x) = on_wire Z whole peer x"
  "on_wire Z whole peer (snd (ctx_close on_event c reason x)) = on_wire Z whole peer x"
  by (simp_all add: requestWakeup_def requestLoopExit_def requestSendFlush_def armCloseTimer_def sendError_def
      sendCloseCallback_def ctx_close_def Let_def)

section \<open>Every operation keeps it\<close>

lemma sendNow_wire:
  assumes "deflate_doc Z whole peer" "on_wire Z whole peer x" "type = CLOSE \<longrightarrow> upgraded x"
  shows "on_wire Z whole peer (snd (sendNow Z raw type x))" "upgraded (snd (sendNow Z raw type x)) = upgraded x"
  using assms on_wire_send [OF assms(1,2), of raw type] by (auto simp: sendNow_def)

lemma sendData_wire:
  assumes "deflate_doc Z whole peer" "on_wire Z whole peer x"
  shows "on_wire Z whole peer (snd (sendData Z on_event raw type x))"
  using assms sendNow_wire(1) [OF assms, of type raw] by (auto simp: sendData_def enqueue_def split: prod.split bool.split)

lemma flushPending_wire:
  assumes "deflate_doc Z whole peer" "on_wire Z whole peer x" "pending_ok x p"
  shows "on_wire Z whole peer (flushPending Z can p x)"
proof (cases p)
  case (PClose d)
  then have "upgraded x" using assms(3) by (simp add: pending_ok_def)
  then have "on_wire Z whole peer (snd (sendNow Z d CLOSE x))" using sendNow_wire(1) [OF assms(1,2)] by simp
  then show ?thesis using PClose assms(2) by (auto simp: flushPending_def split: prod.split bool.split)
qed (use assms sendNow_wire(1) [OF assms(1,2)] in \<open>simp_all add: flushPending_def\<close>)

lemma flush_fold_wire:
  assumes doc: "deflate_doc Z whole peer" and "on_wire Z whole peer x" "conn_ok is_open x" "\<And>p. p \<in> set ps \<Longrightarrow> pending_ok x p"
  shows "on_wire Z whole peer (fold (flushPending Z can) ps x)"
  using assms(2-4)
proof (induction ps arbitrary: x)
  case (Cons p ps)
  note one = flushPending_ok [OF Cons.prems(2) Cons.prems(3) refl, of p Z can]
  have "pending_ok (flushPending Z can p x) q" if "q \<in> set ps" for q
    using Cons.prems(3) [of q] that one by (simp add: pending_ok_def closing_def)
  then show ?case
    using Cons.IH [of "flushPending Z can p x"] one flushPending_wire [OF doc Cons.prems(1), of p can] Cons.prems(3) [of p] by simp
qed simp

lemma flushSendQueue_wire:
  assumes "deflate_doc Z whole peer" "on_wire Z whole peer x" "conn_ok is_open x"
  shows "on_wire Z whole peer (flushSendQueue Z x)"
proof -
  let ?x = "x\<lparr>send_queue := []\<rparr>"
  have "conn_ok is_open ?x" using assms(3) by simp
  moreover have "pending_ok ?x p" if "p \<in> set (send_queue x)" for p
    using assms(3) that by (cases p) (simp_all add: pending_ok_def conn_ok_def queue_ok_def closing_def)
  ultimately show ?thesis
    using flush_fold_wire [OF assms(1), of ?x is_open "send_queue x"] assms(2) by (simp add: flushSendQueue_def Let_def)
qed

lemma stopNow_wire: "on_wire Z whole peer x \<Longrightarrow> on_wire Z whole peer (stopNow x)"
  by (simp add: stopNow_def Let_def)

lemma handleEvent_wire:
  assumes "on_wire Z whole peer x" "ev_connected ev \<longrightarrow> \<not> upgraded x"
  shows "on_wire Z whole peer (handleEvent ev x)"
proof -
  have "on_wire Z whole peer (handleError ev x)" "on_wire Z whole peer (handleTimeout x)" "on_wire Z whole peer (handleEof x)"
    using assms(1) by (simp_all add: handleError_def handleTimeout_def handleEof_def Let_def)
  moreover have "on_wire Z whole peer (handleConnected ev x)" if "\<not> upgraded x"
    using assms(1) on_wire_request [OF assms(1) that] by (simp add: handleConnected_def)
  ultimately show ?thesis using assms by (auto simp: handleEvent_def Let_def)
qed

lemma onRxClose_wire:
  assumes "deflate_doc Z whole peer" "on_wire Z whole peer x" "rx_good x" "\<not> ctx_rxIsTerminating x"
  shows "on_wire Z whole peer (ctx_onRxClose Z code reason x)"
proof -
  have ok: "conn_ok True x" using assms(3) by (simp add: rx_good_def)
  obtain b y where y: "ctx_close True (uint code) reason x = (b, y)" by fastforce
  define y1 where "y1 = y\<lparr>close_received := True\<rparr>"
  have "conn_ok True y1" using ctx_close_ok [OF ok y] rx_good_live [OF assms(3,4)]
    by (simp add: y1_def conn_defs)
  moreover have "on_wire Z whole peer y1"
    using on_wire_requests(7) [of Z whole peer True "uint code" reason x] y assms(2) by (simp add: y1_def)
  ultimately have "on_wire Z whole peer (flushSendQueue Z y1)" by (intro flushSendQueue_wire [OF assms(1)])
  then show ?thesis
    using rx_good_live [OF assms(3,4)] y by (simp add: ctx_onRxClose_def Let_def ctx_close_received y1_def)
qed

lemma onRxProtocolError_wire:
  "on_wire Z whole peer x \<Longrightarrow> on_wire Z whole peer (ctx_onRxProtocolError code why x)"
  by (simp add: ctx_onRxProtocolError_def Let_def)

lemma setupCompression_wire:
  "on_wire Z whole peer (ctx w) \<Longrightarrow> on_wire Z whole peer (ctx (setupCompression Z resp w))"
  by (simp add: setupCompression_def Let_def split: option.split prod.split)

lemma opened_wire:
  assumes doc: "deflate_doc Z whole peer" and "on_wire Z whole peer x" "conn_ok False x" "\<not> upgraded x"
  shows "on_wire Z whole peer (ctx_opened Z x)"
proof -
  have "on_wire Z whole peer (x\<lparr>upgraded := True, connection_state := CONNECTED\<rparr>)"
    using on_wire_upgrade [OF assms(2)] by simp
  from flushSendQueue_wire [OF doc this upgrade_ok [OF assms(3,4)]] show ?thesis
    by (simp add: ctx_opened_def Let_def)
qed

text \<open>The bytes written are a property of the connection that lasts.\<close>

definition wired :: "('d, 'i) ext \<Rightarrow> ('i \<Rightarrow> bytes \<Rightarrow> (bytes \<times> 'i) option) \<Rightarrow> 'i \<Rightarrow> 'd ctx \<Rightarrow> bool" where
  "wired Z whole peer x \<longleftrightarrow> (deflate_doc Z whole peer \<longrightarrow> on_wire Z whole peer x)"

interpretation wire: lasting_property Z "wired Z whole peer"
proof (unfold_locales, goal_cases)
  case (15 is_open x type on_event raw)
  then show ?case by (simp add: wired_def sendData_wire)
next
  case (2 is_open x ev)
  then show ?case by (simp add: wired_def handleEvent_wire)
next
  case (4 is_open x)
  then show ?case by (simp add: wired_def pingCallback_def sendPing_def sendNow_wire(1))
next
  case (6 is_open x)
  then show ?case using flushSendQueue_wire [of Z whole peer "x\<lparr>wakeup_active := False\<rparr>" is_open]
      stopNow_wire [of Z whole peer "x\<lparr>wakeup_active := False\<rparr>"]
    by (simp add: wired_def wakeupCallback_def)
next
  case (7 is_open x)
  then show ?case using flushSendQueue_wire [of Z whole peer "x\<lparr>send_active := False\<rparr>" is_open]
    by (simp add: wired_def sendCallback_def)
next
  case (9 x raw)
  then show ?case using rx_good_live(8) [OF 9(1,2)] by (simp add: wired_def ctx_onRxPing_def on_wire_send)
next
  case (10 x code reason)
  then show ?case by (simp add: wired_def onRxClose_wire)
next
  case (11 x code why)
  then show ?case by (simp add: wired_def onRxProtocolError_wire)
next
  case (13 w resp)
  then show ?case by (simp add: wired_def setupCompression_wire)
next
  case (14 x)
  then show ?case by (simp add: wired_def opened_wire)
next
  case (16 x raw type)
  then show ?case by (simp add: wired_def sendData_wire)
qed (simp_all add: wired_def ctx_stop_def timeoutCallback_def closeTimerCb_def ctx_refused_def run_end_def cleanup_def)

lemma ws_started_wired:
  assumes "ws_started w"
  shows "wired Z whole peer (ctx w)"
proof -
  have "trace (ctx w) = []" "out_buf (ctx w) = []" using assms by (simp_all add: ws_started_def)
  then have "on_wire Z whole peer (ctx w)" unfolding on_wire_def
    by (intro impI exI [of _ 0] exI [of _ "[]"]) simp
  then show ?thesis by (simp add: wired_def)
qed

section \<open>Properties\<close>

text \<open>C5: in every run, what the connection has written is its handshake request (once for each time the
  transport was connected) followed by bytes from which an RFC 6455 server reads exactly the frames the
  trace records, in order, each one unfragmented, with the opcode of its message and, after unmasking and
  inflating where it says so, with its payload; no partial frame is ever on the wire.\<close>

theorem wire_carries_trace:
  assumes "deflate_doc Z whole peer" "reachable ws_started (ws_step Z) w" "sendable Z (sent (trace (ctx w)))"
  shows "\<exists>k frames fs. out_buf (ctx w) =
      concat (replicate k (handshakeRequest (config (ctx w)) (ws_key (ctx w)))) @ frames \<and>
    server_frames frames = Some fs \<and> list_all2 (frame_carries whole peer) fs (sent (trace (ctx w)))"
proof -
  have "wired Z whole peer (ctx w)" by (rule wire.always [OF assms(2)]) (simp add: ws_started_wired)
  then have "on_wire Z whole peer (ctx w)" using assms(1) by (simp add: wired_def)
  then obtain k outs fs where "out_buf (ctx w) = concat (replicate k (handshakeRequest (config (ctx w)) (ws_key (ctx w)))) @ concat outs"
    "list_all2 frame_bytes outs fs" "list_all2 (frame_carries whole peer) fs (sent (trace (ctx w)))"
    using assms(3) unfolding on_wire_def by blast
  then show ?thesis using server_frames_concat by blast
qed

theorem wire_carries_trace_witness:
  "\<exists>k frames f. out_buf (ctx demo_closed) =
      concat (replicate k (handshakeRequest (config (ctx demo_closed)) (ws_key (ctx demo_closed)))) @ frames \<and>
    server_frames frames = Some [f] \<and> frame_opcode f = 8 \<and>
    (fst (frame_rsv f) \<or> frame_payload f = [0x03, 0xE8])"
proof -
  have trace: "sent (trace (ctx demo_closed)) = [(CLOSE, [0x03, 0xE8])]" by (simp add: demo_closed_trace)
  then have "sendable stored_ext (sent (trace (ctx demo_closed)))" by (simp add: sendable_def stored_ext_def)
  from wire_carries_trace [OF stored_deflate_doc demo_closed_reachable this] show ?thesis
    unfolding trace by (auto simp: list_all2_Cons2 frame_carries_def split: if_split_asm)
qed

end
