(* ===== verification/Flush.thy ===== *)
theory Flush
  imports Lifecycle Invariant
begin

text \<open>
  The hand-over of queued messages to the event thread: \<open>requestSendFlush\<close> activates an event whose
  callback flushes the queue. As long as each call is one step, a queued message always has a flush
  scheduled. Between the steps of \<open>sendCallback\<close> itself the request of another thread can be lost.
\<close>

section \<open>Calls as single steps\<close>

definition scheduled :: "'d ctx \<Rightarrow> bool" where
  "scheduled x \<longleftrightarrow> send_event x \<and> (send_flush_pending x \<longrightarrow> send_active x) \<and>
     (upgraded x \<and> send_queue x \<noteq> [] \<longrightarrow> send_flush_pending x)"

lemma ctx_send_flags [simp]:
  "send_event (ctx_send Z raw type x) = send_event x" "send_active (ctx_send Z raw type x) = send_active x"
  "send_flush_pending (ctx_send Z raw type x) = send_flush_pending x"
  by (rule ctx_send_shape [of Z raw type x]; simp)+

lemma flushPending_flags:
  "send_event (flushPending Z can p x) = send_event x \<and> send_active (flushPending Z can p x) = send_active x \<and>
   send_flush_pending (flushPending Z can p x) = send_flush_pending x \<and> send_queue (flushPending Z can p x) = send_queue x"
  by (cases p) (simp_all add: flushPending_def sendNow_def armCloseTimer_def)

lemma flush_flags [simp]:
  "send_event (flushSendQueue Z x) = send_event x" "send_active (flushSendQueue Z x) = send_active x"
  "send_flush_pending (flushSendQueue Z x) = send_flush_pending x" "send_queue (flushSendQueue Z x) = []"
proof -
  have "send_event (fold (flushPending Z can) ps x) = send_event x \<and>
    send_active (fold (flushPending Z can) ps x) = send_active x \<and>
    send_flush_pending (fold (flushPending Z can) ps x) = send_flush_pending x \<and>
    send_queue (fold (flushPending Z can) ps x) = send_queue x" for can ps and x :: "'a ctx"
    by (induction ps arbitrary: x) (simp_all add: flushPending_flags)
  then show "send_event (flushSendQueue Z x) = send_event x" "send_active (flushSendQueue Z x) = send_active x"
    "send_flush_pending (flushSendQueue Z x) = send_flush_pending x" "send_queue (flushSendQueue Z x) = []"
    by (simp_all add: flushSendQueue_def Let_def)
qed

lemma flushed_scheduled:
  "send_event x \<Longrightarrow> send_flush_pending x \<longrightarrow> send_active x \<Longrightarrow> scheduled (flushSendQueue Z x)"
  by (simp add: scheduled_def)

lemma scheduled_frame [simp]:
  "scheduled (x\<lparr>wakeup_active := b\<rparr>) = scheduled x" "scheduled (x\<lparr>stop_requested := b\<rparr>) = scheduled x"
  "scheduled (x\<lparr>loop_exit := b\<rparr>) = scheduled x" "scheduled (x\<lparr>use_compression := b\<rparr>) = scheduled x"
  "scheduled (x\<lparr>pmd := cfg\<rparr>) = scheduled x" "scheduled (x\<lparr>tx := t\<rparr>) = scheduled x"
  "scheduled (x\<lparr>timeout_event := b\<rparr>) = scheduled x" "scheduled (x\<lparr>connection_state := st\<rparr>) = scheduled x"
  "scheduled (x\<lparr>close_sent := b\<rparr>) = scheduled x" "scheduled (x\<lparr>close_received := b\<rparr>) = scheduled x"
  "scheduled (x\<lparr>close_cb_fired := b\<rparr>) = scheduled x" "scheduled (x\<lparr>protocol_failed := b\<rparr>) = scheduled x"
  "scheduled (x\<lparr>close_timer := b\<rparr>) = scheduled x" "scheduled (x\<lparr>close_timer_armed := b\<rparr>) = scheduled x"
  "scheduled (x\<lparr>out_buf := out\<rparr>) = scheduled x"
  "scheduled (emit e x) = scheduled x" "scheduled (ctx_send Z raw type x) = scheduled x"
  by (simp_all add: scheduled_def emit_def)

lemma scheduled_requests [simp]:
  "scheduled (requestWakeup x) = scheduled x" "scheduled (requestLoopExit on_event x) = scheduled x"
  "scheduled (sendError code msg x) = scheduled x" "scheduled (sendCloseCallback c reason x) = scheduled x"
  by (simp_all add: requestWakeup_def requestLoopExit_def sendError_def sendCloseCallback_def Let_def)

lemma requested_scheduled:
  "send_event x \<Longrightarrow> send_flush_pending x \<longrightarrow> send_active x \<Longrightarrow> scheduled (requestSendFlush x)"
  by (simp add: scheduled_def requestSendFlush_def)

lemma scheduled_enqueue:
  assumes "scheduled x"
  shows "scheduled (requestSendFlush (x\<lparr>send_queue := q\<rparr>))"
  using assms by (intro requested_scheduled) (simp_all add: scheduled_def)

lemma scheduled_clear: "scheduled x \<Longrightarrow> scheduled (x\<lparr>send_queue := []\<rparr>)"
  by (simp add: scheduled_def)

lemma sendData_scheduled:
  assumes "conn_ok is_open x" "scheduled x"
  shows "scheduled (snd (sendData Z on_event raw type x))"
proof -
  have "\<not> upgraded x" if "connection_state x = CONNECTING" using assms(1) that by (auto simp: conn_defs)
  then have "scheduled (snd (enqueue raw type x))" if "connection_state x = CONNECTING"
    using assms(2) that by (simp add: enqueue_def scheduled_def)
  moreover have "scheduled (snd (sendNow Z raw type x))" using assms(2) by (simp add: sendNow_def)
  ultimately show ?thesis using assms(2) scheduled_enqueue [OF assms(2)]
    by (simp add: sendData_def enqueue_def)
qed

lemma ctx_close_scheduled:
  assumes "scheduled x"
  shows "scheduled (snd (ctx_close on_event code reason x))"
  using assms scheduled_enqueue [of "x\<lparr>connection_state := DISCONNECTING\<rparr>"] by (simp add: ctx_close_def Let_def)

lemma stopNow_scheduled: "scheduled x \<Longrightarrow> scheduled (stopNow x)"
  by (simp add: stopNow_def Let_def ctx_close_scheduled)

lemma handleEvent_scheduled:
  assumes "scheduled x"
  shows "scheduled (handleEvent ev x)"
proof -
  have "scheduled (handleError ev x)" "scheduled (handleTimeout x)" "scheduled (handleEof x)" "scheduled (handleConnected ev x)"
    using assms scheduled_clear [of "sendError c m x" for c m]
    by (simp_all add: handleError_def handleTimeout_def handleEof_def handleConnected_def sendHandshakeRequest_def Let_def)
  then show ?thesis using assms by (simp add: handleEvent_def Let_def)
qed

lemma onRxClose_scheduled:
  assumes "rx_good x" "\<not> ctx_rxIsTerminating x" "scheduled x"
  shows "scheduled (ctx_onRxClose Z code reason x)"
proof -
  obtain b y where y: "ctx_close True (uint code) reason x = (b, y)" by fastforce
  define y1 where "y1 = y\<lparr>close_received := True\<rparr>"
  have "scheduled y1" using ctx_close_scheduled [OF assms(3), of True "uint code" reason] y by (simp add: y1_def)
  then have "scheduled (flushSendQueue Z y1)" by (intro flushed_scheduled) (simp_all add: scheduled_def)
  then show ?thesis
    using rx_good_live [OF assms(1,2)] y by (simp add: ctx_onRxClose_def Let_def ctx_close_received y1_def)
qed

lemma onRxProtocolError_scheduled:
  assumes "scheduled x"
  shows "scheduled (ctx_onRxProtocolError code why x)"
proof -
  have "scheduled (requestSendFlush y)" if "scheduled y" for y :: "'a ctx"
    using that by (intro requested_scheduled) (simp_all add: scheduled_def)
  then show ?thesis using assms by (simp add: ctx_onRxProtocolError_def Let_def ctx_close_scheduled)
qed

interpretation flush: connection_property Z scheduled
proof (unfold_locales, goal_cases)
  case (15 is_open x type on_event raw)
  then show ?case by (simp add: sendData_scheduled)
next
  case (2 is_open x ev)
  then show ?case by (simp add: handleEvent_scheduled)
next
  case (4 is_open x)
  then show ?case by (simp add: pingCallback_def sendPing_def sendNow_def)
next
  case (6 is_open x)
  have "scheduled (flushSendQueue Z (x\<lparr>wakeup_active := False\<rparr>))"
    using 6 by (intro flushed_scheduled) (simp_all add: scheduled_def)
  then show ?case using 6 by (simp add: wakeupCallback_def stopNow_scheduled)
next
  case (7 is_open x)
  then have "base x" by (simp add: conn_ok_def)
  then show ?case using 7 by (simp add: sendCallback_def scheduled_def)
next
  case (9 x raw)
  then show ?case by (simp add: ctx_onRxPing_def)
next
  case (10 x code reason)
  then show ?case by (simp add: onRxClose_scheduled)
next
  case (11 x code why)
  then show ?case by (simp add: onRxProtocolError_scheduled)
next
  case (13 w resp)
  then show ?case by (simp add: setupCompression_def Let_def split: option.split prod.split)
next
  case (14 x)
  have "scheduled (flushSendQueue Z (x\<lparr>upgraded := True, connection_state := CONNECTED\<rparr>))"
    using 14(3) by (intro flushed_scheduled) (simp_all add: scheduled_def)
  then show ?case by (simp add: ctx_opened_def Let_def)
qed (simp_all add: ctx_stop_def timeoutCallback_def closeTimerCb_def ctx_refused_def)

section \<open>Calls in their steps\<close>

text \<open>The places where two threads meet: another thread first enqueues and then requests a flush, the event
  thread first flushes and then clears the flag. \<open>in_flush\<close> says that it is between the two, \<open>requests\<close> counts
  the threads that have enqueued and not yet requested.\<close>

record 'd race =
  shared :: "'d ctx"
  in_flush :: bool
  requests :: nat

inductive race_step :: "('d, 'i) ext \<Rightarrow> 'd race \<Rightarrow> 'd race \<Rightarrow> bool" for Z where
  race_enqueue: "type \<in> {TEXT, BINARY} \<Longrightarrow> connection_state (shared r) = CONNECTED \<Longrightarrow>
    enqueue data type (shared r) = (True, x) \<Longrightarrow> race_step Z r (r\<lparr>shared := x, requests := requests r + 1\<rparr>)"
| race_request: "requests r > 0 \<Longrightarrow>
    race_step Z r (r\<lparr>shared := requestSendFlush (shared r), requests := requests r - 1\<rparr>)"
| race_flush: "\<not> in_flush r \<Longrightarrow> send_active (shared r) \<Longrightarrow> base (shared r) \<Longrightarrow>
    race_step Z r (r\<lparr>shared := flushSendQueue Z ((shared r)\<lparr>send_active := False\<rparr>), in_flush := True\<rparr>)"
| race_clear: "in_flush r \<Longrightarrow>
    race_step Z r (r\<lparr>shared := (shared r)\<lparr>send_flush_pending := False\<rparr>, in_flush := False\<rparr>)"

inductive_cases race_stepE: "race_step Z r r'"

text \<open>The steps put together are the calls.\<close>

lemma race_sendData:
  assumes "connection_state x = CONNECTED" "type \<in> {TEXT, BINARY}" "enqueue data type x = (True, y)"
  shows "snd (sendData Z False data type x) = requestSendFlush y"
  using assms by (auto simp: sendData_def)

lemma race_sendCallback:
  "base x \<Longrightarrow> sendCallback Z (x\<lparr>send_active := False\<rparr>) = (flushSendQueue Z (x\<lparr>send_active := False\<rparr>))\<lparr>send_flush_pending := False\<rparr>"
  by (simp add: sendCallback_def)

section \<open>Properties\<close>

text \<open>C12: when calls do not overlap, no queued message is forgotten: in every state of every run with an open
  or closing connection and a message in the queue, the send event is active, and its callback empties the queue.\<close>

theorem queued_is_scheduled:
  assumes "reachable ws_started (ws_step Z) w" "\<not> dead w" "upgraded (ctx w)" "send_queue (ctx w) \<noteq> []"
  shows "send_active (ctx w) \<and>
    ws_step Z w (w\<lparr>ctx := sendCallback Z ((ctx w)\<lparr>send_active := False\<rparr>)\<rparr>) \<and>
    send_queue (sendCallback Z ((ctx w)\<lparr>send_active := False\<rparr>)) = []"
proof -
  have "scheduled (ctx w)"
    by (rule flush.while_running [OF assms(1) _ assms(2)]) (simp add: ws_started_def scheduled_def)
  then have active: "send_active (ctx w)" using assms(3,4) by (simp add: scheduled_def)
  have "conn_inv (ctx w)" using ws.always [OF assms(1)] assms(2) by (simp add: world_ok_def)
  then have "base (ctx w)" by (simp add: conn_ok_def)
  then show ?thesis using active send_runs [OF assms(2), of Z] by (simp add: sendCallback_def)
qed

text \<open>A connection on which the user has just sent a text.\<close>

definition demo_sending :: "(unit, unit) world" where
  "demo_sending = demo_open\<lparr>ctx := snd (sendData stored_ext False [0x61] TEXT (ctx demo_open))\<rparr>"

lemma demo_sending: "reachable ws_started (ws_step stored_ext) demo_sending" "\<not> dead demo_sending"
  "upgraded (ctx demo_sending)" "send_queue (ctx demo_sending) = [PText [0x61]]"
proof -
  have "ws_step stored_ext demo_open demo_sending"
    using api_send [of TEXT False demo_open stored_ext "[0x61]"] by (simp add: demo_sending_def)
  then show "reachable ws_started (ws_step stored_ext) demo_sending" by (rule reachable_step [OF demo_open_reachable])
  have "connection_state (ctx demo_open) = CONNECTED" by (simp add: demo_open_eq)
  then have "ctx demo_sending = requestSendFlush ((ctx demo_open)\<lparr>send_queue := [PText [0x61]]\<rparr>)"
    using demo_open_fields by (simp add: demo_sending_def sendData_def enqueue_def MAX_QUEUE_SIZE_def)
  then show "\<not> dead demo_sending" "upgraded (ctx demo_sending)" "send_queue (ctx demo_sending) = [PText [0x61]]"
    using demo_open_fields by (simp_all add: demo_sending_def)
qed

theorem queued_is_scheduled_witness:
  "send_active (ctx demo_sending) \<and> send_queue (sendCallback stored_ext ((ctx demo_sending)\<lparr>send_active := False\<rparr>)) = []"
  using queued_is_scheduled [OF demo_sending(1-3)] demo_sending(4) by simp

text \<open>C20: where they overlap one can be: \<open>sendCallback\<close> clears the flag after it has taken the queue, so a
  message queued in between finds the flag set and requests nothing. The state that is left has the message in
  the queue of an open connection with no flush scheduled, no callback active and no thread inside a call.\<close>

theorem overlapping_request_lost:
  assumes "conn_ok True x" "upgraded x" "connection_state x = CONNECTED" "send_queue x = []" "send_event x"
    "\<not> send_flush_pending x"
  shows "\<exists>r. reachable (\<lambda>r. r = \<lparr>shared = x, in_flush = False, requests = 0\<rparr>) (race_step Z) r \<and>
    send_queue (shared r) = [PText d2] \<and> trace (shared r) = trace x @ [Sent TEXT d1] \<and>
    connection_state (shared r) = CONNECTED \<and> \<not> send_active (shared r) \<and> \<not> send_flush_pending (shared r) \<and>
    \<not> in_flush r \<and> requests r = 0"
proof -
  let ?R = "reachable (\<lambda>r. r = \<lparr>shared = x, in_flush = False, requests = 0\<rparr>) (race_step Z)"
  have live: "base x" "bev x" using assms(1) by (simp_all add: conn_ok_def)
  define x1 where "x1 = x\<lparr>send_queue := [PText d1]\<rparr>"
  define x2 where "x2 = x1\<lparr>send_flush_pending := True, send_active := True\<rparr>"
  define x3 where "x3 = flushSendQueue Z (x2\<lparr>send_active := False\<rparr>)"
  define x4 where "x4 = x3\<lparr>send_queue := [PText d2]\<rparr>"
  have "x3 = ctx_send Z d1 TEXT (x\<lparr>send_flush_pending := True, send_active := False, send_queue := []\<rparr>)"
    using assms(2,3) live by (simp add: x3_def x2_def x1_def flushSendQueue_def flushPending_def sendNow_def Let_def)
  then have x3: "send_queue x3 = []" "connection_state x3 = CONNECTED" "send_flush_pending x3" "\<not> send_active x3"
    "trace x3 = trace x @ [Sent TEXT d1]"
    using assms(3) by (simp_all add: is_control_frame_def)
  have steps: "race_step Z \<lparr>shared = x, in_flush = False, requests = 0\<rparr> \<lparr>shared = x1, in_flush = False, requests = 1\<rparr>"
    "race_step Z \<lparr>shared = x1, in_flush = False, requests = 1\<rparr> \<lparr>shared = x2, in_flush = False, requests = 0\<rparr>"
    "race_step Z \<lparr>shared = x2, in_flush = False, requests = 0\<rparr> \<lparr>shared = x3, in_flush = True, requests = 0\<rparr>"
    "race_step Z \<lparr>shared = x3, in_flush = True, requests = 0\<rparr> \<lparr>shared = x4, in_flush = True, requests = 1\<rparr>"
    "race_step Z \<lparr>shared = x4, in_flush = True, requests = 1\<rparr> \<lparr>shared = x4, in_flush = True, requests = 0\<rparr>"
    "race_step Z \<lparr>shared = x4, in_flush = True, requests = 0\<rparr>
       \<lparr>shared = x4\<lparr>send_flush_pending := False\<rparr>, in_flush = False, requests = 0\<rparr>"
  proof -
    show "race_step Z \<lparr>shared = x, in_flush = False, requests = 0\<rparr> \<lparr>shared = x1, in_flush = False, requests = 1\<rparr>"
      using race_enqueue [of TEXT "\<lparr>shared = x, in_flush = False, requests = 0\<rparr>" d1 x1 Z] assms(3,4)
      by (simp add: enqueue_def MAX_QUEUE_SIZE_def x1_def)
    show "race_step Z \<lparr>shared = x1, in_flush = False, requests = 1\<rparr> \<lparr>shared = x2, in_flush = False, requests = 0\<rparr>"
      using race_request [of "\<lparr>shared = x1, in_flush = False, requests = 1\<rparr>" Z] assms(5,6)
      by (simp add: requestSendFlush_def x1_def x2_def)
    show "race_step Z \<lparr>shared = x2, in_flush = False, requests = 0\<rparr> \<lparr>shared = x3, in_flush = True, requests = 0\<rparr>"
      using race_flush [of "\<lparr>shared = x2, in_flush = False, requests = 0\<rparr>" Z] live
      by (simp add: x1_def x2_def x3_def)
    show "race_step Z \<lparr>shared = x3, in_flush = True, requests = 0\<rparr> \<lparr>shared = x4, in_flush = True, requests = 1\<rparr>"
      using race_enqueue [of TEXT "\<lparr>shared = x3, in_flush = True, requests = 0\<rparr>" d2 x4 Z] x3(1,2)
      by (simp add: enqueue_def MAX_QUEUE_SIZE_def x4_def)
    show "race_step Z \<lparr>shared = x4, in_flush = True, requests = 1\<rparr> \<lparr>shared = x4, in_flush = True, requests = 0\<rparr>"
      using race_request [of "\<lparr>shared = x4, in_flush = True, requests = 1\<rparr>" Z] x3(3)
      by (simp add: requestSendFlush_def x4_def)
    show "race_step Z \<lparr>shared = x4, in_flush = True, requests = 0\<rparr>
       \<lparr>shared = x4\<lparr>send_flush_pending := False\<rparr>, in_flush = False, requests = 0\<rparr>"
      using race_clear [of "\<lparr>shared = x4, in_flush = True, requests = 0\<rparr>" Z] by simp
  qed
  have "?R \<lparr>shared = x, in_flush = False, requests = 0\<rparr>" by (rule reachable_init) simp
  from reachable_step [OF reachable_step [OF reachable_step [OF reachable_step [OF reachable_step [OF reachable_step
    [OF this steps(1)] steps(2)] steps(3)] steps(4)] steps(5)] steps(6)]
  show ?thesis using x3
    by (intro exI [of _ "\<lparr>shared = x4\<lparr>send_flush_pending := False\<rparr>, in_flush = False, requests = 0\<rparr>"]) (simp add: x4_def)
qed

theorem overlapping_request_lost_witness:
  "\<exists>r. reachable (\<lambda>r. r = \<lparr>shared = ctx demo_open, in_flush = False, requests = 0\<rparr>) (race_step stored_ext) r \<and>
     send_queue (shared r) = [PText [0x62]] \<and> \<not> send_active (shared r) \<and> \<not> send_flush_pending (shared r)"
proof -
  have "conn_ok True (ctx demo_open)" "connection_state (ctx demo_open) = CONNECTED"
    using reachable_good [OF demo_open_reachable] rx_good_live [of "ctx demo_open"] demo_open_fields by (simp_all add: rx_good_def)
  then show ?thesis using overlapping_request_lost [of "ctx demo_open" stored_ext "[0x62]" "[0x61]"] demo_open_fields by metis
qed

end
