(* ===== verification/Call.thy ===== *)
theory Call
  imports Session Wire Flush
begin

text \<open>
  A call from end to end: the layers put together. What the media thread captures is what the server reads
  from the wire, and what the server sends in its frames is what the caller hears.
\<close>

section \<open>From the server to the caller\<close>

text \<open>The audio waiting for the caller after the messages of the server: binary messages are appended, a
  clear message empties the queue.\<close>

fun heard :: "cjson \<Rightarrow> rx_event list \<Rightarrow> bytes \<Rightarrow> bytes" where
  "heard J [] q = q"
| "heard J (EvBinary d # es) q = heard J es (q @ d)"
| "heard J (EvText m # es) q = heard J es (if json_type J (c_str m) = Some (ascii ''clear'') then [] else q)"
| "heard J (e # es) q = heard J es q"

fun binary_bytes :: "rx_event list \<Rightarrow> nat" where
  "binary_bytes [] = 0"
| "binary_bytes (EvBinary d # es) = length d + binary_bytes es"
| "binary_bytes (e # es) = binary_bytes es"

lemma heard_append: "heard J (es @ fs) q = heard J fs (heard J es q)"
  by (induction J es q rule: heard.induct) simp_all

lemma binary_bytes_append [simp]: "binary_bytes (es @ fs) = binary_bytes es + binary_bytes fs"
  by (induction es rule: binary_bytes.induct) simp_all

text \<open>A session that is on and whose audio is at the rate of the channel, so that its downlink is one queue.\<close>

definition playing :: "('b \<Rightarrow> bytes) \<Rightarrow> ('b \<Rightarrow> nat) \<Rightarrow> nat \<Rightarrow> ('b, 'r) private_t \<Rightarrow> ('b, 'r, 'd) session \<Rightarrow> bool" where
  "playing content cap room t0 s \<longleftrightarrow> session_on s \<and> dl_ready content (tech s) \<and> tech_shape cap (tech s) = tech_shape cap t0 \<and>
     length (dl_queue content (tech s)) + room \<le> cap (the (play_buffer t0))"

lemma eventCallback_tech:
  assumes "eventCallback Z event msg s = Inr s'"
  shows "\<exists>b. tech s' = (tech s)\<lparr>close_requested := b\<rparr>"
proof -
  have same: "\<exists>b. tech s = (tech s)\<lparr>close_requested := b\<rparr>"
    by (intro exI [of _ "close_requested (tech s)"]) simp
  show ?thesis using assms same
    by (cases event) (auto simp: eventCallback_def responseHandler_def media_bug_close_def send_initial_metadata_def
        split: if_split_asm)
qed

lemma dl_queue_close [simp]: "dl_queue content (t\<lparr>close_requested := b\<rparr>) = dl_queue content t"
  "dl_ready content (t\<lparr>close_requested := b\<rparr>) = dl_ready content t"
  by (simp_all add: dl_queue_def dl_ready_def)

lemma event_heard:
  assumes doc: "buffer_doc W content cap" and play: "playing content cap room t0 s"
  shows "\<exists>s'. eventCallback Z event msg s = Inr s' \<and> playing content cap room t0 s' \<and>
    dl_queue content (tech s') = dl_queue content (tech s)"
proof -
  have on: "session_on s" using play by (simp add: playing_def)
  obtain s' where s': "eventCallback Z event msg s = Inr s'" "session_on s' \<or> session_over s'"
    "tech_shape cap (tech s') = tech_shape cap (tech s)"
    using eventCallback_goes_on [OF on, of cap Z event msg] unfolding goes_to_def by blast
  from eventCallback_tech [OF s'(1)] obtain b where b: "tech s' = (tech s)\<lparr>close_requested := b\<rparr>" by blast
  then have "\<not> session_over s'" using on by (simp add: session_on_def session_over_def)
  then show ?thesis using s' b play by (intro exI [of _ s']) (simp add: playing_def)
qed

text \<open>One event of the connection.\<close>

lemma handle_heard:
  assumes doc: "buffer_doc W content cap" and play: "playing content cap (binary_bytes (rx_view e) + room) t0 s"
  shows "\<exists>s'. handle J W Z e s = Inr s' \<and> playing content cap room t0 s' \<and>
    dl_queue content (tech s') = heard J (rx_view e) (dl_queue content (tech s))"
proof -
  have on: "session_on s" and ready: "dl_ready content (tech s)" and shape: "tech_shape cap (tech s) = tech_shape cap t0"
    using play by (simp_all add: playing_def)
  have less: "playing content cap room t0 s" using play by (simp add: playing_def)
  note fired = event_heard [OF doc less, of Z]
  show ?thesis
  proof (cases e)
    case (OnBinary d)
    have caps: "map_option cap (play_buffer (tech s)) = map_option cap (play_buffer t0)" "play_buffer (tech s) \<noteq> None"
      using shape on by (simp_all add: tech_shape_def session_on_def)
    then have cap: "cap (the (play_buffer (tech s))) = cap (the (play_buffer t0))"
      by (cases "play_buffer t0") auto
    have "length (content (the (play_buffer (tech s)))) + length d \<le> cap (the (play_buffer (tech s)))"
      using play cap OnBinary by (simp add: playing_def dl_queue_def)
    from audio_step [OF doc ready this] obtain t1 where t1: "onBinary W d (tech s) = Inr t1" "dl_ready content t1"
      "dl_queue content t1 = dl_queue content (tech s) @ d" by blast
    have "tech_shape cap t1 = tech_shape cap (tech s)" "tech_flags t1 = tech_flags (tech s)"
      using onBinary_goes_on [OF doc, of "tech s" d] on t1(1) by (auto simp: session_on_def)
    then have "playing content cap room t0 (s\<lparr>tech := t1\<rparr>)"
      using session_on_tech [OF on, of cap t1] t1(2,3) shape play OnBinary by (simp add: playing_def)
    then show ?thesis using OnBinary on t1 by (simp add: handle_def cb_on_binary_def session_on_def)
  next
    case (OnMessage m)
    show ?thesis
    proof (cases "json_type J (c_str m) = Some (ascii ''clear'')")
      case False
      then show ?thesis using OnMessage on fired [of MESSAGE "c_str m"] by (simp add: handle_def cb_on_message_def session_on_def)
    next
      case True
      obtain t1 where t1: "clearPlayback W (tech s) = Inr t1" "tech_shape cap t1 = tech_shape cap (tech s)"
        "tech_flags t1 = tech_flags (tech s)"
        using clearPlayback_goes_on [OF doc, of "tech s"] on by (auto simp: session_on_def)
      have "dl_ready content t1 \<and> dl_queue content t1 = []"
        using t1(1) on ready buffer_docD(9) [OF doc]
        by (auto simp: clearPlayback_def session_on_def dl_ready_def dl_queue_def split: if_split_asm)
      then have "playing content cap room t0 (s\<lparr>tech := t1\<rparr>)"
        using session_on_tech [OF on t1(2,3)] t1(2) shape play by (simp add: playing_def)
      then show ?thesis using OnMessage True on t1(1) \<open>dl_ready content t1 \<and> dl_queue content t1 = []\<close>
        by (simp add: handle_def cb_on_message_def session_on_def)
    qed
  next
    case (Sent type raw)
    then show ?thesis using less by (simp add: handle_def)
  qed (use on fired in \<open>simp_all add: handle_def cb_on_open_def cb_on_error_def cb_on_close_def session_on_def\<close>)
qed

lemma handle_all_heard:
  assumes doc: "buffer_doc W content cap" and "playing content cap (binary_bytes (concat (map rx_view es)) + room) t0 s"
  shows "\<exists>s'. handle_all J W Z es s = Inr s' \<and> playing content cap room t0 s' \<and>
    dl_queue content (tech s') = heard J (concat (map rx_view es)) (dl_queue content (tech s))"
  using assms(2)
proof (induction es arbitrary: s)
  case (Cons e es)
  then have "playing content cap (binary_bytes (rx_view e) + (binary_bytes (concat (map rx_view es)) + room)) t0 s"
    by (simp add: add.assoc)
  from handle_heard [OF doc this, of J Z] obtain s1 where s1: "handle J W Z e s = Inr s1"
    "playing content cap (binary_bytes (concat (map rx_view es)) + room) t0 s1"
    "dl_queue content (tech s1) = heard J (rx_view e) (dl_queue content (tech s))" by blast
  from Cons.IH [OF s1(2)] show ?case using s1(1,3) by (simp add: heard_append)
qed simp

section \<open>From the caller to the server\<close>

text \<open>Queueing messages is a sequence of steps of the connection.\<close>

lemma writeBinary_steps:
  assumes "reachable I (ws_step Z) w" "cl_ctx c = Some (ctx w)"
  shows "\<exists>x. writeBinary Z d c = c\<lparr>cl_ctx := Some x\<rparr> \<and> reachable I (ws_step Z) (w\<lparr>ctx := x\<rparr>) \<and>
    upgraded x = upgraded (ctx w)"
proof (cases "client_isConnected c")
  case False
  then have "writeBinary Z d c = c\<lparr>cl_ctx := Some (ctx w)\<rparr>" using assms(2) by (simp add: writeBinary_def)
  moreover have "w\<lparr>ctx := ctx w\<rparr> = w" by simp
  ultimately show ?thesis using assms(1) by (intro exI [of _ "ctx w"]) simp
next
  case True
  have "ws_step Z w (w\<lparr>ctx := snd (sendData Z False d BINARY (ctx w))\<rparr>)" by (rule api_send) simp_all
  moreover have "upgraded (snd (sendData Z False d BINARY (ctx w))) = upgraded (ctx w)"
    by (simp add: sendData_def enqueue_def requestSendFlush_def Let_def)
  ultimately show ?thesis using True assms(2) reachable_step [OF assms(1)]
    by (intro exI [of _ "snd (sendData Z False d BINARY (ctx w))"])
      (simp add: writeBinary_def sendBinary_def client_send_def)
qed

lemma send_all_steps:
  assumes "reachable I (ws_step Z) w" "cl_ctx c = Some (ctx w)"
  shows "\<exists>x. send_all Z chunks c = c\<lparr>cl_ctx := Some x\<rparr> \<and> reachable I (ws_step Z) (w\<lparr>ctx := x\<rparr>) \<and>
    upgraded x = upgraded (ctx w)"
proof -
  have stay: "c\<lparr>cl_ctx := Some (ctx w)\<rparr> = c \<and> reachable I (ws_step Z) (w\<lparr>ctx := ctx w\<rparr>)"
    if "cl_ctx c = Some (ctx w)" "reachable I (ws_step Z) w" for c w
    using that by simp
  have "\<exists>x. fold (\<lambda>chunk c1. if chunk \<noteq> [] then writeBinary Z chunk c1 else c1) chunks c = c\<lparr>cl_ctx := Some x\<rparr> \<and>
      reachable I (ws_step Z) (w\<lparr>ctx := x\<rparr>) \<and> upgraded x = upgraded (ctx w)"
    using assms
  proof (induction chunks arbitrary: c w)
    case Nil
    then show ?case using stay [OF Nil(2,1)] by (intro exI [of _ "ctx w"]) simp
  next
    case (Cons d chunks)
    show ?case
    proof (cases "d = []")
      case True
      then show ?thesis using Cons by simp
    next
      case False
      obtain x where x: "writeBinary Z d c = c\<lparr>cl_ctx := Some x\<rparr>" "reachable I (ws_step Z) (w\<lparr>ctx := x\<rparr>)"
        "upgraded x = upgraded (ctx w)"
        using writeBinary_steps [OF Cons.prems] by blast
      have "cl_ctx (c\<lparr>cl_ctx := Some x\<rparr>) = Some (ctx (w\<lparr>ctx := x\<rparr>))" by simp
      from Cons.IH [OF x(2) this] obtain x' where
        "fold (\<lambda>chunk c1. if chunk \<noteq> [] then writeBinary Z chunk c1 else c1) chunks (c\<lparr>cl_ctx := Some x\<rparr>) = c\<lparr>cl_ctx := Some x'\<rparr>"
        "reachable I (ws_step Z) (w\<lparr>ctx := x'\<rparr>)" "upgraded x' = upgraded (ctx w)" using x(3) by auto
      then show ?thesis using False x(1) by (intro exI [of _ x']) simp
    qed
  qed
  then show ?thesis
  proof (cases "client_isConnected c")
    case False
    then show ?thesis using stay [OF assms(2,1)] by (intro exI [of _ "ctx w"]) (simp add: send_all_def)
  qed (simp add: send_all_def)
qed

lemma on_wire_read:
  assumes "on_wire Z whole peer x" "sendable Z (sent (trace x))"
  obtains k out fs where "out_buf x = concat (replicate k (handshakeRequest (config x) (ws_key x))) @ out"
    "server_frames out = Some fs" "list_all2 (frame_carries whole peer) fs (sent (trace x))"
  using assms server_frames_concat unfolding on_wire_def by blast

text \<open>The messages of the queue, as the trace will list them.\<close>

fun queued :: "Pending \<Rightarrow> MessageType \<times> bytes" where
  "queued (PText d) = (TEXT, d)"
| "queued (PBinary d) = (BINARY, d)"
| "queued (PClose d) = (CLOSE, d)"

lemma sent_queued: "sent (map pending_frame ps) = map queued ps"
  by (induction ps) (auto simp: pending_frame_def split: Pending.split)

text \<open>The flush of an open connection sends the whole queue.\<close>

lemma flush_of_open:
  assumes "reachable ws_started (ws_step Z) w" "\<not> dead w" "upgraded (ctx w)" "connection_state (ctx w) = CONNECTED"
    "send_queue (ctx w) \<noteq> []"
  defines "y \<equiv> sendCallback Z ((ctx w)\<lparr>send_active := False\<rparr>)"
  shows "send_active (ctx w)" "ws_step Z w (w\<lparr>ctx := y\<rparr>)"
    "sent (trace y) = sent (trace (ctx w)) @ map queued (send_queue (ctx w))"
proof -
  have "scheduled (ctx w)"
    by (rule flush.while_running [OF assms(1) _ assms(2)]) (simp add: ws_started_def scheduled_def)
  then show active: "send_active (ctx w)" using assms(3,5) by (simp add: scheduled_def)
  have ok: "conn_inv (ctx w)" using ws.always [OF assms(1)] assms(2) by (simp add: world_ok_def)
  then have live: "base (ctx w)" "bev (ctx w)" by (simp_all add: conn_ok_def)
  have "\<forall>d. PClose d \<notin> set (send_queue (ctx w))" using ok assms(4) by (auto simp: conn_ok_def queue_ok_def closing_def)
  note sent_all = flush_data [OF this, of "(ctx w)\<lparr>send_active := False, send_queue := []\<rparr>" Z]
  show "ws_step Z w (w\<lparr>ctx := y\<rparr>)"
    unfolding y_def by (rule send_runs) (use assms(2) active live in simp_all)
  show "sent (trace y) = sent (trace (ctx w)) @ map queued (send_queue (ctx w))"
    using sent_all assms(3,4) live by (simp add: y_def sendCallback_def flushSendQueue_def sent_queued Let_def)
qed

section \<open>Properties\<close>

text \<open>C6: what the server sends is what the caller hears: on an open, uncompressed connection, however its
  messages are fragmented, and with control frames and other texts in between, the callbacks made for the
  bytes that have arrived put exactly the audio sent since the last clear message behind what was already
  queued, and the frames that then go out to the caller carry it byte for byte. The frames have the rate of the stream, and the
  audio fits in the playback buffer; another rate is \<open>resampled_playback\<close>, audio that does not fit \<open>onBinary_bounded\<close>.\<close>

theorem server_audio_reaches_caller:
  assumes "pullup_doc Z" "buffer_doc W content cap" "reachable ws_started (ws_step Z) w" "\<not> dead w" "upgraded (ctx w)"
    "\<not> ctx_rxIsTerminating (ctx w)" "\<not> use_compression (ctx w)" "rx_assembling a (rx w)"
    "rfc_stream (input w @ bs) a = Some (evs, next_a)" "session_on s" "dl_ready content (tech s)"
    "length (dl_queue content (tech s)) + binary_bytes evs \<le> cap (the (play_buffer (tech s)))"
    "\<forall>fr \<in> set frs. plain_frame (sampling (tech s)) (cap (the (dl_stash (tech s)))) fr"
  shows "\<exists>es s' t' out. trace (ctx (handleRead Z (w\<lparr>input := input w @ bs\<rparr>))) = trace (ctx w) @ es \<and>
    handle_all J W Z es s = Inr s' \<and> dl_run W (map Frame frs) (tech s') = Inr (t', out) \<and>
    dl_spec (map Frame frs) (heard J evs (dl_queue content (tech s))) = (dl_queue content t', out)"
proof -
  define w0 where "w0 = w\<lparr>input := input w @ bs\<rparr>"
  have w0: "ctx w0 = ctx w" "rx w0 = rx w" "input w0 = input w @ bs" by (simp_all add: w0_def)
  have good: "rx_good (ctx w0)" using reachable_good [OF assms(3-5)] by (simp add: w0)
  have read: "handleRead Z w0 = world_onData Z w0" using assms(5) by (simp add: handleRead_open w0)
  have log: "rx_log (ctx (handleRead Z w0)) = rx_log (ctx w) @ evs"
    using world_onData_stream [OF assms(1) good, of a evs next_a] assms(6-9) by (simp add: read w0)
  have "grows (trace (ctx w)) (ctx (handleRead Z w0))"
    using grow.by_onData [OF good, of "trace (ctx w)" Z] by (simp add: read grows_def w0)
  then obtain es where es: "trace (ctx (handleRead Z w0)) = trace (ctx w) @ es" by (auto simp: grows_def)
  then have views: "concat (map rx_view es) = evs" using log by (simp add: rx_log_def)
  have "playing content cap (binary_bytes (concat (map rx_view es)) + 0) (tech s) s"
    using assms(10-12) by (simp add: playing_def views)
  from handle_all_heard [OF assms(2) this, of J Z] obtain s' where s': "handle_all J W Z es s = Inr s'"
    "playing content cap 0 (tech s) s'" "dl_queue content (tech s') = heard J evs (dl_queue content (tech s))"
    by (auto simp: views)
  have shape: "sampling (tech s') = sampling (tech s)" "map_option cap (dl_stash (tech s')) = map_option cap (dl_stash (tech s))"
    "map_option cap (play_buffer (tech s')) = map_option cap (play_buffer (tech s))"
    "dl_stash (tech s) \<noteq> None" "play_buffer (tech s) \<noteq> None" "dl_ready content (tech s')"
    using s'(2) assms(10) by (simp_all add: playing_def tech_shape_def session_on_def)
  have caps: "cap (the (dl_stash (tech s'))) = cap (the (dl_stash (tech s)))"
    "cap (the (play_buffer (tech s'))) = cap (the (play_buffer (tech s)))"
    using shape(2-5) by (metis map_option_is_None option.map_sel)+
  have "audio_bytes (map Frame frs) = []" by (induction frs) simp_all
  then have "length (dl_queue content (tech s')) + length (audio_bytes (map Frame frs)) \<le> cap (the (play_buffer (tech s')))"
    using s'(2) caps(2) by (simp add: playing_def)
  moreover have "\<forall>fr. Frame fr \<in> set (map Frame frs) \<longrightarrow> plain_frame (sampling (tech s')) (cap (the (dl_stash (tech s')))) fr"
    using assms(13) shape(1) caps(1) by auto
  ultimately show ?thesis using dl_run_spec [OF assms(2) shape(6)] es s'(1,3) unfolding w0_def by metis
qed

text \<open>A binary message in two fragments with a ping between them.\<close>

abbreviation "demo_stream \<equiv> [0x02, 2, 7, 8, 0x89, 0, 0x80, 1, 9] :: bytes"

lemma demo_stream: "rfc_stream demo_stream Idle = Some ([EvPing [], EvBinary [7, 8, 9]], Some Idle)"
  by (simp add: rfc_stream.simps rfc_server_frame_def rfc_server_length_def rfc_message_def rfc_fragment_def)

lemma demo_session_on: "session_on (demo_session x)" "dl_ready clip (tech (demo_session x))"
  "sampling (tech (demo_session x)) = 8000" "dl_queue clip (tech (demo_session x)) = []"
  "fst (the (dl_stash (tech (demo_session x)))) = 960000" "fst (the (play_buffer (tech (demo_session x)))) = 160000"
  using demo_metadata(2) [of x]
  by (simp_all add: session_on_def alive_def demo_session_def dl_ready_def dl_queue_def demo_uplink_def demo_tech_def zero_tech_def clip_def
    MAX_SESSION_ID_def)

theorem server_audio_reaches_caller_witness:
  "\<exists>es s' t'. trace (ctx (handleRead stored_ext (demo_open\<lparr>input := demo_stream\<rparr>))) = [OnOpen] @ es \<and>
     handle_all no_json list_sw stored_ext es (demo_session (ctx demo_open)) = Inr s' \<and>
     dl_run list_sw (map Frame [demo_frame, demo_frame]) (tech s') = Inr (t', [demo_frame\<lparr>fr_data := [7, 8]\<rparr>, demo_frame])"
proof -
  have "rx_assembling Idle (rx demo_open)" "\<forall>fr \<in> set [demo_frame, demo_frame]. plain_frame 8000 960000 fr"
    by (simp_all add: demo_open_fields WebSocketReceiver_def plain_frame_def)
  then show ?thesis
    using server_audio_reaches_caller [OF stored_pullup_doc list_buffer_doc demo_open_reachable demo_open_fields(3,2,6,5),
        of Idle demo_stream _ _ "demo_session (ctx demo_open)" "[demo_frame, demo_frame]" no_json] demo_stream
    by (auto simp: demo_open_fields demo_session_on Let_def)
qed

text \<open>C7: what the media thread captures is what the server reads: on an open connection, without a
  resampler and with one packet per message, the frames of one capture callback are queued as binary
  messages by steps of the connection, the flush of the event thread is active, and when it has run an RFC
  6455 server reads from the bytes written since the handshake what was sent before, what was waiting and then
  exactly the captured frames, in order.\<close>

theorem captured_audio_reaches_server:
  assumes "deflate_doc Z whole peer" "reachable ws_started (ws_step Z) w" "\<not> dead w" "upgraded (ctx w)"
    "connection_state (ctx w) = CONNECTED" "session_on s" "streamer s = Some sp" "cl_ctx (s_client sp) = Some (ctx w)"
    "\<not> close_requested (tech s)" "\<not> audio_paused (tech s)" "resampler (tech s) = None" "rtp_packets (tech s) = 1"
    "length (send_queue (ctx w)) + length frames \<le> 1024" "\<exists>f \<in> set frames. fst f \<noteq> []"
  defines "ms \<equiv> sent (trace (ctx w)) @ map queued (send_queue (ctx w)) @
    map (Pair BINARY) (filter (\<lambda>d. d \<noteq> []) (map fst frames))"
  assumes "sendable Z ms"
  shows "\<exists>x y k out fs. session_do J W Z (Captured True frames) s =
      Inr (s\<lparr>streamer := Some (sp\<lparr>s_client := (s_client sp)\<lparr>cl_ctx := Some x\<rparr>\<rparr>)\<rparr>) \<and>
    reachable ws_started (ws_step Z) (w\<lparr>ctx := x\<rparr>) \<and> send_active x \<and>
    y = sendCallback Z (x\<lparr>send_active := False\<rparr>) \<and> reachable ws_started (ws_step Z) (w\<lparr>ctx := y\<rparr>) \<and>
    out_buf y = concat (replicate k (handshakeRequest (config y) (ws_key y))) @ out \<and>
    server_frames out = Some fs \<and> list_all2 (frame_carries whole peer) fs ms"
proof -
  let ?chunks = "filter (\<lambda>d. d \<noteq> []) (map fst frames)" and ?c = "s_client sp"
  have ready: "ul_ready (tech s)" using assms(6,10) by (auto simp: ul_ready_def session_on_def)
  have "isConnected (ctx w)" using assms(5) by (simp add: isConnected_def)
  from stream_frame_queues [OF ready assms(11,12,8) this assms(13), of W Z] obtain x where
    x: "stream_frame W Z True frames (tech s) ?c = Inr (tech s, ?c\<lparr>cl_ctx := Some x\<rparr>)"
    "?c\<lparr>cl_ctx := Some x\<rparr> = send_all Z ?chunks ?c" "connection_state x = connection_state (ctx w)"
    "send_queue x = send_queue (ctx w) @ map PBinary ?chunks" "trace x = trace (ctx w)" by blast
  obtain x1 where x1: "send_all Z ?chunks ?c = ?c\<lparr>cl_ctx := Some x1\<rparr>" "reachable ws_started (ws_step Z) (w\<lparr>ctx := x1\<rparr>)"
    "upgraded x1 = upgraded (ctx w)" using send_all_steps [OF assms(2,8)] by blast
  have "cl_ctx (?c\<lparr>cl_ctx := Some x\<rparr>) = cl_ctx (?c\<lparr>cl_ctx := Some x1\<rparr>)" using x(2) x1(1) by simp
  then have w1: "reachable ws_started (ws_step Z) (w\<lparr>ctx := x\<rparr>)" "upgraded x" using x1(2,3) assms(4) by simp_all
  define y where "y = sendCallback Z (x\<lparr>send_active := False\<rparr>)"
  have "?chunks \<noteq> []" using assms(14) by (auto simp: filter_empty_conv)
  note flushed = flush_of_open [OF w1(1), simplified, OF assms(3) w1(2) x(3) [unfolded assms(5)], folded y_def]
  have fl: "send_active x" "ws_step Z (w\<lparr>ctx := x\<rparr>) (w\<lparr>ctx := y\<rparr>)" "sent (trace y) = ms"
    using flushed x(4,5) \<open>?chunks \<noteq> []\<close> by (simp_all add: ms_def)
  have w2: "reachable ws_started (ws_step Z) (w\<lparr>ctx := y\<rparr>)" by (rule reachable_step [OF w1(1) fl(2)])
  have "wired Z whole peer (ctx (w\<lparr>ctx := y\<rparr>))" by (rule wire.always [OF w2]) (simp add: ws_started_wired)
  then have "on_wire Z whole peer y" using assms(1) by (simp add: wired_def)
  then obtain k out fs where out: "out_buf y = concat (replicate k (handshakeRequest (config y) (ws_key y))) @ out"
    "server_frames out = Some fs" "list_all2 (frame_carries whole peer) fs ms"
    using on_wire_read assms(16) fl(3) by metis
  have "session_do J W Z (Captured True frames) s = Inr (s\<lparr>streamer := Some (sp\<lparr>s_client := ?c\<lparr>cl_ctx := Some x\<rparr>\<rparr>)\<rparr>)"
    using assms(7,9) x(1) by (simp add: session_do_def capture_callback_def)
  then show ?thesis using w1(1) w2 fl(1) out y_def by blast
qed


text \<open>Two frames of audio.\<close>

definition demo_capture :: "(nat \<times> bytes, unit, unit) session" where
  "demo_capture = (demo_session (ctx demo_open))\<lparr>tech := (tech (demo_session (ctx demo_open)))\<lparr>rtp_packets := 1\<rparr>\<rparr>"

lemma demo_capture: "session_on demo_capture" "streamer demo_capture = streamer (demo_session (ctx demo_open))"
  "\<not> close_requested (tech demo_capture)" "\<not> audio_paused (tech demo_capture)" "resampler (tech demo_capture) = None"
  "rtp_packets (tech demo_capture) = 1"
  using demo_session_on(1) [of "ctx demo_open"]
  by (simp_all add: demo_capture_def session_on_def alive_def) (simp_all add: demo_session_def demo_uplink_def demo_tech_def zero_tech_def)

theorem captured_audio_reaches_server_witness:
  "\<exists>s' sp x request out f g. session_do no_json list_sw stored_ext (Captured True [([1, 2], 1), ([3, 4], 1)]) demo_capture = Inr s' \<and>
     streamer s' = Some sp \<and> cl_ctx (s_client sp) = Some x \<and>
     out_buf (sendCallback stored_ext (x\<lparr>send_active := False\<rparr>)) = request @ out \<and>
     server_frames out = Some [f, g] \<and> frame_carries stored_whole () f (BINARY, [1, 2]) \<and>
     frame_carries stored_whole () g (BINARY, [3, 4])"
proof -
  obtain sp where sp: "streamer demo_capture = Some sp" "cl_ctx (s_client sp) = Some (ctx demo_open)"
    by (simp add: demo_capture demo_session_def)
  have open_now: "connection_state (ctx demo_open) = CONNECTED" by (simp add: demo_open_eq)
  have none: "sent (trace (ctx demo_open)) = []" "send_queue (ctx demo_open) = []" by (simp_all add: demo_open_fields)
  have "sendable stored_ext [(BINARY, [1, 2]), (BINARY, [3, 4])]" by (simp add: sendable_def stored_ext_def)
  then obtain x y k out fs where
    r: "session_do no_json list_sw stored_ext (Captured True [([1, 2], 1), ([3, 4], 1)]) demo_capture =
      Inr (demo_capture\<lparr>streamer := Some (sp\<lparr>s_client := (s_client sp)\<lparr>cl_ctx := Some x\<rparr>\<rparr>)\<rparr>)"
    "y = sendCallback stored_ext (x\<lparr>send_active := False\<rparr>)"
    "out_buf y = concat (replicate k (handshakeRequest (config y) (ws_key y))) @ out"
    "server_frames out = Some fs" "list_all2 (frame_carries stored_whole ()) fs [(BINARY, [1, 2]), (BINARY, [3, 4])]"
    using captured_audio_reaches_server [OF stored_deflate_doc demo_open_reachable demo_open_fields(3,2) open_now demo_capture(1) sp
        demo_capture(3-6), of "[([1, 2], 1), ([3, 4], 1)]" no_json list_sw] none by auto
  show ?thesis using r by (fastforce simp: list_all2_Cons2)
qed

end
