(* ===== verification/Shutdown.thy ===== *)
theory Shutdown
  imports Flush
begin

text \<open>
  The end of a connection: the way from \<open>stop\<close> to the end of the event thread, which \<open>stop\<close> waits for.
  Unless the server has closed first, the callbacks that lead there are always due; once it has, only the
  transport can end the loop.
\<close>

section \<open>The way to the end\<close>

text \<open>How far it is: the loop has been told to exit, the CLOSE frame has been sent and its timer is
  running, the CLOSE frame is queued, or nothing has happened yet.\<close>

definition stop_rank :: "'d ctx \<Rightarrow> nat" where
  "stop_rank x = (if loop_exit x then 1 else if close_sent x then 2 else if closing x then 3 else 4)"

definition on_the_way :: "'d ctx \<Rightarrow> bool" where
  "on_the_way x \<longleftrightarrow> wakeup_event x \<and>
     (loop_exit x \<or> close_received x \<or>
      (if close_sent x then connection_state x = DISCONNECTING \<and> close_timer_armed x
       else if connection_state x = DISCONNECTING then \<exists>d. PClose d \<in> set (send_queue x)
       else connection_state x \<in> {CONNECTING, CONNECTED} \<and> (stop_requested x \<longrightarrow> wakeup_active x)))"

text \<open>With \<open>b\<close>: stop has been called, the server has not closed, and at most \<open>k\<close> callbacks are left.\<close>

definition ends_in :: "bool \<Rightarrow> nat \<Rightarrow> 'd ctx \<Rightarrow> bool" where
  "ends_in b k x \<longleftrightarrow> on_the_way x \<and> (b \<longrightarrow> stop_requested x \<and> \<not> close_received x \<and> stop_rank x \<le> k)"

lemmas ends_in_defs = ends_in_def on_the_way_def stop_rank_def closing_def

lemma ends_in_frame [simp]:
  "ends_in b k (x\<lparr>send_active := c\<rparr>) = ends_in b k x" "ends_in b k (x\<lparr>send_flush_pending := c\<rparr>) = ends_in b k x"
  "ends_in b k (x\<lparr>use_compression := c\<rparr>) = ends_in b k x" "ends_in b k (x\<lparr>pmd := cfg\<rparr>) = ends_in b k x"
  "ends_in b k (x\<lparr>tx := t\<rparr>) = ends_in b k x" "ends_in b k (x\<lparr>timeout_event := c\<rparr>) = ends_in b k x"
  "ends_in b k (x\<lparr>close_cb_fired := c\<rparr>) = ends_in b k x" "ends_in b k (x\<lparr>protocol_failed := c\<rparr>) = ends_in b k x"
  "ends_in b k (x\<lparr>out_buf := out\<rparr>) = ends_in b k x" "ends_in b k (x\<lparr>upgraded := c\<rparr>) = ends_in b k x"
  "ends_in b k (emit e x) = ends_in b k x" "ends_in b k (sendError code msg x) = ends_in b k x"
  "ends_in b k (sendCloseCallback c' reason x) = ends_in b k x" "ends_in b k (requestSendFlush x) = ends_in b k x"
  by (auto simp: ends_in_defs emit_def sendError_def sendCloseCallback_def requestSendFlush_def Let_def)

lemma ends_in_wakeup: "ends_in b k x \<Longrightarrow> ends_in b k (x\<lparr>wakeup_active := True\<rparr>)"
  by (auto simp: ends_in_defs)

lemma ctx_send_stop [simp]:
  "loop_exit (ctx_send Z raw type x) = loop_exit x" "close_received (ctx_send Z raw type x) = close_received x"
  "close_timer_armed (ctx_send Z raw type x) = close_timer_armed x" "wakeup_active (ctx_send Z raw type x) = wakeup_active x"
  "wakeup_event (ctx_send Z raw type x) = wakeup_event x" "bev (ctx_send Z raw type x) = bev x"
  by (rule ctx_send_shape [of Z raw type x]; simp)+

lemma ends_in_send [simp]: "ends_in b k (ctx_send Z raw type x) = ends_in b k x"
  by (simp add: ends_in_defs)

lemma ends_in_sendNow: "ends_in b k (snd (sendNow Z raw type x)) = ends_in b k x"
  by (simp add: sendNow_def)

lemma exits:
  assumes "wakeup_event x" "base x" "b \<longrightarrow> 0 < k \<and> \<not> close_received x"
  shows "ends_in b k (requestLoopExit True x)"
  using assms by (auto simp: ends_in_defs requestLoopExit_def)

lemma ends_inD:
  assumes "ends_in b k x"
  shows "wakeup_event x" "b \<longrightarrow> 0 < k \<and> \<not> close_received x"
  using assms by (auto simp: ends_in_defs split: if_split_asm)

section \<open>Flushing\<close>

lemma flushPending_stop:
  "loop_exit (flushPending Z can p x) = loop_exit x \<and> close_received (flushPending Z can p x) = close_received x \<and>
   stop_requested (flushPending Z can p x) = stop_requested x \<and> wakeup_active (flushPending Z can p x) = wakeup_active x \<and>
   wakeup_event (flushPending Z can p x) = wakeup_event x \<and> connection_state (flushPending Z can p x) = connection_state x \<and>
   bev (flushPending Z can p x) = bev x"
  by (cases p) (simp_all add: flushPending_def sendNow_def armCloseTimer_def)

lemma flush_fold_stop:
  "loop_exit (fold (flushPending Z can) ps x) = loop_exit x \<and>
   close_received (fold (flushPending Z can) ps x) = close_received x \<and>
   stop_requested (fold (flushPending Z can) ps x) = stop_requested x \<and>
   wakeup_active (fold (flushPending Z can) ps x) = wakeup_active x \<and>
   wakeup_event (fold (flushPending Z can) ps x) = wakeup_event x \<and>
   connection_state (fold (flushPending Z can) ps x) = connection_state x \<and>
   bev (fold (flushPending Z can) ps x) = bev x"
  by (induction ps arbitrary: x) (simp_all add: flushPending_stop)

lemma flush_fold_sent:
  "close_sent x \<Longrightarrow> close_sent (fold (flushPending Z can) ps x) \<and>
    close_timer_armed (fold (flushPending Z can) ps x) = close_timer_armed x"
proof (induction ps arbitrary: x)
  case (Cons p ps)
  have "close_sent (flushPending Z can p x) \<and> close_timer_armed (flushPending Z can p x) = close_timer_armed x"
    using Cons.prems by (cases p) (simp_all add: flushPending_def sendNow_def)
  then show ?case using Cons.IH [of "flushPending Z can p x"] by simp
qed simp

lemma flush_fold_none:
  "\<forall>d. PClose d \<notin> set ps \<Longrightarrow> close_sent (fold (flushPending Z can) ps x) = close_sent x"
proof (induction ps arbitrary: x)
  case (Cons p ps)
  have "close_sent (flushPending Z can p x) = close_sent x"
    using Cons.prems by (cases p) (auto simp: flushPending_def sendNow_def)
  then show ?case using Cons by simp
qed simp

lemma flush_fold_close:
  "PClose d \<in> set ps \<Longrightarrow> bev x \<Longrightarrow> connection_state x = DISCONNECTING \<Longrightarrow> \<not> close_sent x \<Longrightarrow>
    close_sent (fold (flushPending Z can) ps x) \<and> close_timer_armed (fold (flushPending Z can) ps x)"
proof (induction ps arbitrary: x)
  case (Cons p ps)
  let ?y = "flushPending Z can p x"
  show ?case
  proof (cases p)
    case (PClose d')
    then have "close_sent ?y \<and> close_timer_armed ?y"
      using Cons.prems(2-4) by (simp add: flushPending_def sendNow_def armCloseTimer_def)
    then show ?thesis using flush_fold_sent [of ?y Z can ps] by simp
  next
    case (PText d')
    then have "close_sent ?y = close_sent x" by (simp add: flushPending_def sendNow_def)
    moreover have "PClose d \<in> set ps" using Cons.prems(1) PText by simp
    ultimately show ?thesis using Cons.IH [of ?y] Cons.prems(2-4) flushPending_stop [of Z can p x] by simp
  next
    case (PBinary d')
    then have "close_sent ?y = close_sent x" by (simp add: flushPending_def sendNow_def)
    moreover have "PClose d \<in> set ps" using Cons.prems(1) PBinary by simp
    ultimately show ?thesis using Cons.IH [of ?y] Cons.prems(2-4) flushPending_stop [of Z can p x] by simp
  qed
qed simp

lemma flush_eq: "flushSendQueue Z x = fold (flushPending Z (connection_state x = CONNECTED)) (send_queue x) (x\<lparr>send_queue := []\<rparr>)"
  by (simp add: flushSendQueue_def Let_def)

lemma flush_stop [simp]:
  "loop_exit (flushSendQueue Z x) = loop_exit x" "close_received (flushSendQueue Z x) = close_received x"
  "stop_requested (flushSendQueue Z x) = stop_requested x" "wakeup_active (flushSendQueue Z x) = wakeup_active x"
  "wakeup_event (flushSendQueue Z x) = wakeup_event x" "connection_state (flushSendQueue Z x) = connection_state x"
  unfolding flush_eq by (simp_all add: flush_fold_stop)

lemma flush_sent:
  "close_sent x \<Longrightarrow> close_sent (flushSendQueue Z x) \<and> close_timer_armed (flushSendQueue Z x) = close_timer_armed x"
  using flush_fold_sent [of "x\<lparr>send_queue := []\<rparr>"] unfolding flush_eq by simp

lemma flush_none: "\<forall>d. PClose d \<notin> set (send_queue x) \<Longrightarrow> close_sent (flushSendQueue Z x) = close_sent x"
  unfolding flush_eq by (simp add: flush_fold_none)

lemma flush_sends_close:
  assumes "PClose d \<in> set (send_queue x)" "bev x" "connection_state x = DISCONNECTING" "\<not> close_sent x"
  shows "close_sent (flushSendQueue Z x) \<and> close_timer_armed (flushSendQueue Z x)"
  using flush_fold_close [OF assms(1), of "x\<lparr>send_queue := []\<rparr>"] assms(2-4) unfolding flush_eq by simp

lemma flush_ends_in:
  assumes "conn_ok is_open x" "ends_in b k x"
  shows "ends_in b k (flushSendQueue Z x)"
proof (cases "loop_exit x \<or> close_received x")
  case True
  then show ?thesis using assms(2) flush_sent [of x Z] by (auto simp: ends_in_defs split: if_split_asm)
next
  case False
  then consider "close_sent x" | d where "\<not> close_sent x" "connection_state x = DISCONNECTING" "PClose d \<in> set (send_queue x)"
    | "\<not> close_sent x" "\<not> closing x"
    using assms(2) by (auto simp: ends_in_defs split: if_split_asm)
  then show ?thesis
  proof cases
    case 1
    then show ?thesis using assms(2) flush_sent [OF 1, of Z] False by (simp add: ends_in_defs)
  next
    case 2
    have "bev x" using assms(1) by (simp add: conn_ok_def)
    then show ?thesis using assms(2) flush_sends_close [OF 2(3) _ 2(2,1), of Z] False 2 by (auto simp: ends_in_defs)
  next
    case 3
    then have "\<forall>d. PClose d \<notin> set (send_queue x)" using assms(1) by (auto simp: conn_ok_def queue_ok_def)
    then show ?thesis using assms(2) flush_none [of x Z] False 3 by (auto simp: ends_in_defs)
  qed
qed

section \<open>Every operation keeps to the way\<close>

lemma ctx_close_ends_in:
  assumes "conn_ok is_open x" "ends_in b k (x\<lparr>wakeup_active := True\<rparr>)"
  shows "ends_in b k (snd (ctx_close True code reason x))"
proof -
  have live: "bev x" "base x" "close_sent x \<longrightarrow> closing x" using assms(1) by (simp_all add: conn_ok_def)
  have way: "wakeup_event x" "b \<longrightarrow> 0 < k \<and> \<not> close_received x" using ends_inD [OF assms(2)] by simp_all
  consider "closing x" | "\<not> closing x" "\<not> upgraded x" | "\<not> closing x" "upgraded x" "length (send_queue x) \<ge> MAX_QUEUE_SIZE"
    | "\<not> closing x" "upgraded x" "length (send_queue x) < MAX_QUEUE_SIZE" by linarith
  then show ?thesis
  proof cases
    case 1
    then show ?thesis using assms(2) by (auto simp: ctx_close_def ends_in_defs split: if_split_asm)
  next
    case 2
    then show ?thesis using way live exits [of "x\<lparr>connection_state := DISCONNECTED\<rparr>" b k]
      by (simp add: ctx_close_def closing_def)
  next
    case 3
    then show ?thesis using way live exits [of "x\<lparr>connection_state := DISCONNECTING\<rparr>" b k]
      by (simp add: ctx_close_def closing_def Let_def)
  next
    case 4
    then have "\<not> close_sent x" using live by simp
    then show ?thesis using 4 live assms(2) by (auto simp: ctx_close_def Let_def) (auto simp: ends_in_defs)
  qed
qed

lemma stopNow_ends_in:
  assumes "conn_ok is_open x" "ends_in b k (x\<lparr>wakeup_active := True\<rparr>)"
  shows "ends_in b k (stopNow x)"
proof -
  have live: "bev x" "base x" using assms(1) by (simp_all add: conn_ok_def)
  have way: "wakeup_event x" "b \<longrightarrow> 0 < k \<and> \<not> close_received x" using ends_inD [OF assms(2)] by simp_all
  have "ends_in b k x" if "closing x" using assms(2) that by (auto simp: ends_in_defs split: if_split_asm)
  then show ?thesis
    using way live exits [of "x\<lparr>connection_state := DISCONNECTED\<rparr>" b k] ctx_close_ends_in [OF assms, of 1000]
    by (simp add: stopNow_def closing_def Let_def)
qed

lemma handleEvent_ends_in:
  assumes "conn_ok is_open x" "ends_in b k x"
  shows "ends_in b k (handleEvent ev x)"
proof -
  have live: "base x" using assms(1) by (simp add: conn_ok_def)
  note way = ends_inD [OF assms(2)]
  have out: "ends_in b k (requestLoopExit True y)" if "base y = base x" "wakeup_event y = wakeup_event x"
    "close_received y = close_received x" for y
    using exits [of y b k] that live way by simp
  have same: "base (sendError c m y) = base y" "wakeup_event (sendError c m y) = wakeup_event y"
    "close_received (sendError c m y) = close_received y"
    "base (sendCloseCallback d m y) = base y" "wakeup_event (sendCloseCallback d m y) = wakeup_event y"
    "close_received (sendCloseCallback d m y) = close_received y" for c d m and y :: "'a ctx"
    by (simp_all add: sendError_def sendCloseCallback_def emit_def Let_def)
  have "ends_in b k (handleError ev x)" unfolding handleError_def Let_def by (auto intro!: out simp: same)
  moreover have "ends_in b k (handleTimeout x)" unfolding handleTimeout_def Let_def by (auto intro!: out simp: same)
  moreover have "ends_in b k (handleEof x)" unfolding handleEof_def Let_def by (auto intro!: out simp: same)
  moreover have "ends_in b k (sendHandshakeRequest x)" using assms(2) by (simp add: sendHandshakeRequest_def)
  then have "ends_in b k (handleConnected ev x)" unfolding handleConnected_def by (auto intro!: out simp: same)
  moreover have "ends_in b k (requestLoopExit True x)" by (rule out) simp_all
  ultimately show ?thesis using assms(2) by (simp add: handleEvent_def Let_def)
qed

lemma onRxClose_ends_in:
  assumes "rx_good x" "\<not> ctx_rxIsTerminating x" "ends_in b k x"
  shows "ends_in b k (ctx_onRxClose Z code reason x)"
proof -
  have "\<not> b" using assms(2,3) by (auto simp: ends_in_def ctx_rxIsTerminating_def)
  moreover have "wakeup_event x" using ends_inD [OF assms(3)] by simp
  moreover have "wakeup_event (snd (ctx_close True c reason y)) = wakeup_event y"
    "close_received (snd (ctx_close True c reason y)) = close_received y" for c and y :: "'a ctx"
    by (simp_all add: ctx_close_def requestLoopExit_def requestWakeup_def requestSendFlush_def Let_def)
  ultimately show ?thesis by (auto simp: ctx_onRxClose_def Let_def ends_in_def on_the_way_def sendCloseCallback_def emit_def)
qed

lemma onRxProtocolError_ends_in:
  assumes "rx_good x" "\<not> ctx_rxIsTerminating x" "ends_in b k x"
  shows "ends_in b k (ctx_onRxProtocolError code why x)"
proof -
  note live = rx_good_live [OF assms(1,2)]
  define x1 where "x1 = sendError PROTOCOL (protocol_msg code (ascii why)) (x\<lparr>protocol_failed := True\<rparr>)"
  obtain c y where y: "ctx_close True (uint code) (ascii why) x = (c, y)" by fastforce
  have "ends_in b k y"
    using ctx_close_ends_in [of True x b k "uint code" "ascii why"] y assms(1) ends_in_wakeup [OF assms(3)] by (simp add: rx_good_def)
  moreover have "sendError PROTOCOL (protocol_msg code (ascii why)) (x\<lparr>protocol_failed := True\<rparr>) =
      x\<lparr>protocol_failed := True, trace := trace x @ [OnError PROTOCOL (protocol_msg code (ascii why))]\<rparr>"
    using live by (simp add: sendError_def emit_def)
  moreover have "ends_in b k (z\<lparr>protocol_failed := c', trace := t\<rparr>) = ends_in b k z" for c' t and z :: "'a ctx"
    by (simp add: ends_in_defs)
  ultimately show ?thesis using live y by (simp add: ctx_onRxProtocolError_def Let_def ctx_close_failed)
qed

lemma opened_ends_in:
  assumes "conn_ok False x" "\<not> upgraded x" "ends_in b k x"
  shows "ends_in b k (ctx_opened Z x)"
proof -
  let ?y = "x\<lparr>upgraded := True, connection_state := CONNECTED\<rparr>"
  have early: "\<not> close_sent x" "\<not> close_received x" "\<forall>d. PClose d \<notin> set (send_queue x)"
    using assms(1,2) by (auto simp: conn_ok_def queue_ok_def)
  then have "ends_in b k ?y" using assms(3) by (auto simp: ends_in_defs split: if_split_asm)
  from flush_ends_in [OF upgrade_ok [OF assms(1,2)] this] show ?thesis by (simp add: ctx_opened_def Let_def)
qed

interpretation way: connection_property Z "ends_in b k"
proof (unfold_locales, goal_cases)
  case (15 is_open x type on_event raw)
  then show ?case by (auto simp: sendData_def enqueue_def ends_in_sendNow) (auto simp: ends_in_defs)
next
  case (1 x)
  then show ?case by (auto simp: ctx_stop_def requestWakeup_def ends_in_defs split: if_split_asm)
next
  case (2 is_open x ev)
  then show ?case by (simp add: handleEvent_ends_in)
next
  case (3 is_open x)
  then have "base x" by (simp add: conn_ok_def)
  then show ?case using 3(2) exits [of "sendError TIMEOUT (ascii ''Timeout'') x" b k] ends_inD [OF 3(2)]
    by (simp add: timeoutCallback_def) (simp add: sendError_def emit_def)
next
  case (4 is_open x)
  then show ?case by (simp add: pingCallback_def sendPing_def ends_in_sendNow)
next
  case (5 is_open x)
  then have "base x" by (simp add: conn_ok_def)
  moreover have "ends_in b k (x\<lparr>close_timer_armed := False\<rparr>)" if "close_received x"
    using 5(2) that by (auto simp: ends_in_defs)
  ultimately show ?case using ends_inD [OF 5(2)]
      exits [of "(sendCloseCallback 1000 (ascii ''Normal closure'') (x\<lparr>close_timer_armed := False\<rparr>))\<lparr>connection_state := DISCONNECTED\<rparr>" b k]
    by (auto simp: closeTimerCb_def) (simp_all add: sendCloseCallback_def emit_def Let_def)
next
  case (6 is_open x)
  have ok: "conn_ok is_open (x\<lparr>wakeup_active := False\<rparr>)" using 6(1) by simp
  have "ends_in b k (stopNow (x\<lparr>wakeup_active := False\<rparr>))"
    using stopNow_ends_in [OF ok] ends_in_wakeup [OF 6(2)] by simp
  moreover have "ends_in b k (flushSendQueue Z (x\<lparr>wakeup_active := False\<rparr>))" if "\<not> stop_requested x"
  proof (rule flush_ends_in [OF ok])
    show "ends_in b k (x\<lparr>wakeup_active := False\<rparr>)" using 6(2) that by (auto simp: ends_in_defs)
  qed
  ultimately show ?case using 6(1) by (simp add: wakeupCallback_def conn_ok_def)
next
  case (7 is_open x)
  then show ?case using flush_ends_in [of is_open "x\<lparr>send_active := False\<rparr>" b k Z] by (simp add: sendCallback_def)
next
  case (8 x m)
  then show ?case by simp
next
  case (9 x raw)
  then show ?case by (simp add: ctx_onRxPing_def)
next
  case (10 x code reason)
  then show ?case by (simp add: onRxClose_ends_in)
next
  case (11 x code why)
  then show ?case by (simp add: onRxProtocolError_ends_in)
next
  case (12 x)
  then have "base x" by (simp add: conn_ok_def)
  then show ?case using ends_inD [OF 12(2)]
      exits [of "sendError CONNECT_FAILED (ascii ''WebSocket upgrade failed'') (x\<lparr>connection_state := FAILED\<rparr>)" b k]
    by (simp add: ctx_refused_def) (simp add: sendError_def emit_def)
next
  case (13 w resp)
  then show ?case by (simp add: setupCompression_def Let_def split: option.split prod.split)
next
  case (14 x)
  then show ?case by (simp add: opened_ends_in)
qed

section \<open>Steps\<close>

text \<open>What the event thread does of its own accord.\<close>

inductive event_step :: "('d, 'i) ext \<Rightarrow> ('d, 'i) world \<Rightarrow> ('d, 'i) world \<Rightarrow> bool" for Z where
  own_close_timer: "\<not> dead w \<Longrightarrow> close_timer_armed (ctx w) \<Longrightarrow>
    event_step Z w (w\<lparr>ctx := closeTimerCb ((ctx w)\<lparr>close_timer_armed := False\<rparr>)\<rparr>)"
| own_wakeup: "\<not> dead w \<Longrightarrow> wakeup_active (ctx w) \<Longrightarrow>
    event_step Z w (w\<lparr>ctx := wakeupCallback Z ((ctx w)\<lparr>wakeup_active := False\<rparr>)\<rparr>)"
| own_send: "\<not> dead w \<Longrightarrow> send_active (ctx w) \<Longrightarrow>
    event_step Z w (w\<lparr>ctx := sendCallback Z ((ctx w)\<lparr>send_active := False\<rparr>)\<rparr>)"
| own_end: "\<not> dead w \<Longrightarrow> loop_exit (ctx w) \<Longrightarrow> event_step Z w (w\<lparr>ctx := run_end (ctx w), dead := True\<rparr>)"

inductive_cases event_stepE: "event_step Z w w'"

lemma event_step_ws: "event_step Z w w' \<Longrightarrow> ws_step Z w w'"
  by (erule event_stepE) (auto intro: ws_step.intros)

definition world_rank :: "('d, 'i) world \<Rightarrow> nat" where
  "world_rank w = (if dead w then 0 else stop_rank (ctx w))"

lemma stopNow_closes:
  assumes "conn_ok is_open x" "connection_state x \<in> {CONNECTING, CONNECTED}"
  shows "loop_exit (stopNow x) \<or> closing (stopNow x)"
proof -
  obtain c y where "ctx_close True 1000 (ascii ''Normal closure'') x = (c, y)" by fastforce
  then show ?thesis using assms(2) ctx_close_ok(3) [OF assms(1)]
    by (auto simp: stopNow_def Let_def closing_def requestLoopExit_def requestWakeup_def)
qed

text \<open>One of the callbacks of the event thread is always due.\<close>

lemma nearer:
  assumes ok: "conn_inv (ctx w)" "scheduled (ctx w)" "ends_in True k (ctx w)" and alive: "\<not> dead w"
  shows "\<exists>w'. event_step Z w w' \<and> world_rank w' < world_rank w"
proof -
  let ?x = "ctx w"
  have live: "base ?x" "bev ?x" using ok(1) by (simp_all add: conn_ok_def)
  have st: "stop_requested ?x" "\<not> close_received ?x" using ok(3) by (simp_all add: ends_in_def)
  consider "loop_exit ?x" | "\<not> loop_exit ?x" "close_sent ?x" "close_timer_armed ?x"
    | d where "\<not> loop_exit ?x" "\<not> close_sent ?x" "connection_state ?x = DISCONNECTING" "PClose d \<in> set (send_queue ?x)"
    | "\<not> loop_exit ?x" "\<not> close_sent ?x" "connection_state ?x \<in> {CONNECTING, CONNECTED}" "wakeup_active ?x"
    using ok(3) st by (auto simp: ends_in_defs split: if_split_asm)
  then show ?thesis
  proof cases
    case 1
    have "world_rank (w\<lparr>ctx := run_end ?x, dead := True\<rparr>) < world_rank w"
      using alive by (simp add: world_rank_def stop_rank_def)
    then show ?thesis using own_end [OF alive 1] by blast
  next
    case 2
    let ?w = "w\<lparr>ctx := closeTimerCb (?x\<lparr>close_timer_armed := False\<rparr>)\<rparr>"
    have "loop_exit (ctx ?w)" using st live
      by (simp add: closeTimerCb_def requestLoopExit_def sendCloseCallback_def emit_def Let_def)
    then have "world_rank ?w < world_rank w" using alive 2 by (simp add: world_rank_def stop_rank_def)
    then show ?thesis using own_close_timer [OF alive 2(3)] by blast
  next
    case 3
    let ?w = "w\<lparr>ctx := sendCallback Z (?x\<lparr>send_active := False\<rparr>)\<rparr>"
    have "upgraded ?x" using ok(1) 3(4) by (auto simp: conn_ok_def queue_ok_def)
    then have "send_active ?x" using ok(2) 3(4) by (auto simp: scheduled_def)
    then have step: "event_step Z w ?w" by (rule own_send [OF alive])
    have "close_sent (ctx ?w)" using flush_sends_close [of d "?x\<lparr>send_active := False\<rparr>" Z] 3 live by (simp add: sendCallback_def)
    then have "world_rank ?w < world_rank w" using alive 3 by (simp add: world_rank_def stop_rank_def closing_def)
    then show ?thesis using step by blast
  next
    case 4
    let ?y = "?x\<lparr>wakeup_active := False\<rparr>"
    let ?w = "w\<lparr>ctx := wakeupCallback Z ?y\<rparr>"
    have "ctx ?w = stopNow ?y" using st live by (simp add: wakeupCallback_def)
    moreover have "loop_exit (stopNow ?y) \<or> closing (stopNow ?y)"
      by (rule stopNow_closes [of "upgraded ?x"]) (use ok(1) 4(3) in simp_all)
    ultimately have "world_rank ?w < world_rank w" using alive 4 by (auto simp: world_rank_def stop_rank_def closing_def)
    then show ?thesis using own_wakeup [OF alive 4(4)] by blast
  qed
qed

section \<open>Lingering\<close>

text \<open>Everything that can happen while the transport reports nothing: no end of file, no error, no time-out
  of its own.\<close>

inductive silent_step :: "('d, 'i) ext \<Rightarrow> ('d, 'i) world \<Rightarrow> ('d, 'i) world \<Rightarrow> bool" for Z where
  silent_send: "type \<in> {TEXT, BINARY} \<Longrightarrow> (on_event \<longrightarrow> \<not> dead w) \<Longrightarrow>
    silent_step Z w (w\<lparr>ctx := snd (sendData Z on_event data type (ctx w))\<rparr>)"
| silent_stop: "silent_step Z w (w\<lparr>ctx := ctx_stop (ctx w)\<rparr>)"
| silent_bytes: "\<not> dead w \<Longrightarrow> silent_step Z w (handleRead Z (w\<lparr>input := input w @ bs\<rparr>))"
| silent_timeout: "\<not> dead w \<Longrightarrow> timeout_event (ctx w) \<Longrightarrow> silent_step Z w (w\<lparr>ctx := timeoutCallback (ctx w)\<rparr>)"
| silent_ping: "\<not> dead w \<Longrightarrow> ping_event (ctx w) \<Longrightarrow> silent_step Z w (w\<lparr>ctx := pingCallback Z (ctx w)\<rparr>)"
| silent_own: "event_step Z w w' \<Longrightarrow> silent_step Z w w'"

inductive_cases silent_stepE: "silent_step Z w w'"

lemma silent_step_ws: "silent_step Z w w' \<Longrightarrow> ws_step Z w w'"
  by (erule silent_stepE) (auto intro: ws_step.intros event_step_ws)

definition lingers :: "'d ctx \<Rightarrow> bool" where
  "lingers x \<longleftrightarrow> rx_good x \<and> connection_state x = DISCONNECTING \<and> close_received x \<and> close_sent x \<and> close_cb_fired x \<and>
     \<not> loop_exit x"

lemma flush_fold_fired: "close_cb_fired (fold (flushPending Z can) ps x) = close_cb_fired x"
proof (induction ps arbitrary: x)
  case (Cons p ps)
  have "close_cb_fired (ctx_send Z raw type y) = close_cb_fired y" for raw type and y :: "'a ctx"
    by (rule ctx_send_shape [of Z raw type y]) simp
  then have "close_cb_fired (flushPending Z can p x) = close_cb_fired x"
    by (cases p) (simp_all add: flushPending_def sendNow_def armCloseTimer_def)
  then show ?case using Cons by simp
qed simp

lemma flush_lingers:
  assumes "lingers x"
  shows "lingers (flushSendQueue Z x)"
proof -
  have "conn_ok True x" "close_sent x" using assms by (simp_all add: lingers_def rx_good_def)
  note ok = flushSendQueue_ok(1,2) [OF this(1), of Z] flush_sent [OF this(2), of Z]
  have "close_cb_fired (flushSendQueue Z x) = close_cb_fired x" unfolding flush_eq by (simp add: flush_fold_fired)
  then show ?thesis using assms ok by (simp add: lingers_def rx_good_def)
qed

lemma lingers_frame [simp]:
  "lingers (x\<lparr>wakeup_active := b\<rparr>) = lingers x" "lingers (x\<lparr>send_active := b\<rparr>) = lingers x"
  "lingers (x\<lparr>send_flush_pending := b\<rparr>) = lingers x" "lingers (x\<lparr>stop_requested := b\<rparr>) = lingers x"
  by (simp_all add: lingers_def rx_good_def)

lemma lingers_stays:
  assumes "lingers (ctx w)" "\<not> dead w" "silent_step Z w w'"
  shows "lingers (ctx w') \<and> \<not> dead w'"
proof -
  let ?x = "ctx w"
  have x: "connection_state ?x = DISCONNECTING" "close_received ?x" "close_sent ?x" "\<not> loop_exit ?x" "upgraded ?x" "conn_ok True ?x"
    "base ?x" using assms(1) by (auto simp: lingers_def rx_good_def conn_ok_def)
  from assms(3) show ?thesis
  proof cases
    case (silent_send type on_event data)
    have "lingers (snd (enqueue data type ?x))"
      using assms(1) by (auto simp: enqueue_def lingers_def rx_good_def conn_defs)
    then have "lingers (snd (sendData Z on_event data type ?x))"
      using assms(1) x(1) silent_send by (auto simp: sendData_def sendNow_def requestSendFlush_def split: prod.split bool.split)
    then show ?thesis using silent_send assms(2) by simp
  next
    case silent_stop
    then show ?thesis using assms(1,2) by (simp add: ctx_stop_def requestWakeup_def)
  next
    case (silent_bytes bs)
    have "handleRead Z (w\<lparr>input := input w @ bs\<rparr>) = w\<lparr>input := input w @ bs\<rparr>"
      using x by (simp add: handleRead_def world_onData_def onData.simps onData_step_def ctx_sinks_def ctx_rxIsTerminating_def)
    then show ?thesis using silent_bytes(1) assms(1,2) by simp
  next
    case silent_timeout
    then show ?thesis using x assms(1,2) by (simp add: timeoutCallback_def)
  next
    case silent_ping
    then show ?thesis using x assms(1,2) by (simp add: pingCallback_def sendPing_def sendNow_def)
  next
    case silent_own
    then show ?thesis
    proof cases
      case own_close_timer
      have "lingers (?x\<lparr>close_timer_armed := False\<rparr>)" using assms(1) by (simp add: lingers_def rx_good_def conn_defs)
      then show ?thesis using own_close_timer x assms(2) by (simp add: closeTimerCb_def)
    next
      case own_wakeup
      then show ?thesis using x assms flush_lingers [of "?x\<lparr>wakeup_active := False\<rparr>" Z]
        by (simp add: wakeupCallback_def stopNow_def)
    next
      case own_send
      then show ?thesis using x assms flush_lingers [of "?x\<lparr>send_active := False\<rparr>" Z] by (simp add: sendCallback_def)
    next
      case own_end
      then show ?thesis using x by simp
    qed
  qed
qed

interpretation lingering: transition_system "\<lambda>w. lingers (ctx w) \<and> \<not> dead w" "silent_step Z" "\<lambda>w. lingers (ctx w) \<and> \<not> dead w"
  by unfold_locales (use lingers_stays in blast)+

text \<open>A CLOSE frame of the server, where there is room for the answer.\<close>

lemma closed_lingers:
  assumes "rx_good x" "\<not> ctx_rxIsTerminating x" "\<not> loop_exit x" "length (send_queue x) < MAX_QUEUE_SIZE"
  shows "lingers (ctx_onRxClose Z code reason x)"
proof -
  note live = rx_good_live [OF assms(1,2)]
  obtain c y where y: "ctx_close True (uint code) reason x = (c, y)" by fastforce
  define payload where "payload = mem16 (htons (word_of_int (uint code))) @ take 123 reason"
  have "y = requestSendFlush (x\<lparr>connection_state := DISCONNECTING, send_queue := send_queue x @ [PClose payload]\<rparr>)"
    using y live assms(4) by (simp add: ctx_close_def Let_def payload_def split: prod.split_asm)
  moreover have "connection_state (requestSendFlush z) = connection_state z" "loop_exit (requestSendFlush z) = loop_exit z"
    "bev (requestSendFlush z) = bev z" "close_sent (requestSendFlush z) = close_sent z"
    "send_queue (requestSendFlush z) = send_queue z" for z :: "'a ctx"
    by (simp_all add: requestSendFlush_def)
  ultimately have fields: "connection_state y = DISCONNECTING" "loop_exit y = loop_exit x" "bev y" "close_sent y = close_sent x"
    "\<exists>d. PClose d \<in> set (send_queue y)"
    using live by auto
  then obtain d where "PClose d \<in> set (send_queue (y\<lparr>close_received := True\<rparr>))" by auto
  from flush_sends_close [OF this, of Z] have sent: "close_sent (flushSendQueue Z (y\<lparr>close_received := True\<rparr>))"
    using fields live by simp
  have eq: "ctx_onRxClose Z code reason x = sendCloseCallback (uint code) reason (flushSendQueue Z (y\<lparr>close_received := True\<rparr>))"
    using live y by (simp add: ctx_onRxClose_def Let_def ctx_close_received)
  have "rx_good (ctx_onRxClose Z code reason x)" by (rule close_ok(1) [OF assms(1,2)])
  then show ?thesis using fields sent assms(3) unfolding eq lingers_def
    by (simp add: sendCloseCallback_def emit_def Let_def)
qed

section \<open>Properties\<close>

text \<open>C10: \<open>stop\<close> comes to an end, whatever the server does: in every state of every run that was started
  before it was called and in which the server has not closed first, a callback of the event thread is due that brings the end of its
  loop nearer (four of them end it: wake up, send the CLOSE frame, wait for its timer, leave), and no step of
  the user, the server, the transport or a timer takes it farther away.\<close>

theorem stop_ends:
  assumes "reachable (\<lambda>w. ws_started w \<and> \<not> stop_requested (ctx w)) (ws_step Z) w" "\<not> dead w"
    "stop_requested (ctx w)" "\<not> close_received (ctx w)"
  shows "world_rank w \<le> 4 \<and> (\<exists>w'. event_step Z w w' \<and> world_rank w' < world_rank w) \<and>
    (\<forall>w'. ws_step Z w w' \<longrightarrow> world_rank w' \<le> world_rank w \<and>
       (dead w' \<or> stop_requested (ctx w') \<and> \<not> close_received (ctx w')))"
proof (intro conjI allI impI)
  let ?x = "ctx w" and ?k = "stop_rank (ctx w)"
  have "ends_in False 0 ?x"
    by (rule way.while_running [OF assms(1) _ assms(2)]) (auto simp: ends_in_defs ws_started_def)
  then have way: "ends_in True ?k ?x" using assms(3,4) by (simp add: ends_in_def)
  have sched: "scheduled ?x"
    by (rule flush.while_running [OF assms(1) _ assms(2)]) (auto simp: ws_started_def scheduled_def)
  have world: "world_ok w" by (rule ws.always, rule reachable_weaken [OF assms(1)]) simp
  then have ok: "conn_inv ?x" using assms(2) by (simp add: world_ok_def)
  show "world_rank w \<le> 4" by (simp add: world_rank_def stop_rank_def)
  show "\<exists>w'. event_step Z w w' \<and> world_rank w' < world_rank w" by (rule nearer [OF ok sched way assms(2)])
  fix w'
  assume step: "ws_step Z w w'"
  have next_way: "ends_in True ?k (ctx w')" if "\<not> dead w'" using way.by_step [OF world _ step that] way by blast
  then show "world_rank w' \<le> world_rank w" using assms(2) by (simp add: world_rank_def ends_in_def)
  show "dead w' \<or> stop_requested (ctx w') \<and> \<not> close_received (ctx w')" using next_way by (auto simp: ends_in_def)
qed

text \<open>A call to stop on an open connection.\<close>

theorem stop_ends_witness:
  "\<exists>w'. event_step stored_ext (demo_open\<lparr>ctx := ctx_stop (ctx demo_open)\<rparr>) w' \<and>
     world_rank w' < world_rank (demo_open\<lparr>ctx := ctx_stop (ctx demo_open)\<rparr>)"
proof -
  let ?R = "reachable (\<lambda>w. ws_started w \<and> \<not> stop_requested (ctx w)) (ws_step stored_ext)"
  have "\<not> stop_requested (ctx demo_world)" by (simp add: demo_defs ascii_Cons)
  then have start: "?R demo_world" using demo_started by (intro reachable_init) simp
  have "ws_step stored_ext demo_world demo_open"
    using bytes_arrive [of demo_world stored_ext demo_response] demo_started by (simp add: demo_open_def ws_started_def)
  from reachable_step [OF reachable_step [OF start this] api_stop] have "?R (demo_open\<lparr>ctx := ctx_stop (ctx demo_open)\<rparr>)" .
  moreover have "\<not> close_received (ctx demo_open)" "\<not> dead demo_open" by (simp_all add: demo_open_eq demo_defs ascii_Cons)
  ultimately show ?thesis
    using stop_ends [of stored_ext "demo_open\<lparr>ctx := ctx_stop (ctx demo_open)\<rparr>"]
    by (auto simp: ctx_stop_def requestWakeup_def)
qed

text \<open>C19: a server that closes first and then keeps the transport open is never left: once its CLOSE frame has
  been answered, which takes a queue that is not full, and reported, the timer of the closing handshake does nothing, and neither time nor the user
  ends the loop, \<open>stop\<close> included, which waits for it. Only an event of the transport can.\<close>

theorem stop_waits_for_server:
  assumes "reachable ws_started (ws_step Z) w" "\<not> dead w" "upgraded (ctx w)" "\<not> ctx_rxIsTerminating (ctx w)"
    "\<not> loop_exit (ctx w)" "length (send_queue (ctx w)) < 1024"
    "reachable (\<lambda>v. v = w\<lparr>ctx := handleCloseFrame (ctx_sinks Z) payload (ctx w)\<rparr>) (silent_step Z) w'"
  shows "\<not> dead w' \<and> \<not> loop_exit (ctx w') \<and> close_cb_fired (ctx w') \<and> connection_state (ctx w') = DISCONNECTING"
proof -
  have good: "rx_good (ctx w)" by (rule reachable_good [OF assms(1-3)])
  have start: "lingers (handleCloseFrame (ctx_sinks Z) payload (ctx w))"
    using closed_lingers [OF good assms(4,5), of Z] assms(6)
    by (simp add: handleCloseFrame_def ctx_sinks_def MAX_QUEUE_SIZE_def split: prod.split)
  have "lingers (ctx w') \<and> \<not> dead w'"
    by (rule lingering.always, rule reachable_weaken [OF assms(7)]) (use start assms(2) in simp)
  then show ?thesis by (simp add: lingers_def)
qed

theorem stop_waits_for_server_witness:
  "\<exists>w'. reachable (\<lambda>v. v = demo_open\<lparr>ctx := handleCloseFrame (ctx_sinks stored_ext) [] (ctx demo_open)\<rparr>)
       (silent_step stored_ext) w' \<and> stop_requested (ctx w') \<and> \<not> dead w' \<and> \<not> loop_exit (ctx w')"
proof -
  let ?w = "demo_open\<lparr>ctx := handleCloseFrame (ctx_sinks stored_ext) [] (ctx demo_open)\<rparr>"
  let ?R = "reachable (\<lambda>v. v = ?w) (silent_step stored_ext)"
  have "?R ?w" by (rule reachable_init) simp
  from reachable_step [OF this silent_stop] have stopped: "?R (?w\<lparr>ctx := ctx_stop (ctx ?w)\<rparr>)" .
  moreover have "stop_requested (ctx_stop (ctx ?w))" by (simp add: ctx_stop_def requestWakeup_def)
  moreover have "\<not> loop_exit (ctx demo_open)" by (simp add: demo_open_eq demo_defs ascii_Cons)
  ultimately show ?thesis
    using stop_waits_for_server [OF demo_open_reachable demo_open_fields(3,2,6) _ _ stopped] demo_open_fields
    by (intro exI [of _ "?w\<lparr>ctx := ctx_stop (ctx ?w)\<rparr>"]) simp
qed

end
