(* ===== verification/Loading.thy ===== *)
theory Loading
  imports Streamer
begin

text \<open>
  Loading and unloading of the module: the four event subclasses it reserves, the API command and its
  completions. The registries are FreeSWITCH's, reached through the operations the module calls.
\<close>

section \<open>The core\<close>

datatype switch_status = SWITCH_STATUS_SUCCESS | SWITCH_STATUS_TERM

record 's switch_core =
  switch_event_reserve_subclass :: "bytes \<Rightarrow> 's \<Rightarrow> bool \<times> 's"
  switch_event_free_subclass :: "bytes \<Rightarrow> 's \<Rightarrow> 's"
  switch_add_api :: "bytes \<Rightarrow> 's \<Rightarrow> 's"
  switch_console_set_complete :: "bytes \<Rightarrow> 's \<Rightarrow> 's"

text \<open>What the module relies on: a name can be reserved once until it is freed, and the other two calls leave
  the names alone.\<close>

definition core_doc :: "'s switch_core \<Rightarrow> ('s \<Rightarrow> bytes set) \<Rightarrow> bool" where
  "core_doc C taken \<longleftrightarrow>
     (\<forall>n s. case switch_event_reserve_subclass C n s of
        (ok, s') \<Rightarrow> (ok \<longleftrightarrow> n \<notin> taken s) \<and> taken s' = insert n (taken s)) \<and>
     (\<forall>n s. taken (switch_event_free_subclass C n s) = taken s - {n}) \<and>
     (\<forall>n s. taken (switch_add_api C n s) = taken s) \<and>
     (\<forall>n s. taken (switch_console_set_complete C n s) = taken s)"

section \<open>The module\<close>

text \<open>The calls joined by a short-circuit or: the first that fails ends them.\<close>

fun reserve_all :: "'s switch_core \<Rightarrow> bytes list \<Rightarrow> 's \<Rightarrow> bool \<times> 's" where
  "reserve_all C [] s = (True, s)"
| "reserve_all C (n # ns) s =
     (case switch_event_reserve_subclass C n s of (ok, s1) \<Rightarrow> if \<not> ok then (False, s1) else reserve_all C ns s1)"

definition completions :: "bytes list" where
  "completions =
     [ascii ''add uuid_ws_bridge ::console::list_uuid start ws-url metadata'',
      ascii ''add uuid_ws_bridge ::console::list_uuid start ws-url'',
      ascii ''add uuid_ws_bridge ::console::list_uuid stop'',
      ascii ''add uuid_ws_bridge ::console::list_uuid pause'',
      ascii ''add uuid_ws_bridge ::console::list_uuid resume'',
      ascii ''add uuid_ws_bridge ::console::list_uuid send_text'']"

definition mod_ws_bridge_load :: "'s switch_core \<Rightarrow> 's \<Rightarrow> switch_status \<times> 's" where
  "mod_ws_bridge_load C s =
     (case reserve_all C [EVENT_JSON, EVENT_CONNECT, EVENT_ERROR, EVENT_DISCONNECT] s of
        (False, s1) \<Rightarrow> (SWITCH_STATUS_TERM, s1)
      | (True, s1) \<Rightarrow>
          (SWITCH_STATUS_SUCCESS,
           fold (switch_console_set_complete C) completions (switch_add_api C (ascii ''uuid_ws_bridge'') s1)))"

definition mod_ws_bridge_shutdown :: "'s switch_core \<Rightarrow> 's \<Rightarrow> switch_status \<times> 's" where
  "mod_ws_bridge_shutdown C s =
     (SWITCH_STATUS_SUCCESS,
      fold (switch_event_free_subclass C) [EVENT_JSON, EVENT_CONNECT, EVENT_DISCONNECT, EVENT_ERROR] s)"

section \<open>Lemmas\<close>

definition our_events :: "bytes set" where
  "our_events = {EVENT_JSON, EVENT_CONNECT, EVENT_ERROR, EVENT_DISCONNECT}"

lemma core_docD:
  assumes "core_doc C taken" "switch_event_reserve_subclass C n s = (ok, s')"
  shows "ok \<longleftrightarrow> n \<notin> taken s" "taken s' = insert n (taken s)"
  using assms unfolding core_doc_def by (metis (mono_tags, lifting) case_prod_conv)+

text \<open>The names are reserved up to and including the first that is taken.\<close>

lemma reserve_all_taken:
  assumes "core_doc C taken" "reserve_all C ns s = (ok, s')" "distinct ns"
  shows "(ok \<longleftrightarrow> set ns \<inter> taken s = {}) \<and> taken s' = taken s \<union> set (takeWhile (\<lambda>n. n \<notin> taken s) ns)"
  using assms(2,3)
proof (induction ns arbitrary: s)
  case (Cons n ns)
  obtain b s1 where r: "switch_event_reserve_subclass C n s = (b, s1)" by fastforce
  note doc = core_docD [OF assms(1) r]
  show ?case
  proof (cases "n \<in> taken s")
    case False
    then have "reserve_all C ns s1 = (ok, s')" using Cons.prems(1) r doc(1) by simp
    from Cons.IH [OF this] have ih: "(ok \<longleftrightarrow> set ns \<inter> taken s1 = {}) \<and>
        taken s' = taken s1 \<union> set (takeWhile (\<lambda>m. m \<notin> taken s1) ns)" using Cons.prems(2) by simp
    have "takeWhile (\<lambda>m. m \<notin> taken s1) ns = takeWhile (\<lambda>m. m \<notin> taken s) ns"
      using Cons.prems(2) by (intro takeWhile_cong) (auto simp: doc(2))
    then show ?thesis using ih Cons.prems(2) False by (auto simp: doc(2))
  qed (use Cons.prems r doc in auto)
qed simp

lemma completions_taken: "core_doc C taken \<Longrightarrow> taken (fold (switch_console_set_complete C) cs s) = taken s"
  by (induction cs arbitrary: s) (simp_all add: core_doc_def)

lemma frees_taken: "core_doc C taken \<Longrightarrow> taken (fold (switch_event_free_subclass C) ns s) = taken s - set ns"
  by (induction ns arbitrary: s) (auto simp: core_doc_def)

lemma load_taken:
  assumes "core_doc C taken"
  shows "mod_ws_bridge_load C s = (st, s') \<Longrightarrow>
    (st = SWITCH_STATUS_SUCCESS \<longleftrightarrow> our_events \<inter> taken s = {}) \<and>
    taken s' = taken s \<union> set (takeWhile (\<lambda>n. n \<notin> taken s) [EVENT_JSON, EVENT_CONNECT, EVENT_ERROR, EVENT_DISCONNECT])"
proof -
  let ?ns = "[EVENT_JSON, EVENT_CONNECT, EVENT_ERROR, EVENT_DISCONNECT]"
  assume load: "mod_ws_bridge_load C s = (st, s')"
  obtain ok s1 where r: "reserve_all C ?ns s = (ok, s1)" by fastforce
  have "distinct ?ns" by (simp add: not_sym [OF event_names(1)] not_sym [OF event_names(2)] not_sym [OF event_names(3)]
        not_sym [OF event_names(4)] not_sym [OF event_names(5)] not_sym [OF event_names(6)])
  note names = reserve_all_taken [OF assms r this]
  have "set ?ns = our_events" by (auto simp: our_events_def)
  moreover have "taken s' = taken s1"
    using load r assms completions_taken [OF assms] by (cases ok) (auto simp: mod_ws_bridge_load_def core_doc_def)
  moreover have "st = SWITCH_STATUS_SUCCESS \<longleftrightarrow> ok" using load r by (cases ok) (auto simp: mod_ws_bridge_load_def)
  ultimately show ?thesis using names by simp
qed

section \<open>Properties\<close>

text \<open>A load that succeeds holds the four names, and the shutdown gives them back: names that others
  reserved are untouched.\<close>

theorem load_shutdown_restores:
  assumes "core_doc C taken" "mod_ws_bridge_load C s = (SWITCH_STATUS_SUCCESS, s1)" "mod_ws_bridge_shutdown C s1 = (st, s2)"
  shows "taken s1 = taken s \<union> our_events \<and> taken s2 = taken s"
proof -
  note names = load_taken [OF assms(1,2)]
  then have none: "our_events \<inter> taken s = {}" by simp
  then have "taken s1 = taken s \<union> our_events" using names by (auto simp: our_events_def)
  moreover have "taken s2 = taken s1 - our_events"
    using assms(3) frees_taken [OF assms(1), of "[EVENT_JSON, EVENT_CONNECT, EVENT_DISCONNECT, EVENT_ERROR]" s1]
    by (auto simp: mod_ws_bridge_shutdown_def our_events_def simp del: fold_simps)
  ultimately show ?thesis using none by auto
qed

text \<open>A load that fails frees nothing: it keeps what it has reserved up to that point. When it fails
  for any name but the first, the next load fails too, also after the name it failed for has been freed.\<close>

theorem failed_load_sticks:
  assumes "core_doc C taken" "mod_ws_bridge_load C s = (SWITCH_STATUS_TERM, s1)" "EVENT_JSON \<notin> taken s"
    "mod_ws_bridge_load C (switch_event_free_subclass C n s1) = (st, s2)" "n \<in> taken s"
  shows "EVENT_JSON \<in> taken s1 \<and> st = SWITCH_STATUS_TERM"
proof -
  have held: "EVENT_JSON \<in> taken s1" using load_taken [OF assms(1,2)] assms(3) by simp
  have "taken (switch_event_free_subclass C n s1) = taken s1 - {n}" using assms(1) by (simp add: core_doc_def)
  then have "EVENT_JSON \<in> taken (switch_event_free_subclass C n s1)" using held assms(3,5) by auto
  then have "our_events \<inter> taken (switch_event_free_subclass C n s1) \<noteq> {}" by (auto simp: our_events_def)
  then have "st \<noteq> SWITCH_STATUS_SUCCESS" using load_taken [OF assms(1,4)] by simp
  then show ?thesis using held by (cases st) simp_all
qed

text \<open>A registry as the list of the names.\<close>

definition list_core :: "bytes list switch_core" where
  "list_core = \<lparr>switch_event_reserve_subclass = (\<lambda>n s. if n \<in> set s then (False, s) else (True, n # s)),
     switch_event_free_subclass = removeAll, switch_add_api = (\<lambda>n s. s), switch_console_set_complete = (\<lambda>n s. s)\<rparr>"

lemma list_core_doc: "core_doc list_core set"
  by (auto simp: core_doc_def list_core_def)

theorem failed_load_sticks_witness:
  "\<exists>s1 s2. mod_ws_bridge_load list_core [EVENT_DISCONNECT] = (SWITCH_STATUS_TERM, s1) \<and> EVENT_JSON \<in> set s1 \<and>
     mod_ws_bridge_load list_core (removeAll EVENT_DISCONNECT s1) = (SWITCH_STATUS_TERM, s2)"
proof -
  obtain st s1 where load: "mod_ws_bridge_load list_core [EVENT_DISCONNECT] = (st, s1)" by fastforce
  then have "st \<noteq> SWITCH_STATUS_SUCCESS" using load_taken [OF list_core_doc load] by (auto simp: our_events_def)
  then have st: "st = SWITCH_STATUS_TERM" by (cases st) simp_all
  obtain st2 s2 where again: "mod_ws_bridge_load list_core (removeAll EVENT_DISCONNECT s1) = (st2, s2)" by fastforce
  then have "mod_ws_bridge_load list_core (switch_event_free_subclass list_core EVENT_DISCONNECT s1) = (st2, s2)"
    by (simp add: list_core_def)
  from failed_load_sticks [OF list_core_doc load [unfolded st] _ this] show ?thesis
    using load st again not_sym [OF event_names(5)] by simp
qed

end
