(* ===== verification/Logger.thy ===== *)
theory Logger
  imports Text
begin

text \<open>
  Logger.h: the two log macros of the library, to the console or to syslog. What snprintf makes of a format
  and its arguments is given; the cut to the buffer, the time stamp and the choice of the destination are not.
\<close>

section \<open>Time stamps\<close>

text \<open>The broken-down local time. The year counts from 1900, the month from 0.\<close>

record tm =
  tm_year :: nat
  tm_mon :: nat
  tm_mday :: nat
  tm_hour :: nat
  tm_min :: nat
  tm_sec :: nat

definition pad :: "nat \<Rightarrow> nat \<Rightarrow> bytes" where
  "pad k n = replicate (k - length (nat_digits n)) 0x30 @ nat_digits n"

definition date_time :: "tm \<Rightarrow> bytes" where
  "date_time t =
     pad 4 (tm_year t + 1900) @ ascii ''-'' @ pad 2 (tm_mon t + 1) @ ascii ''-'' @ pad 2 (tm_mday t) @ ascii '' '' @
     pad 2 (tm_hour t) @ ascii '':'' @ pad 2 (tm_min t) @ ascii '':'' @ pad 2 (tm_sec t)"

text \<open>A formatted string in a buffer of \<open>len\<close> bytes, the last of which is the terminator.\<close>

definition snprintf :: "nat \<Rightarrow> bytes \<Rightarrow> bytes" where
  "snprintf len s = take (len - 1) s"

text \<open>\<open>strftime\<close> writes all or, as far as the caller may rely on it, nothing.\<close>

definition current_timestamp :: "nat \<Rightarrow> tm \<Rightarrow> nat \<Rightarrow> bytes" where
  "current_timestamp len t tv_usec =
     (let buf = (if length (date_time t) < len then date_time t else []);
          ms = tv_usec div 1000;
          sl = length buf
      in buf @ snprintf (len - sl) (ascii ''.'' @ pad 3 ms))"

section \<open>Destinations\<close>

datatype log_level = LogDebug | LogError

datatype log_output = Openlog | Syslog log_level bytes | Console log_level bytes

record logger =
  initialized :: bool
  use_syslog :: bool
  log_out :: "log_output list"

definition no_logger :: logger where
  "no_logger = \<lparr>initialized = False, use_syslog = False, log_out = []\<rparr>"

text \<open>What a call sees of its surroundings: is standard output a terminal, and the time.\<close>

record log_env =
  is_tty :: bool
  now :: tm
  usec :: nat

definition logger_use_syslog :: "log_env \<Rightarrow> logger \<Rightarrow> bool \<times> logger" where
  "logger_use_syslog E l =
     (if initialized l then (use_syslog l, l)
      else
        (let l1 = l\<lparr>initialized := True, use_syslog := \<not> is_tty E\<rparr>;
             l2 = (if use_syslog l1 then l1\<lparr>log_out := log_out l1 @ [Openlog]\<rparr> else l1)
         in (use_syslog l2, l2)))"

definition level_name :: "log_level \<Rightarrow> bytes" where
  "level_name lv = (case lv of LogDebug \<Rightarrow> ascii ''DEBUG'' | LogError \<Rightarrow> ascii ''ERROR'')"

text \<open>\<open>log_debug_impl\<close> and \<open>log_error_impl\<close>; the first is empty without \<open>LIBWSC_USE_DEBUG\<close>.\<close>

definition log_impl :: "bool \<Rightarrow> log_level \<Rightarrow> log_env \<Rightarrow> bytes \<Rightarrow> logger \<Rightarrow> logger" where
  "log_impl debug lv E message l =
     (if lv = LogDebug \<and> \<not> debug then l
      else
        (let ts = current_timestamp 32 (now E) (usec E) in
         case logger_use_syslog E l of
           (True, l1) \<Rightarrow> l1\<lparr>log_out := log_out l1 @ [Syslog lv message]\<rparr>
         | (False, l1) \<Rightarrow>
             l1\<lparr>log_out := log_out l1 @
               [Console lv (ascii ''['' @ level_name lv @ ascii '' '' @ ts @ ascii ''] '' @ message @ [0x0A])]\<rparr>))"

text \<open>The macros. A call without arguments passes its string on; one with arguments formats into 256 bytes.\<close>

datatype log_text = Plain bytes | Formatted bytes

definition log_fmt_impl :: "bool \<Rightarrow> log_level \<Rightarrow> log_env \<Rightarrow> log_text \<Rightarrow> logger \<Rightarrow> logger" where
  "log_fmt_impl debug lv E msg l =
     (case msg of
        Plain s \<Rightarrow> log_impl debug lv E s l
      | Formatted s \<Rightarrow> log_impl debug lv E (snprintf 256 s) l)"

fun log_all :: "bool \<Rightarrow> (log_level \<times> log_env \<times> log_text) list \<Rightarrow> logger \<Rightarrow> logger" where
  "log_all debug [] l = l"
| "log_all debug ((lv, E, msg) # calls) l =
     log_all debug calls (if lv = LogDebug \<and> \<not> debug then l else log_fmt_impl debug lv E msg l)"

section \<open>Lemmas\<close>

lemma nat_digits_length: "n < 10 ^ k \<Longrightarrow> 0 < k \<Longrightarrow> length (nat_digits n) \<le> k"
proof (induction k arbitrary: n)
  case (Suc k)
  show ?case
  proof (cases "n < 10")
    case True
    then show ?thesis by (simp add: nat_digits.simps [of n])
  next
    case False
    then have "n div 10 < 10 ^ k" using Suc.prems by (simp add: less_mult_imp_div_less mult.commute)
    moreover have "0 < k" using False Suc.prems by (cases k) simp_all
    ultimately have "length (nat_digits (n div 10)) \<le> k" by (rule Suc.IH)
    then show ?thesis using False by (simp add: nat_digits.simps [of n])
  qed
qed simp

lemma pad_length: "n < 10 ^ k \<Longrightarrow> 0 < k \<Longrightarrow> length (pad k n) = k"
  using nat_digits_length [of n k] by (simp add: pad_def)

text \<open>A time that localtime_r can return before the year 10000, with the microseconds of gettimeofday.\<close>

definition proper_time :: "log_env \<Rightarrow> bool" where
  "proper_time E \<longleftrightarrow> tm_year (now E) + 1900 < 10000 \<and> tm_mon (now E) < 12 \<and> tm_mday (now E) \<le> 31 \<and>
     tm_hour (now E) < 24 \<and> tm_min (now E) < 60 \<and> tm_sec (now E) \<le> 60 \<and> usec E < 1000000"

lemma date_time_length:
  assumes "proper_time E"
  shows "length (date_time (now E)) = 19"
proof -
  have "length (pad 4 (tm_year (now E) + 1900)) = 4" "length (pad 2 (tm_mon (now E) + 1)) = 2" "length (pad 2 (tm_mday (now E))) = 2"
    "length (pad 2 (tm_hour (now E))) = 2" "length (pad 2 (tm_min (now E))) = 2" "length (pad 2 (tm_sec (now E))) = 2"
    by (rule pad_length; use assms in \<open>simp add: proper_time_def\<close>)+
  then show ?thesis by (simp add: date_time_def ascii_def)
qed

lemma timestamp_whole:
  assumes "proper_time E"
  shows "current_timestamp 32 (now E) (usec E) = date_time (now E) @ ascii ''.'' @ pad 3 (usec E div 1000)"
    "length (current_timestamp 32 (now E) (usec E)) = 23"
proof -
  have "length (pad 3 (usec E div 1000)) = 3" by (rule pad_length) (use assms in \<open>auto simp: proper_time_def less_mult_imp_div_less\<close>)
  then show "current_timestamp 32 (now E) (usec E) = date_time (now E) @ ascii ''.'' @ pad 3 (usec E div 1000)"
    "length (current_timestamp 32 (now E) (usec E)) = 23"
    using date_time_length [OF assms] by (simp_all add: current_timestamp_def snprintf_def ascii_def)
qed

text \<open>What of a message is written, and the line it becomes at either destination.\<close>

definition text_of :: "log_text \<Rightarrow> bytes" where
  "text_of msg = (case msg of Plain s \<Rightarrow> s | Formatted s \<Rightarrow> take 255 s)"

fun log_line :: "bool \<Rightarrow> log_level \<times> log_env \<times> log_text \<Rightarrow> log_output" where
  "log_line syslog (lv, E, msg) =
     (if syslog then Syslog lv (text_of msg)
      else Console lv (ascii ''['' @ level_name lv @ ascii '' '' @ date_time (now E) @ ascii ''.'' @ pad 3 (usec E div 1000) @
             ascii ''] '' @ text_of msg @ [0x0A]))"

text \<open>The calls that the build does not leave out.\<close>

definition logged :: "bool \<Rightarrow> (log_level \<times> log_env \<times> log_text) list \<Rightarrow> (log_level \<times> log_env \<times> log_text) list" where
  "logged debug calls = filter (\<lambda>c. fst c = LogDebug \<longrightarrow> debug) calls"

lemma log_fmt_impl_line:
  assumes "lv = LogDebug \<longrightarrow> debug" "proper_time E"
  shows "log_fmt_impl debug lv E msg l =
    (case logger_use_syslog E l of (b, l1) \<Rightarrow> l1\<lparr>log_out := log_out l1 @ [log_line b (lv, E, msg)]\<rparr>)"
  using assms timestamp_whole(1) [OF assms(2)]
  by (cases msg) (auto simp: log_fmt_impl_def log_impl_def text_of_def snprintf_def split: prod.split bool.split)

lemma log_all_initialized:
  assumes "initialized l" "\<forall>c \<in> set calls. proper_time (fst (snd c))"
  shows "log_out (log_all debug calls l) =
    log_out l @ map (log_line (use_syslog l)) (logged debug calls)"
  using assms unfolding logged_def
proof (induction calls arbitrary: l)
  case (Cons c calls)
  obtain lv E msg where c: "c = (lv, E, msg)" by (metis prod_cases3)
  then have "log_fmt_impl debug lv E msg l = l\<lparr>log_out := log_out l @ [log_line (use_syslog l) c]\<rparr>" if "lv = LogDebug \<longrightarrow> debug"
    using log_fmt_impl_line [OF that] Cons.prems by (simp add: logger_use_syslog_def)
  then show ?case using Cons c by auto
qed simp

section \<open>Properties\<close>

text \<open>Every message that the build does not leave out is written once and in order, with its first 255
  bytes at least, all of them to the same destination, which the first message chooses: with a terminal the
  console, with the whole time stamp; without one syslog, opened once before the first message.\<close>

theorem log_delivers:
  assumes "\<forall>c \<in> set calls. proper_time (fst (snd c))"
  shows "log_out (log_all debug calls no_logger) =
    (if logged debug calls = [] then []
     else if is_tty (fst (snd (hd (logged debug calls)))) then map (log_line False) (logged debug calls)
     else Openlog # map (log_line True) (logged debug calls))"
  using assms
proof (induction calls)
  case (Cons c calls)
  obtain lv E msg where c: "c = (lv, E, msg)" by (metis prod_cases3)
  show ?case
  proof (cases "lv = LogDebug \<longrightarrow> debug")
    case True
    have proper: "proper_time E" "\<forall>c \<in> set calls. proper_time (fst (snd c))" using Cons.prems c by simp_all
    define l1 where "l1 = log_fmt_impl debug lv E msg no_logger"
    have l1: "initialized l1" "use_syslog l1 = (\<not> is_tty E)"
      "log_out l1 = (if is_tty E then [] else [Openlog]) @ [log_line (\<not> is_tty E) c]"
      unfolding l1_def log_fmt_impl_line [OF True proper(1)] by (simp_all add: logger_use_syslog_def no_logger_def c Let_def)
    have "log_all debug (c # calls) no_logger = log_all debug calls l1" using True by (auto simp: c l1_def)
    then show ?thesis using log_all_initialized [OF l1(1) proper(2), of debug] l1(2,3) True c
      by (auto simp: logged_def)
  qed (use Cons c in \<open>auto simp: logged_def\<close>)
qed (simp add: no_logger_def logged_def)

theorem log_delivers_witness:
  "log_out (log_all False
      [(LogDebug, \<lparr>is_tty = True, now = \<lparr>tm_year = 125, tm_mon = 0, tm_mday = 2, tm_hour = 3, tm_min = 4, tm_sec = 5\<rparr>, usec = 6000\<rparr>, Plain [0x61]),
       (LogError, \<lparr>is_tty = False, now = \<lparr>tm_year = 125, tm_mon = 0, tm_mday = 2, tm_hour = 3, tm_min = 4, tm_sec = 6\<rparr>, usec = 0\<rparr>, Formatted [0x62])]
      no_logger) = [Openlog, Syslog LogError [0x62]]"
  using log_delivers [of "[(LogDebug, \<lparr>is_tty = True, now = \<lparr>tm_year = 125, tm_mon = 0, tm_mday = 2, tm_hour = 3, tm_min = 4, tm_sec = 5\<rparr>, usec = 6000\<rparr>, Plain [0x61]),
       (LogError, \<lparr>is_tty = False, now = \<lparr>tm_year = 125, tm_mon = 0, tm_mday = 2, tm_hour = 3, tm_min = 4, tm_sec = 6\<rparr>, usec = 0\<rparr>, Formatted [0x62])]" False]
  by (simp add: proper_time_def text_of_def logged_def)

end
