(* ===== verification/Resampled.thy ===== *)
theory Resampled
  imports Playback
begin

text \<open>
  The downlink of a call whose rate is not the rate of the stream: between the audio received and the frames for the caller
  stands the resampler, which is fed with pieces of at most 4096 bytes. The specification cuts the audio into such
  pieces and concatenates what the resampler makes of them.
\<close>

section \<open>The specification\<close>

text \<open>A piece through the resampler, and a list of pieces with the state handed on.\<close>

definition piece_out :: "('b, 'r) sw \<Rightarrow> nat \<Rightarrow> u32 \<Rightarrow> int \<Rightarrow> bytes \<Rightarrow> 'r \<Rightarrow> bytes \<times> 'r" where
  "piece_out W ch rate smp p r =
     spx_process W ch p (length p div (ch * 2)) ((length p div (ch * 2) * unat rate div nat smp + 64) mod 2 ^ 32) r"

fun resampled :: "('b, 'r) sw \<Rightarrow> nat \<Rightarrow> u32 \<Rightarrow> int \<Rightarrow> bytes list \<Rightarrow> 'r \<Rightarrow> bytes \<times> 'r" where
  "resampled W ch rate smp [] r = ([], r)"
| "resampled W ch rate smp (p # ps) r =
     (case piece_out W ch rate smp p r of (out, r1) \<Rightarrow> apfst ((@) out) (resampled W ch rate smp ps r1))"

lemma resampled_append:
  "resampled W ch rate smp (ps @ qs) r =
     (case resampled W ch rate smp ps r of (out, r1) \<Rightarrow> apfst ((@) out) (resampled W ch rate smp qs r1))"
  by (induction ps arbitrary: r) (auto simp: apfst_def map_prod_def case_prod_beta)

text \<open>The pieces a piece of audio is cut into: as the loop reads them, in its order, none of them empty.\<close>

definition pieces :: "bytes list \<Rightarrow> bool" where
  "pieces ps \<longleftrightarrow> (\<forall>p \<in> set ps. p \<noteq> [] \<and> length p \<le> 4096)"

text \<open>A whole number of samples for each of a number of channels that divides 2048.\<close>

definition whole :: "nat \<Rightarrow> bytes \<Rightarrow> bool" where
  "whole ch p \<longleftrightarrow> ch * 2 dvd 4096 \<and> ch * 2 dvd length p"

lemma whole_take_drop:
  assumes "whole ch a"
  shows "whole ch (take (min 4096 (length a)) a) \<and> whole ch (drop (min 4096 (length a)) a)"
  using assms by (auto simp: whole_def min_def dvd_diff_nat)

text \<open>What a piece of 4096 bytes can become at most.\<close>

definition piece_room :: "nat \<Rightarrow> u32 \<Rightarrow> int \<Rightarrow> nat" where
  "piece_room ch rate smp = (4096 div (ch * 2) * unat rate div nat smp + 64) * ch * 2"

lemma piece_out_room:
  assumes "speex_doc W" "length p \<le> 4096"
  shows "length (fst (piece_out W ch rate smp p r)) \<le> piece_room ch rate smp"
proof -
  have "length p div (ch * 2) * unat rate div nat smp + 64 \<le> 4096 div (ch * 2) * unat rate div nat smp + 64"
    using assms(2) by (intro add_right_mono div_le_mono mult_right_mono) simp_all
  then have "(length p div (ch * 2) * unat rate div nat smp + 64) mod 2 ^ 32 \<le> 4096 div (ch * 2) * unat rate div nat smp + 64"
    by (rule order_trans [OF mod_less_eq_dividend])
  then have "(length p div (ch * 2) * unat rate div nat smp + 64) mod 2 ^ 32 * ch * 2 \<le> piece_room ch rate smp"
    unfolding piece_room_def by (intro mult_right_mono) simp_all
  with assms(1) show ?thesis unfolding speex_doc_def piece_out_def by (meson order_trans)
qed

text \<open>What comes out for each frame: the audio it is replaced by, or nothing.\<close>

definition put :: "switch_frame \<Rightarrow> bytes option \<Rightarrow> switch_frame" where
  "put fr out = (case out of None \<Rightarrow> fr | Some a \<Rightarrow> fr\<lparr>fr_data := a\<rparr>)"

fun frames_of :: "dl_op list \<Rightarrow> switch_frame list" where
  "frames_of [] = []"
| "frames_of (Audio data # ops) = frames_of ops"
| "frames_of (Frame fr # ops) = fr # frames_of ops"

definition played :: "bytes option list \<Rightarrow> bytes" where
  "played outs = concat (map (case_option [] id) outs)"

lemma played_simps [simp]: "played [] = []" "played (outs @ [None]) = played outs" "played (outs @ [Some a]) = played outs @ a"
  by (simp_all add: played_def)

lemma frames_of_append [simp]: "frames_of (xs @ ys) = frames_of xs @ frames_of ys"
  by (induction xs rule: frames_of.induct) simp_all

lemma audio_bytes_append [simp]: "audio_bytes (xs @ ys) = audio_bytes xs @ audio_bytes ys"
  by (induction xs rule: audio_bytes.induct) simp_all

lemma dl_run_append:
  "dl_run W (xs @ ys) t =
     (case dl_run W xs t of Inl f \<Rightarrow> Inl f
      | Inr (t1, frs) \<Rightarrow> (case dl_run W ys t1 of Inl f \<Rightarrow> Inl f | Inr (t2, frs') \<Rightarrow> Inr (t2, frs @ frs')))"
  by (induction xs arbitrary: t rule: frames_of.induct) (auto split: sum.splits prod.splits)

section \<open>The loop\<close>

lemma stash_in_resampled:
  assumes doc: "buffer_doc W content cap" and out: "piece_out W ch rate smp inb r = (out, r1)"
    and room: "length (content stash) + length out \<le> cap stash"
  obtains stash1 where "stash_in W ch rate smp inb stash (Some r) = (stash1, Some r1)"
    "content stash1 = content stash @ out" "cap stash1 = cap stash"
proof -
  note d = buffer_docD [OF doc]
  have free: "length out \<le> buf_freespace W stash" using room d(2) [of stash] by simp
  have "stash_in W ch rate smp inb stash (Some r) = (if out \<noteq> [] then buf_write W out stash else stash, Some r1)"
    using out free by (simp add: stash_in_def piece_out_def Let_def)
  then show ?thesis using that d(7) [OF room] d(8) by (cases "out = []") auto
qed

lemma top_up_resampled:
  assumes doc: "buffer_doc W content cap" and spx: "speex_doc W" and room: "need + piece_room ch rate smp \<le> cap stash"
  shows "\<exists>play' stash' ps. top_up W ch rate smp need play stash (Some r) =
      Some (play', stash', Some (snd (resampled W ch rate smp ps r))) \<and>
    pieces ps \<and> concat ps @ content play' = content play \<and>
    content stash' = content stash @ fst (resampled W ch rate smp ps r) \<and>
    cap stash' = cap stash \<and> cap play' = cap play \<and> (need \<le> length (content stash') \<or> content play' = []) \<and>
    (whole ch (content play) \<longrightarrow> list_all (whole ch) ps \<and> whole ch (content play'))"
  using room
proof (induction "length (content play)" arbitrary: play stash r rule: less_induct)
  case less
  note d = buffer_docD [OF doc]
  show ?case
  proof (cases "\<not> buf_inuse W stash < need \<or> buf_inuse W play = 0")
    case True
    then have "top_up W ch rate smp need play stash (Some r) = Some (play, stash, Some r)"
      by (subst top_up.simps) simp
    moreover have "need \<le> length (content stash) \<or> content play = []" using True d(1) by auto
    ultimately show ?thesis
      by (intro exI [of _ play] exI [of _ stash] exI [of _ "[]"]) (simp add: pieces_def)
  next
    case False
    define n where "n = min 4096 (length (content play))"
    define inb where "inb = fst (buf_read W n play)"
    define play1 where "play1 = snd (buf_read W n play)"
    have inb: "inb = take n (content play)" "length inb = n" "inb \<noteq> []" "n \<le> 4096"
      using False d(1,4) by (auto simp: inb_def n_def)
    have play1: "content play1 = drop n (content play)" "cap play1 = cap play" using d(5,6) by (simp_all add: play1_def)
    obtain out r1 where out: "piece_out W ch rate smp inb r = (out, r1)" by (cases "piece_out W ch rate smp inb r")
    have "length out \<le> piece_room ch rate smp"
      using piece_out_room [OF spx, of inb ch rate smp r] out inb(2,4) by simp
    then have "length (content stash) + length out \<le> cap stash" using less.prems False d(1) [of stash] by simp
    from stash_in_resampled [OF doc out this] obtain stash1 where
      s: "stash_in W ch rate smp inb stash (Some r) = (stash1, Some r1)"
      "content stash1 = content stash @ out" "cap stash1 = cap stash" .
    have "min 4096 (buf_inuse W play) = n" using d(1) by (simp add: n_def)
    then have step: "top_up W ch rate smp need play stash (Some r) =
        (if n < 4096 then Some (play1, stash1, Some r1) else top_up W ch rate smp need play1 stash1 (Some r1))"
      using inb(2,3) s(1) by (subst top_up.simps) (simp only: if_not_P [OF False] Let_def inb_def [symmetric]
          play1_def [symmetric] case_prod_conv if_False)
    have div: "whole ch inb \<and> whole ch (content play1)" if "whole ch (content play)"
      using whole_take_drop [OF that] inb(1) play1(1) by (simp add: n_def)
    show ?thesis
    proof (cases "n < 4096")
      case True
      then have "content play1 = []" using play1 by (simp add: n_def)
      have res: "resampled W ch rate smp [inb] r = (out, r1)" using out by simp
      have "pieces [inb]" "concat [inb] @ content play1 = content play" using inb play1 by (simp_all add: pieces_def)
      moreover have "whole ch (content play) \<longrightarrow> list_all (whole ch) [inb] \<and> whole ch (content play1)"
        using div by simp
      ultimately show ?thesis using step True s play1(2) \<open>content play1 = []\<close>
        by (intro exI [of _ play1] exI [of _ stash1] exI [of _ "[inb]"]) (simp only: res fst_conv snd_conv if_True simp_thms)
    next
      case no_end: False
      have shorter: "length (content play1) < length (content play)" using inb(2,3) play1(1) by (cases "content play") (auto simp: n_def)
      have "need + piece_room ch rate smp \<le> cap stash1" using less.prems s(3) by simp
      from less.hyps [OF shorter this, of r1] obtain play' stash' ps where r:
        "top_up W ch rate smp need play1 stash1 (Some r1) = Some (play', stash', Some (snd (resampled W ch rate smp ps r1)))"
        "pieces ps" "concat ps @ content play' = content play1"
        "content stash' = content stash1 @ fst (resampled W ch rate smp ps r1)"
        "cap stash' = cap stash1" "cap play' = cap play1" "need \<le> length (content stash') \<or> content play' = []"
        "whole ch (content play1) \<longrightarrow> list_all (whole ch) ps \<and> whole ch (content play')"
        by blast
      have "concat (inb # ps) @ content play' = content play" using r(3) inb(1) play1(1) by simp
      moreover have "pieces (inb # ps)" using r(2) inb by (simp add: pieces_def)
      moreover obtain out2 r2 where res: "resampled W ch rate smp ps r1 = (out2, r2)" by (cases "resampled W ch rate smp ps r1")
      moreover have "resampled W ch rate smp (inb # ps) r = (out @ out2, r2)" using out res by simp
      moreover have "whole ch (content play) \<longrightarrow> list_all (whole ch) (inb # ps) \<and> whole ch (content play')"
        using r(8) div by simp
      moreover have "top_up W ch rate smp need play stash (Some r) = Some (play', stash', Some r2)"
        "content stash' = content stash @ out @ out2" "cap stash' = cap stash" "cap play' = cap play"
        using step no_end r(1,4-6) s(2,3) play1(2) res by simp_all
      ultimately show ?thesis using r(7)
        by (intro exI [of _ play'] exI [of _ stash'] exI [of _ "inb # ps"]) (simp only: fst_conv snd_conv simp_thms)
    qed
  qed
qed

section \<open>The stages\<close>

text \<open>A call at another rate than the stream, before its first frame or with the resampler in a state.\<close>

definition rs_ready :: "('b, 'r) sw \<Rightarrow> ('b \<Rightarrow> bytes) \<Rightarrow> nat \<Rightarrow> u32 \<Rightarrow> 'r \<Rightarrow> ('b, 'r) private_t \<Rightarrow> bool" where
  "rs_ready W content ch rate r t \<longleftrightarrow> \<not> cleanup_started t \<and> play_mutex t \<and> play_buffer t \<noteq> None \<and> dl_stash t \<noteq> None \<and>
     (if dl_rate t = sint rate then dl_resampler t = Some r
      else sint rate \<noteq> sampling t \<and> spx_init W (word_of_nat ch) (word_of_int (sampling t)) rate = Some r \<and>
        content (the (dl_stash t)) = [])"

definition rs_frame :: "nat \<Rightarrow> u32 \<Rightarrow> int \<Rightarrow> nat \<Rightarrow> switch_frame \<Rightarrow> bool" where
  "rs_frame ch rate smp room fr \<longleftrightarrow> fr_rate fr = rate \<and> rate \<noteq> 0 \<and> fr_data fr \<noteq> [] \<and>
     ch = (if fr_channels fr > 0 then fr_channels fr else 1) \<and> length (fr_data fr) + piece_room ch rate smp \<le> room"

lemma learn_resampler:
  assumes doc: "buffer_doc W content cap" and "rs_ready W content ch rate r t" "dl_stash t = Some stash"
  obtains s where "dl_stash (dl_learn W rate ch stash t) = Some s" "content s = content stash" "cap s = cap stash"
    "dl_resampler (dl_learn W rate ch stash t) = Some r" "dl_rate (dl_learn W rate ch stash t) = sint rate"
  using assms(2,3) buffer_docD(9,10) [OF doc] by (auto simp: dl_learn_def rs_ready_def split: if_split_asm)

lemma learn_frame:
  "sampling (dl_learn W rate ch stash t) = sampling t" "cleanup_started (dl_learn W rate ch stash t) = cleanup_started t"
  "play_mutex (dl_learn W rate ch stash t) = play_mutex t" "play_buffer (dl_learn W rate ch stash t) = play_buffer t"
  by (simp_all add: dl_learn_def)

lemma resampled_step:
  assumes doc: "buffer_doc W content cap" and spx: "speex_doc W" and ready: "rs_ready W content ch rate r t"
    and fr: "rs_frame ch rate (sampling t) (cap (the (dl_stash t))) fr"
  shows "\<exists>t' out ps. stream_playback_frame W (Some fr) t = Inr (t', Some (put fr out)) \<and>
    rs_ready W content ch rate (snd (resampled W ch rate (sampling t) ps r)) t' \<and> sampling t' = sampling t \<and> pieces ps \<and>
    concat ps @ content (the (play_buffer t')) = content (the (play_buffer t)) \<and>
    case_option [] id out @ content (the (dl_stash t')) =
      content (the (dl_stash t)) @ fst (resampled W ch rate (sampling t) ps r) \<and>
    cap (the (dl_stash t')) = cap (the (dl_stash t)) \<and> cap (the (play_buffer t')) = cap (the (play_buffer t)) \<and>
    (case out of None \<Rightarrow> content (the (play_buffer t')) = [] | Some a \<Rightarrow> length a = length (fr_data fr)) \<and>
    (whole ch (content (the (play_buffer t))) \<longrightarrow>
       list_all (whole ch) ps \<and> whole ch (content (the (play_buffer t'))))"
proof -
  note d = buffer_docD [OF doc]
  define n where "n = length (fr_data fr)"
  obtain play stash where b: "play_buffer t = Some play" "dl_stash t = Some stash"
    using ready by (auto simp: rs_ready_def)
  define t1 where "t1 = dl_learn W rate ch stash t"
  obtain s where s: "dl_stash t1 = Some s" "content s = content stash" "cap s = cap stash" "dl_resampler t1 = Some r"
    "dl_rate t1 = sint rate"
    unfolding t1_def by (rule learn_resampler [OF doc ready b(2)])
  have "n + piece_room ch rate (sampling t) \<le> cap s" using fr b(2) s(3) by (auto simp: rs_frame_def n_def)
  from top_up_resampled [OF doc spx this, of play r] obtain play' stash' ps where
    up: "top_up W ch rate (sampling t) n play s (Some r) =
      Some (play', stash', Some (snd (resampled W ch rate (sampling t) ps r)))"
    and ps: "pieces ps" "concat ps @ content play' = content play"
      "content stash' = content s @ fst (resampled W ch rate (sampling t) ps r)"
    and caps: "cap stash' = cap s" "cap play' = cap play" and enough: "n \<le> length (content stash') \<or> content play' = []"
    and wh: "whole ch (content play) \<longrightarrow> list_all (whole ch) ps \<and> whole ch (content play')" by blast
  have fr1: "fr_rate fr = rate" "rate \<noteq> 0" "fr_data fr \<noteq> []" and chan: "(if fr_channels fr > 0 then fr_channels fr else 1) = ch"
    using fr by (simp_all add: rs_frame_def)
  define r' where "r' = snd (resampled W ch rate (sampling t) ps r)"
  define t2 where "t2 = t1\<lparr>play_buffer := Some play', dl_stash := Some stash', dl_resampler := Some r'\<rparr>"
  have run: "stream_playback_frame W (Some fr) t =
      (if buf_inuse W stash' \<ge> n
       then Inr (t2\<lparr>dl_stash := Some (snd (buf_read W n stash')), replaced := replaced t2 + 1\<rparr>,
                 Some (fr\<lparr>fr_data := fst (buf_read W n stash')\<rparr>))
       else Inr (t2\<lparr>underruns := underruns t2 + 1\<rparr>, Some fr))"
    using ready fr1 b s(1,4) learn_frame(1) [of W rate ch stash t] up
    by (simp add: stream_playback_frame_def rs_ready_def n_def Let_def chan t1_def [symmetric] t2_def r'_def)
  have ready2: "rs_ready W content ch rate r' (t2\<lparr>dl_stash := Some x, replaced := i\<rparr>)"
    "rs_ready W content ch rate r' (t2\<lparr>underruns := i\<rparr>)" for x i
    using ready s(5) learn_frame [of W rate ch stash t] by (simp_all add: rs_ready_def t2_def t1_def)
  have smp: "sampling t2 = sampling t" using learn_frame(1) by (simp add: t2_def t1_def)
  show ?thesis
  proof (cases "n \<le> length (content stash')")
    case True
    let ?t' = "t2\<lparr>dl_stash := Some (snd (buf_read W n stash')), replaced := replaced t2 + 1\<rparr>"
    have "stream_playback_frame W (Some fr) t = Inr (?t', Some (put fr (Some (take n (content stash')))))"
      using run True d(1,4) by (simp add: put_def)
    moreover have "take n (content stash') @ content (the (dl_stash ?t')) = content (the (dl_stash t)) @ fst (resampled W ch rate (sampling t) ps r)"
      using d(5) ps(3) s(2) b(2) append_take_drop_id [of n "content stash'"] by (simp del: append_take_drop_id take_append drop_append)
    moreover have "length (take n (content stash')) = length (fr_data fr)" using True by (simp add: n_def)
    ultimately show ?thesis using ready2(1) smp ps(1,2) caps wh b s(3) d(6)
      by (intro exI [of _ ?t'] exI [of _ "Some (take n (content stash'))"] exI [of _ ps]) (simp add: t2_def r'_def)
  next
    case False
    let ?t' = "t2\<lparr>underruns := underruns t2 + 1\<rparr>"
    have "stream_playback_frame W (Some fr) t = Inr (?t', Some (put fr None))"
      using run False d(1) by (simp add: put_def)
    moreover have "content (the (dl_stash ?t')) = content (the (dl_stash t)) @ fst (resampled W ch rate (sampling t) ps r)"
      using ps(3) s(2) b(2) by (simp add: t2_def)
    ultimately show ?thesis using ready2(2) smp ps(1,2) caps wh b s(3) enough False
      by (intro exI [of _ ?t'] exI [of _ None] exI [of _ ps]) (simp add: t2_def r'_def)
  qed
qed

lemma resampled_audio_step:
  assumes doc: "buffer_doc W content cap" and ready: "rs_ready W content ch rate r t"
    and room: "length (content (the (play_buffer t))) + length data \<le> cap (the (play_buffer t))"
  shows "\<exists>t'. onBinary W data t = Inr t' \<and> rs_ready W content ch rate r t' \<and>
    content (the (play_buffer t')) = content (the (play_buffer t)) @ data \<and>
    sampling t' = sampling t \<and> dl_stash t' = dl_stash t \<and> cap (the (play_buffer t')) = cap (the (play_buffer t))"
proof -
  note d = buffer_docD [OF doc]
  obtain play where b: "play_buffer t = Some play" using ready by (auto simp: rs_ready_def)
  have "length data \<le> buf_freespace W play" using room b d(2) [of play] by simp
  then have "drop_oldest W (length data) play = Some play" by (subst drop_oldest.simps) simp
  then have "onBinary W data t = Inr (t\<lparr>play_buffer := Some (buf_write W data play)\<rparr>)"
    using ready b room d(2) [of play] by (simp add: onBinary_def rs_ready_def)
  then show ?thesis using ready b room d(7,8) by (simp add: rs_ready_def)
qed

section \<open>Properties\<close>

definition whole_ops :: "nat \<Rightarrow> dl_op list \<Rightarrow> bool" where
  "whole_ops ch ops \<longleftrightarrow> list_all (\<lambda>op. case op of Audio data \<Rightarrow> whole ch data | Frame fr \<Rightarrow> True) ops"

text \<open>What a history has done: the frames of the channel, what each was replaced by, and the pieces the resampler has been fed with.\<close>

definition rs_done ::
    "('b, 'r) sw \<Rightarrow> ('b \<Rightarrow> bytes) \<Rightarrow> nat \<Rightarrow> u32 \<Rightarrow> 'r \<Rightarrow> ('b, 'r) private_t \<Rightarrow> dl_op list
      \<Rightarrow> ('b, 'r) private_t \<Rightarrow> bytes option list \<Rightarrow> bytes list \<Rightarrow> bool" where
  "rs_done W content ch rate r t ops t' outs ps \<longleftrightarrow>
     pieces ps \<and> concat ps @ content (the (play_buffer t')) = content (the (play_buffer t)) @ audio_bytes ops \<and>
     played outs @ content (the (dl_stash t')) =
       content (the (dl_stash t)) @ fst (resampled W ch rate (sampling t) ps r) \<and>
     list_all2 (\<lambda>fr out. \<forall>a. out = Some a \<longrightarrow> length a = length (fr_data fr)) (frames_of ops) outs \<and>
     (\<forall>fr. ops \<noteq> [] \<and> last ops = Frame fr \<and> last outs = None \<longrightarrow> content (the (play_buffer t')) = []) \<and>
     (whole_ops ch ops \<and> whole ch (content (the (play_buffer t))) \<longrightarrow>
       list_all (whole ch) ps \<and> whole ch (content (the (play_buffer t'))))"

lemma rs_done_audio:
  assumes "rs_done W content ch rate r t ops t1 outs ps" "content (the (play_buffer t2)) = content (the (play_buffer t1)) @ data"
    "dl_stash t2 = dl_stash t1"
  shows "rs_done W content ch rate r t (ops @ [Audio data]) t2 outs ps"
proof -
  have "list_all (whole ch) ps \<and> whole ch (content (the (play_buffer t2)))"
    if w: "whole_ops ch (ops @ [Audio data]) \<and> whole ch (content (the (play_buffer t)))"
  proof -
    have "list_all (whole ch) ps \<and> whole ch (content (the (play_buffer t1)))" "whole ch data"
      using assms(1) w unfolding rs_done_def by (simp_all add: whole_ops_def)
    then show ?thesis unfolding assms(2) by (simp add: whole_def)
  qed
  then show ?thesis using assms unfolding rs_done_def by (simp only:) simp
qed

lemma rs_done_frame:
  assumes "rs_done W content ch rate r t ops t1 outs ps" "r1 = snd (resampled W ch rate (sampling t) ps r)" "pieces qs"
    "concat qs @ content (the (play_buffer t2)) = content (the (play_buffer t1))"
    "case_option [] id out @ content (the (dl_stash t2)) =
      content (the (dl_stash t1)) @ fst (resampled W ch rate (sampling t) qs r1)"
    "case out of None \<Rightarrow> content (the (play_buffer t2)) = [] | Some a \<Rightarrow> length a = length (fr_data fr)"
    "whole ch (content (the (play_buffer t1))) \<longrightarrow> list_all (whole ch) qs \<and> whole ch (content (the (play_buffer t2)))"
  shows "rs_done W content ch rate r t (ops @ [Frame fr]) t2 (outs @ [out]) (ps @ qs)"
proof -
  have a: "pieces (ps @ qs)" using assms(1,3) by (auto simp: rs_done_def pieces_def)
  have b: "concat (ps @ qs) @ content (the (play_buffer t2)) = content (the (play_buffer t)) @ audio_bytes (ops @ [Frame fr])"
    using assms(1,4) by (simp add: rs_done_def)
  have "played (outs @ [out]) @ content (the (dl_stash t2)) = played outs @ case_option [] id out @ content (the (dl_stash t2))"
    by (cases out) simp_all
  then have c: "played (outs @ [out]) @ content (the (dl_stash t2)) =
      content (the (dl_stash t)) @ fst (resampled W ch rate (sampling t) (ps @ qs) r)"
    using assms(1,2,5) by (simp add: rs_done_def resampled_append case_prod_beta)
  have e: "list_all2 (\<lambda>fr out. \<forall>a. out = Some a \<longrightarrow> length a = length (fr_data fr)) (frames_of (ops @ [Frame fr])) (outs @ [out])"
    using assms(1,6) by (auto simp: rs_done_def intro: list_all2_appendI)
  have g: "content (the (play_buffer t2)) = []" if "out = None" using assms(6) that by simp
  have h: "list_all (whole ch) (ps @ qs) \<and> whole ch (content (the (play_buffer t2)))"
    if "whole_ops ch (ops @ [Frame fr]) \<and> whole ch (content (the (play_buffer t)))"
    using assms(1,7) that by (simp add: rs_done_def whole_ops_def)
  show ?thesis unfolding rs_done_def using a b c e g h by simp
qed

lemma resampled_run:
  assumes doc: "buffer_doc W content cap" "speex_doc W" and ready: "rs_ready W content ch rate r t"
    and "length (content (the (play_buffer t))) + length (audio_bytes ops) \<le> cap (the (play_buffer t))"
    "\<forall>fr. Frame fr \<in> set ops \<longrightarrow> rs_frame ch rate (sampling t) (cap (the (dl_stash t))) fr"
  shows "\<exists>t' outs ps. dl_run W ops t = Inr (t', map2 put (frames_of ops) outs) \<and>
    rs_done W content ch rate r t ops t' outs ps \<and>
    rs_ready W content ch rate (snd (resampled W ch rate (sampling t) ps r)) t' \<and> sampling t' = sampling t \<and>
    cap (the (dl_stash t')) = cap (the (dl_stash t)) \<and> cap (the (play_buffer t')) = cap (the (play_buffer t))"
  using assms(4,5)
proof (induction ops rule: rev_induct)
  case Nil
  have "rs_done W content ch rate r t [] t [] []" by (simp add: rs_done_def pieces_def)
  then show ?case using ready by (intro exI [of _ t] exI [of _ "[]"]) simp
next
  case (snoc op ops)
  have "length (content (the (play_buffer t))) + length (audio_bytes ops) \<le> cap (the (play_buffer t))"
    "\<forall>fr. Frame fr \<in> set ops \<longrightarrow> rs_frame ch rate (sampling t) (cap (the (dl_stash t))) fr"
    using snoc.prems by simp_all
  from snoc.IH [OF this] obtain t1 outs ps where t1: "dl_run W ops t = Inr (t1, map2 put (frames_of ops) outs)"
    "rs_done W content ch rate r t ops t1 outs ps" "rs_ready W content ch rate (snd (resampled W ch rate (sampling t) ps r)) t1"
    "sampling t1 = sampling t" "cap (the (dl_stash t1)) = cap (the (dl_stash t))"
    "cap (the (play_buffer t1)) = cap (the (play_buffer t))" by blast
  have len: "length (frames_of ops) = length outs" using t1(2) by (auto simp: rs_done_def dest: list_all2_lengthD)
  show ?case
  proof (cases op)
    case (Audio data)
    have "concat ps @ content (the (play_buffer t1)) = content (the (play_buffer t)) @ audio_bytes ops"
      using t1(2) by (simp add: rs_done_def)
    from arg_cong [OF this, of length]
    have "length (content (the (play_buffer t1))) + length data \<le> cap (the (play_buffer t1))"
      using snoc.prems(1) t1(6) Audio by simp
    from resampled_audio_step [OF doc(1) t1(3) this] obtain t2 where t2: "onBinary W data t1 = Inr t2"
      "rs_ready W content ch rate (snd (resampled W ch rate (sampling t) ps r)) t2"
      "content (the (play_buffer t2)) = content (the (play_buffer t1)) @ data" "sampling t2 = sampling t1"
      "dl_stash t2 = dl_stash t1" "cap (the (play_buffer t2)) = cap (the (play_buffer t1))" by blast
    have "dl_run W (ops @ [op]) t = Inr (t2, map2 put (frames_of (ops @ [op])) outs)"
      using t1(1) t2(1) Audio by (simp add: dl_run_append)
    then show ?thesis using rs_done_audio [OF t1(2) t2(3,5)] t1(4-6) t2(2,4-6) Audio
      by (intro exI [of _ t2] exI [of _ outs] exI [of _ ps]) simp
  next
    case (Frame fr)
    have "rs_frame ch rate (sampling t1) (cap (the (dl_stash t1))) fr" using snoc.prems(2) Frame t1(4,5) by simp
    from resampled_step [OF doc t1(3) this] obtain t2 out qs where
      t2: "stream_playback_frame W (Some fr) t1 = Inr (t2, Some (put fr out))"
      and ready2: "rs_ready W content ch rate (snd (resampled W ch rate (sampling t1) qs (snd (resampled W ch rate (sampling t) ps r)))) t2"
      and same: "sampling t2 = sampling t1" "cap (the (dl_stash t2)) = cap (the (dl_stash t1))"
        "cap (the (play_buffer t2)) = cap (the (play_buffer t1))"
      and fed: "pieces qs" "concat qs @ content (the (play_buffer t2)) = content (the (play_buffer t1))"
        "case_option [] id out @ content (the (dl_stash t2)) = content (the (dl_stash t1)) @
          fst (resampled W ch rate (sampling t1) qs (snd (resampled W ch rate (sampling t) ps r)))"
        "case out of None \<Rightarrow> content (the (play_buffer t2)) = [] | Some a \<Rightarrow> length a = length (fr_data fr)"
        "whole ch (content (the (play_buffer t1))) \<longrightarrow> list_all (whole ch) qs \<and> whole ch (content (the (play_buffer t2)))"
      by blast
    have "dl_run W (ops @ [op]) t = Inr (t2, map2 put (frames_of (ops @ [op])) (outs @ [out]))"
      using t1(1) t2 Frame len by (simp add: dl_run_append)
    moreover have "rs_done W content ch rate r t (ops @ [op]) t2 (outs @ [out]) (ps @ qs)"
      unfolding Frame by (rule rs_done_frame [OF t1(2) refl fed(1,2) _ fed(4,5)]) (use fed(3) t1(4) in simp)
    moreover have "rs_ready W content ch rate (snd (resampled W ch rate (sampling t) (ps @ qs) r)) t2"
      using ready2 t1(4) by (simp add: resampled_append case_prod_beta)
    ultimately show ?thesis using same t1(4-6)
      by (intro exI [of _ t2] exI [of _ "outs @ [out]"] exI [of _ "ps @ qs"]) simp
  qed
qed

text \<open>C9: at another rate than the stream's, the caller hears exactly what the resampler makes of the audio of the server: in
  every interleaving of messages and frames there is one way to cut the audio received into pieces of at most 4096 bytes, such that the
  frames replaced and the audio in reserve are the output for these pieces, one after the other, with nothing lost, repeated or
  reordered; a frame goes out untouched only when all audio has been used up, and messages of whole samples give pieces of
  whole samples. Both loops end. The audio received fits in the playback buffer, so that \<open>onBinary\<close> drops none.\<close>

theorem resampled_playback:
  assumes "buffer_doc W content cap" "speex_doc W" "rs_ready W content ch rate r t"
    "length (content (the (play_buffer t))) + length (audio_bytes ops) \<le> cap (the (play_buffer t))"
    "\<forall>fr. Frame fr \<in> set ops \<longrightarrow> rs_frame ch rate (sampling t) (cap (the (dl_stash t))) fr"
  shows "\<exists>t' outs ps. dl_run W ops t = Inr (t', map2 put (frames_of ops) outs) \<and>
    list_all2 (\<lambda>fr out. \<forall>a. out = Some a \<longrightarrow> length a = length (fr_data fr)) (frames_of ops) outs \<and>
    pieces ps \<and> concat ps @ content (the (play_buffer t')) = content (the (play_buffer t)) @ audio_bytes ops \<and>
    played outs @ content (the (dl_stash t')) =
      content (the (dl_stash t)) @ fst (resampled W ch rate (sampling t) ps r) \<and>
    rs_ready W content ch rate (snd (resampled W ch rate (sampling t) ps r)) t' \<and>
    (\<forall>fr. ops \<noteq> [] \<and> last ops = Frame fr \<and> last outs = None \<longrightarrow> content (the (play_buffer t')) = []) \<and>
    (whole_ops ch ops \<and> whole ch (content (the (play_buffer t))) \<longrightarrow> list_all (whole ch) ps)"
proof -
  obtain t' outs ps where "dl_run W ops t = Inr (t', map2 put (frames_of ops) outs)" "rs_done W content ch rate r t ops t' outs ps"
    "rs_ready W content ch rate (snd (resampled W ch rate (sampling t) ps r)) t'"
    using resampled_run [OF assms] by blast
  then show ?thesis unfolding rs_done_def by (intro exI [of _ t'] exI [of _ outs] exI [of _ ps]) blast
qed

text \<open>A resampler that gives every sample of one channel twice.\<close>

fun twice :: "bytes \<Rightarrow> bytes" where
  "twice (a # b # s) = a # b # a # b # twice s"
| "twice s = []"

definition twice_sw :: "(nat \<times> bytes, unit) sw" where
  "twice_sw = list_sw\<lparr>spx_process := (\<lambda>ch d n k r. (take (k * ch * 2) (twice (take (n * ch * 2) d)), r))\<rparr>"

lemma twice_sw_doc: "buffer_doc twice_sw clip fst" "speex_doc twice_sw"
  using list_buffer_doc by (simp_all add: buffer_doc_def speex_doc_def twice_sw_def)

theorem resampled_playback_witness:
  "\<exists>t' outs ps. dl_run twice_sw [Audio [1, 2, 3, 4], Frame (demo_frame\<lparr>fr_rate := 16000\<rparr>), Audio [5, 6]] demo_tech =
      Inr (t', map2 put [demo_frame\<lparr>fr_rate := 16000\<rparr>] outs) \<and> concat ps @ clip (the (play_buffer t')) = [1, 2, 3, 4, 5, 6] \<and>
    played outs @ clip (the (dl_stash t')) = fst (resampled twice_sw 1 16000 8000 ps ()) \<and> list_all (whole 1) ps"
proof -
  let ?ops = "[Audio [1, 2, 3, 4], Frame (demo_frame\<lparr>fr_rate := 16000\<rparr>), Audio [5, 6]]"
  have "rs_ready twice_sw clip 1 16000 () demo_tech"
    by (simp add: rs_ready_def demo_tech_def zero_tech_def twice_sw_def list_sw_def clip_def)
  from resampled_playback [OF twice_sw_doc this, of ?ops]
  have "\<exists>t' outs ps. dl_run twice_sw ?ops demo_tech = Inr (t', map2 put (frames_of ?ops) outs) \<and>
      concat ps @ clip (the (play_buffer t')) = clip (the (play_buffer demo_tech)) @ audio_bytes ?ops \<and>
      played outs @ clip (the (dl_stash t')) = clip (the (dl_stash demo_tech)) @ fst (resampled twice_sw 1 16000 (sampling demo_tech) ps ()) \<and>
      (whole_ops 1 ?ops \<and> whole 1 (clip (the (play_buffer demo_tech))) \<longrightarrow> list_all (whole 1) ps)"
    by (auto simp: demo_tech_def zero_tech_def clip_def rs_frame_def piece_room_def)
  moreover have "clip (the (play_buffer demo_tech)) = []" "clip (the (dl_stash demo_tech)) = []" "sampling demo_tech = 8000"
    by (simp_all add: demo_tech_def clip_def)
  moreover have "whole_ops 1 ?ops" "whole 1 []" by (simp_all add: whole_ops_def whole_def)
  ultimately show ?thesis by simp
qed

text \<open>The bytes behind the last whole sample of a piece are dropped: where a message of the server ends within a sample, its first
  byte is lost, and the rest of the audio is out of step by a byte. The hypothesis is that the resampler reads the
  samples it has been told of.\<close>

definition speex_reads :: "('b, 'r) sw \<Rightarrow> bool" where
  "speex_reads W \<longleftrightarrow> (\<forall>ch d d' n k r. take (n * ch * 2) d = take (n * ch * 2) d' \<longrightarrow>
     spx_process W ch d n k r = spx_process W ch d' n k r)"

theorem split_sample_lost:
  assumes "speex_reads W" "whole ch p" "length x < ch * 2"
  shows "stash_in W ch rate smp (p @ x) stash (Some r) = stash_in W ch rate smp p stash (Some r)"
proof -
  obtain k where k: "length p = ch * 2 * k" using assms(2) by (auto simp: whole_def)
  define c where "c = ch * 2"
  have c: "length (p @ x) = c * k + length x" "length p = c * k" "length x < c" "0 < c" using k assms(3) by (simp_all add: c_def)
  then have n: "length (p @ x) div (ch * 2) = k" "length p div (ch * 2) = k"
    unfolding c_def [symmetric] by (simp_all only: div_mult_self4 div_less nonzero_mult_div_cancel_left neq0_conv add_0_right not_gr0)
  have "take (k * ch * 2) (p @ x) = take (k * ch * 2) p" using k by (simp add: ac_simps)
  then have "spx_process W ch (p @ x) k o1 r = spx_process W ch p k o1 r" for o1
    using assms(1) unfolding speex_reads_def by blast
  then show ?thesis by (simp only: stash_in_def n option.case Let_def)
qed

theorem split_sample_lost_witness:
  "stash_in twice_sw 1 16000 8000 [1, 2, 3] (100, []) (Some ()) = stash_in twice_sw 1 16000 8000 [1, 2] (100, []) (Some ())"
proof -
  have "speex_reads twice_sw" by (simp add: speex_reads_def twice_sw_def)
  from split_sample_lost [OF this, of 1 "[1, 2]" "[3]"] show ?thesis by (simp add: whole_def)
qed

end
