(* ===== verification/Echo.thy ===== *)
theory Echo
  imports Client Call
begin

text \<open>
  The echo client of examples/autobahn.cpp: the callbacks it installs, as an endpoint of the receiver of
  their own. They run on the event thread, inside the operations of the connection, and send back from there.
\<close>

section \<open>The client of one test case\<close>

definition case_url :: "nat \<Rightarrow> bytes" where
  "case_url i = ascii ''ws://192.168.0.27:9001/runCase?case='' @ nat_digits i @ ascii ''&agent=libwsc''"

definition case_client :: "(bytes \<Rightarrow> bool) \<Rightarrow> (bytes \<Rightarrow> bool) \<Rightarrow> nat \<Rightarrow> 'd client \<Rightarrow> 'd client" where
  "case_client pton4 pton6 i c =
     setUrl pton4 pton6 (case_url i)
       (client_setErrorCallback True (client_setCloseCallback True (client_setOpenCallback True
         (client_setBinaryCallback True (client_setMessageCallback True c)))))"

text \<open>The client and the two flags its callbacks share with the main thread.\<close>

record 'd echo =
  echo_client :: "'d client"
  stop_echo :: bool
  case_done :: bool

definition finish :: "'d echo \<Rightarrow> 'd echo" where
  "finish e = e\<lparr>case_done := True\<rparr>"

text \<open>The callbacks. The weak pointer can be locked as long as the event thread runs: the main thread drops
  its own after \<open>disconnect\<close>.\<close>

fun echo_callback :: "('d, 'i) ext \<Rightarrow> ctx_event \<Rightarrow> 'd echo \<Rightarrow> 'd echo" where
  "echo_callback Z (OnMessage message) e =
     (if stop_echo e then e else e\<lparr>echo_client := snd (sendMessage Z True message (echo_client e))\<rparr>)"
| "echo_callback Z (OnBinary data) e =
     (if stop_echo e then e else e\<lparr>echo_client := snd (sendBinary Z True data (echo_client e))\<rparr>)"
| "echo_callback Z OnOpen e = e"
| "echo_callback Z (OnClose code reason) e = finish (e\<lparr>stop_echo := True\<rparr>)"
| "echo_callback Z (OnError code msg) e = finish (e\<lparr>stop_echo := True\<rparr>)"
| "echo_callback Z (Sent type raw) e = e"

text \<open>The end of the wait of the main thread: \<open>ok\<close> says whether the server closed the case in time.\<close>

definition case_end :: "bool \<Rightarrow> 'd echo \<Rightarrow> 'd echo" where
  "case_end ok e =
     (let e1 = (if \<not> ok then e\<lparr>stop_echo := True\<rparr> else e)
      in e1\<lparr>echo_client := client_disconnect (echo_client e1)\<rparr>)"

text \<open>An operation of the connection with the callbacks it makes. A message is delivered at the end of its
  operation; the other callbacks only set the flags.\<close>

definition echo_ctx :: "'d echo \<Rightarrow> 'd ctx" where
  "echo_ctx e = the (cl_ctx (echo_client e))"

definition with_callbacks :: "('d, 'i) ext \<Rightarrow> ('d ctx \<Rightarrow> 'd ctx) \<Rightarrow> 'd echo \<Rightarrow> 'd echo" where
  "with_callbacks Z f e =
     (let x = echo_ctx e; x1 = f x
      in fold (echo_callback Z) (drop (length (trace x)) (trace x1))
           (e\<lparr>echo_client := (echo_client e)\<lparr>cl_ctx := Some x1\<rparr>\<rparr>))"

definition echo_sinks :: "('d, 'i) ext \<Rightarrow> 'd echo rx_sinks" where
  "echo_sinks Z = \<lparr>rxCompressionEnabled = (\<lambda>e. use_compression (echo_ctx e)),
     onRxPing = (\<lambda>p. with_callbacks Z (ctx_onRxPing Z p)),
     onRxClose = (\<lambda>code reason. with_callbacks Z (ctx_onRxClose Z code reason)),
     onRxProtocolError = (\<lambda>code why. with_callbacks Z (ctx_onRxProtocolError code why)),
     onRxText = (\<lambda>m. with_callbacks Z (ctx_onRxText m)), onRxBinary = (\<lambda>m. with_callbacks Z (ctx_onRxBinary m)),
     rxIsTerminating = (\<lambda>e. ctx_rxIsTerminating (echo_ctx e))\<rparr>"

section \<open>The endpoint\<close>

text \<open>What the peer gets back for an event.\<close>

fun answers :: "rx_event \<Rightarrow> (MessageType \<times> bytes) list" where
  "answers (EvText m) = [(TEXT, m)]"
| "answers (EvBinary m) = [(BINARY, m)]"
| "answers (EvPing p) = [(PONG, p)]"
| "answers (EvClose code reason) = []"
| "answers (EvError code) = []"

text \<open>While the connection goes on, every message and ping received since the first \<open>k\<close> events has been answered.\<close>

definition echo_good ::
    "('d, 'i) ext \<Rightarrow> ('i \<Rightarrow> bytes \<Rightarrow> (bytes \<times> 'i) option) \<Rightarrow> 'i \<Rightarrow> (MessageType \<times> bytes) list \<Rightarrow> nat \<Rightarrow> 'd echo \<Rightarrow> bool" where
  "echo_good Z whole peer ms k e \<longleftrightarrow>
     (\<exists>x. cl_ctx (echo_client e) = Some x \<and> rx_good x \<and>
       (\<not> ctx_rxIsTerminating x \<longrightarrow> wired Z whole peer x \<and> \<not> stop_echo e \<and> k \<le> length (rx_log x) \<and>
          sent (trace x) = ms @ concat (map answers (drop k (rx_log x)))))"

lemma fold_echo_ctx:
  assumes "\<And>m. OnMessage m \<notin> set es" "\<And>m. OnBinary m \<notin> set es"
  shows "echo_client (fold (echo_callback Z) es e) = echo_client e"
proof -
  have "echo_client (echo_callback Z ev e) = echo_client e" if "ev \<in> set es" for ev e
    using assms that by (cases ev) (auto simp: finish_def)
  then show ?thesis by (induction es arbitrary: e) simp_all
qed

text \<open>The client of a case connects to the test server and asks for its case there.\<close>

lemma case_client_target:
  "case_client p4 p6 i c =
     (client_setErrorCallback True (client_setCloseCallback True (client_setOpenCallback True
       (client_setBinaryCallback True (client_setMessageCallback True c)))))
       \<lparr>cl_secure := False, cl_host := ascii ''192.168.0.27'', cl_port := 9001,
         cl_uri := ascii ''/runCase?case='' @ nat_digits i @ ascii ''&agent=libwsc'',
         cl_is_ip_address := isHostIPAddress p4 p6 (ascii ''192.168.0.27'')\<rparr>"
proof -
  have "nat_digits 9001 = ascii ''9001''" by (simp add: nat_digits.simps ascii_def)
  then have "case_url i = ws_prefix False @ (ascii ''192.168.0.27'' @ ascii '':'' @ nat_digits 9001) @
      (ascii ''/runCase?case='' @ nat_digits i @ ascii ''&agent=libwsc'')"
    by (simp add: case_url_def ws_prefix_def ascii_def)
  then show ?thesis
    using setUrl_parts [of "ascii ''192.168.0.27''" 9001 "ascii ''/runCase?case='' @ nat_digits i @ ascii ''&agent=libwsc''" p4 p6 False]
    by (simp add: case_client_def ascii_def)
qed

text \<open>What an operation that stops the connection adds to the trace contains no message.\<close>

lemma no_messages:
  assumes "trace y = trace x @ es" "rx_log y = rx_log x @ evs" "\<And>m. EvText m \<notin> set evs" "\<And>m. EvBinary m \<notin> set evs"
  shows "OnMessage m \<notin> set es" "OnBinary m \<notin> set es"
proof -
  have "concat (map rx_view es) = evs" using assms(1,2) by (simp add: rx_log_def)
  then show "OnMessage m \<notin> set es" "OnBinary m \<notin> set es" using assms(3,4) by force+
qed

lemma with_callbacks_stops:
  assumes "cl_ctx (echo_client e) = Some x" "grows (trace x) (f x)" "rx_log (f x) = rx_log x @ evs"
    "\<And>m. EvText m \<notin> set evs" "\<And>m. EvBinary m \<notin> set evs"
  shows "cl_ctx (echo_client (with_callbacks Z f e)) = Some (f x)"
proof -
  obtain es where es: "trace (f x) = trace x @ es" using assms(2) by (auto simp: grows_def)
  note none = no_messages [OF es assms(3-5)]
  show ?thesis using fold_echo_ctx [of es Z "e\<lparr>echo_client := (echo_client e)\<lparr>cl_ctx := Some (f x)\<rparr>\<rparr>"] none
    by (simp add: with_callbacks_def echo_ctx_def assms(1) Let_def es)
qed

text \<open>What a message does.\<close>

lemma echo_message:
  assumes "cl_ctx (echo_client e) = Some x" "\<not> stop_echo e" "connection_state x = CONNECTED" "bev x" "upgraded x"
    "ev = OnMessage m \<and> type = TEXT \<or> ev = OnBinary m \<and> type = BINARY"
  shows "with_callbacks Z (emit ev) e =
    e\<lparr>echo_client := (echo_client e)\<lparr>cl_ctx := Some (ctx_send Z m type (emit ev x))\<rparr>\<rparr>"
proof -
  have "trace (emit ev x) = trace x @ [ev]" by (simp add: emit_def)
  moreover have "sendData Z True m t (emit ev x) = (True, ctx_send Z m t (emit ev x))" if "t = TEXT \<or> t = BINARY" for t
    using assms(3-5) that by (auto simp: sendData_def sendNow_def emit_def)
  ultimately show ?thesis using assms
    by (auto simp: with_callbacks_def echo_ctx_def Let_def sendMessage_def sendBinary_def client_send_def)
qed

lemma echo_good_goes_on:
  assumes good: "echo_good Z whole peer ms k e" and going: "\<not> ctx_rxIsTerminating (echo_ctx e)"
    and "ev = OnMessage m \<and> type = TEXT \<or> ev = OnBinary m \<and> type = BINARY"
  shows "echo_good Z whole peer ms k (with_callbacks Z (emit ev) e)"
    "rx_log (echo_ctx (with_callbacks Z (emit ev) e)) = rx_log (echo_ctx e) @ rx_view ev"
    "\<not> ctx_rxIsTerminating (echo_ctx (with_callbacks Z (emit ev) e))"
    "use_compression (echo_ctx (with_callbacks Z (emit ev) e)) = use_compression (echo_ctx e)"
proof -
  obtain x where x: "cl_ctx (echo_client e) = Some x" "rx_good x" using good by (auto simp: echo_good_def)
  then have ctx: "echo_ctx e = x" by (simp add: echo_ctx_def)
  note on = going [unfolded ctx]
  have rest: "wired Z whole peer x" "\<not> stop_echo e" "k \<le> length (rx_log x)"
    "sent (trace x) = ms @ concat (map answers (drop k (rx_log x)))" using good on x(1) by (auto simp: echo_good_def)
  note live = rx_good_live [OF x(2) on]
  note step = echo_message [OF x(1) rest(2) live(1,7,8) assms(3), of Z]
  define y where "y = ctx_send Z m type (emit ev x)"
  have type: "\<not> is_control_frame type" "type \<noteq> CLOSE" "type \<noteq> PONG" using assms(3) by (auto simp: is_control_frame_def)
  have "rx_good (emit ev x)" by (rule deliver_ok [OF x(2) on, of _ m]) (use assms(3) in auto)
  then have y_good: "rx_good y"
    using conn_ok_data [of True "emit ev x" type Z m] type live(3) by (simp add: rx_good_def y_def emit_def)
  have trace: "trace y = trace x @ [ev, Sent type m]" using type(1) by (simp add: y_def emit_def)
  have log: "rx_log y = rx_log x @ rx_view ev" using trace type(3) by (simp add: rx_log_def)
  have "sent [ev] = []" using assms(3) by auto
  then have wired: "wired Z whole peer y"
    using rest(1) live(8) on_wire_send [of Z whole peer "emit ev x" m type]
    by (simp add: wired_def y_def) (simp add: emit_def)
  have y_on: "\<not> ctx_rxIsTerminating y" using on by (simp add: y_def ctx_rxIsTerminating_def emit_def)
  have "sent (trace y) = ms @ concat (map answers (drop k (rx_log y)))"
    using assms(3) rest(3,4) trace log by auto
  then show "echo_good Z whole peer ms k (with_callbacks Z (emit ev) e)"
    using y_good wired rest(2,3) log unfolding step echo_good_def y_def [symmetric] by simp
  show "rx_log (echo_ctx (with_callbacks Z (emit ev) e)) = rx_log (echo_ctx e) @ rx_view ev"
    "\<not> ctx_rxIsTerminating (echo_ctx (with_callbacks Z (emit ev) e))"
    "use_compression (echo_ctx (with_callbacks Z (emit ev) e)) = use_compression (echo_ctx e)"
    using log y_on unfolding step ctx y_def by (simp_all add: echo_ctx_def emit_def)
qed

lemma echo_good_ping:
  assumes good: "echo_good Z whole peer ms k e" and going: "\<not> ctx_rxIsTerminating (echo_ctx e)" and "length p \<le> 125"
  shows "echo_good Z whole peer ms k (with_callbacks Z (ctx_onRxPing Z p) e)"
    "rx_log (echo_ctx (with_callbacks Z (ctx_onRxPing Z p) e)) = rx_log (echo_ctx e) @ [EvPing p]"
    "\<not> ctx_rxIsTerminating (echo_ctx (with_callbacks Z (ctx_onRxPing Z p) e))"
    "use_compression (echo_ctx (with_callbacks Z (ctx_onRxPing Z p) e)) = use_compression (echo_ctx e)"
proof -
  obtain x where x: "cl_ctx (echo_client e) = Some x" "rx_good x" using good by (auto simp: echo_good_def)
  then have ctx: "echo_ctx e = x" by (simp add: echo_ctx_def)
  note on = going [unfolded ctx]
  have rest: "wired Z whole peer x" "\<not> stop_echo e" "k \<le> length (rx_log x)"
    "sent (trace x) = ms @ concat (map answers (drop k (rx_log x)))" using good on x(1) by (auto simp: echo_good_def)
  note live = rx_good_live [OF x(2) on] and ping = deliver_live(3,6,7) [OF x(2) on, where Z = Z and p = p]
  define y where "y = ctx_onRxPing Z p x"
  have trace: "trace y = trace x @ [Sent PONG p]" using assms(3) live(7) by (simp add: y_def ctx_onRxPing_def)
  have step: "with_callbacks Z (ctx_onRxPing Z p) e = e\<lparr>echo_client := (echo_client e)\<lparr>cl_ctx := Some y\<rparr>\<rparr>"
    using trace by (simp add: with_callbacks_def ctx Let_def y_def)
  have y: "rx_good y" "wired Z whole peer y" "rx_log y = rx_log x @ [EvPing p]"
    using ping_ok [OF x(2) on] wire.by_rx_ping [OF x(2) on rest(1)] ping(1) assms(3) by (simp_all add: y_def)
  have "sent (trace y) = ms @ concat (map answers (drop k (rx_log y)))" using rest(3,4) trace y(3) by simp
  then show "echo_good Z whole peer ms k (with_callbacks Z (ctx_onRxPing Z p) e)"
    using y rest(2,3) unfolding step echo_good_def by simp
  show "rx_log (echo_ctx (with_callbacks Z (ctx_onRxPing Z p) e)) = rx_log (echo_ctx e) @ [EvPing p]"
    "\<not> ctx_rxIsTerminating (echo_ctx (with_callbacks Z (ctx_onRxPing Z p) e))"
    "use_compression (echo_ctx (with_callbacks Z (ctx_onRxPing Z p) e)) = use_compression (echo_ctx e)"
    using y(3) ping unfolding step ctx by (simp_all add: echo_ctx_def y_def)
qed

lemma echo_good_stops:
  assumes "echo_good Z whole peer ms k e" "rx_good (f (echo_ctx e))" "closing (f (echo_ctx e))"
    "rx_log (f (echo_ctx e)) = rx_log (echo_ctx e) @ [ev]" "grows (trace (echo_ctx e)) (f (echo_ctx e))"
    "\<And>m. ev \<noteq> EvText m" "\<And>m. ev \<noteq> EvBinary m"
  shows "echo_good Z whole peer ms k (with_callbacks Z f e)" "ctx_rxIsTerminating (echo_ctx (with_callbacks Z f e))"
    "rx_log (echo_ctx (with_callbacks Z f e)) = rx_log (echo_ctx e) @ [ev]"
proof -
  obtain x where x: "cl_ctx (echo_client e) = Some x" using assms(1) by (auto simp: echo_good_def)
  then have ctx: "echo_ctx e = x" by (simp add: echo_ctx_def)
  note f = assms(2-5) [unfolded ctx]
  have "cl_ctx (echo_client (with_callbacks Z f e)) = Some (f x)"
    by (rule with_callbacks_stops [of e x f "[ev]"]) (use x f assms(6,7) in auto)
  moreover have "ctx_rxIsTerminating (f x)" using f(2) by (auto simp: closing_def ctx_rxIsTerminating_def)
  ultimately show "echo_good Z whole peer ms k (with_callbacks Z f e)" "ctx_rxIsTerminating (echo_ctx (with_callbacks Z f e))"
    "rx_log (echo_ctx (with_callbacks Z f e)) = rx_log (echo_ctx e) @ [ev]"
    using f by (simp_all add: echo_good_def echo_ctx_def x)
qed

lemma echo_good_close:
  fixes code :: u16 and reason :: bytes
  assumes "echo_good Z whole peer ms k e" "\<not> ctx_rxIsTerminating (echo_ctx e)"
  defines "e' \<equiv> with_callbacks Z (ctx_onRxClose Z code reason) e"
  shows "echo_good Z whole peer ms k e'" "ctx_rxIsTerminating (echo_ctx e')"
    "rx_log (echo_ctx e') = rx_log (echo_ctx e) @ [EvClose (unat code) reason]"
proof -
  have good: "rx_good (echo_ctx e)" using assms(1) by (auto simp: echo_good_def echo_ctx_def)
  have "grows (trace (echo_ctx e)) (ctx_onRxClose Z code reason (echo_ctx e))"
    by (rule grow.by_rx_close [OF good assms(2)]) (simp add: grows_def)
  note stops = echo_good_stops [where f = "ctx_onRxClose Z code reason", OF assms(1) close_ok [OF good assms(2)] this]
  show "echo_good Z whole peer ms k e'" "ctx_rxIsTerminating (echo_ctx e')"
    "rx_log (echo_ctx e') = rx_log (echo_ctx e) @ [EvClose (unat code) reason]"
    unfolding e'_def by (rule stops; simp)+
qed

lemma echo_good_error:
  fixes code :: u16 and why :: string
  assumes "echo_good Z whole peer ms k e" "\<not> ctx_rxIsTerminating (echo_ctx e)" "code \<in> {1002, 1007}"
  defines "e' \<equiv> with_callbacks Z (ctx_onRxProtocolError code why) e"
  shows "echo_good Z whole peer ms k e'" "ctx_rxIsTerminating (echo_ctx e')"
    "rx_log (echo_ctx e') = rx_log (echo_ctx e) @ [EvError (unat code)]"
proof -
  have good: "rx_good (echo_ctx e)" using assms(1) by (auto simp: echo_good_def echo_ctx_def)
  have "grows (trace (echo_ctx e)) (ctx_onRxProtocolError code why (echo_ctx e))"
    by (rule grow.by_rx_error [OF good assms(2)]) (simp add: grows_def)
  note stops = echo_good_stops [where f = "ctx_onRxProtocolError code why", OF assms(1) protocol_error_ok [OF good assms(2,3)] this]
  show "echo_good Z whole peer ms k e'" "ctx_rxIsTerminating (echo_ctx e')"
    "rx_log (echo_ctx e') = rx_log (echo_ctx e) @ [EvError (unat code)]"
    unfolding e'_def by (rule stops; simp)+
qed

lemma echo_deliver:
  assumes "echo_good Z whole peer ms k e" "\<not> ctx_rxIsTerminating (echo_ctx e)"
  shows "with_callbacks Z (ctx_onRxText m) e = with_callbacks Z (emit (OnMessage m)) e"
    "with_callbacks Z (ctx_onRxBinary m) e = with_callbacks Z (emit (OnBinary m)) e"
proof -
  obtain x where x: "echo_ctx e = x" "rx_good x" using assms(1) by (auto simp: echo_good_def echo_ctx_def)
  show "with_callbacks Z (ctx_onRxText m) e = with_callbacks Z (emit (OnMessage m)) e"
    "with_callbacks Z (ctx_onRxBinary m) e = with_callbacks Z (emit (OnBinary m)) e"
    using deliver_live(1,2) [OF x(2)] assms(2) by (simp_all add: with_callbacks_def x(1))
qed

interpretation echoing: rx_endpoint "echo_sinks Z" "echo_good Z whole peer ms k" "\<lambda>e. rx_log (echo_ctx e)"
proof (unfold_locales, goal_cases)
  case (1 e p e' m)
  then have on: "\<not> ctx_rxIsTerminating (echo_ctx e)" by (simp add: echo_sinks_def)
  show ?case
    using 1(3,4) echo_good_goes_on(1,3,4) [OF 1(1) on, of "OnMessage m" m TEXT]
      echo_good_goes_on(1,3,4) [OF 1(1) on, of "OnBinary m" m BINARY]
      echo_good_ping(1,3,4) [OF 1(1) on, of p] echo_deliver [OF 1(1) on, of m]
    by (auto simp: echo_sinks_def)
next
  case (2 e close_code e' code reason why)
  then have on: "\<not> ctx_rxIsTerminating (echo_ctx e)" by (simp add: echo_sinks_def)
  show ?case
    using 2(4) echo_good_close(1,2) [OF 2(1) on, of code reason] echo_good_error(1,2) [OF 2(1) on 2(3), of why]
    by (auto simp: echo_sinks_def)
next
  case (3 e m)
  then have on: "\<not> ctx_rxIsTerminating (echo_ctx e)" by (simp add: echo_sinks_def)
  show ?case using echo_good_goes_on(2) [OF 3(1) on, of "OnMessage m" m TEXT] echo_deliver [OF 3(1) on, of m]
    by (simp add: echo_sinks_def)
next
  case (4 e m)
  then have on: "\<not> ctx_rxIsTerminating (echo_ctx e)" by (simp add: echo_sinks_def)
  show ?case using echo_good_goes_on(2) [OF 4(1) on, of "OnBinary m" m BINARY] echo_deliver [OF 4(1) on, of m]
    by (simp add: echo_sinks_def)
next
  case (5 e p)
  then have on: "\<not> ctx_rxIsTerminating (echo_ctx e)" by (simp add: echo_sinks_def)
  show ?case using echo_good_ping(2) [OF 5(1) on 5(3)] by (simp add: echo_sinks_def)
next
  case (6 e code reason)
  then have on: "\<not> ctx_rxIsTerminating (echo_ctx e)" by (simp add: echo_sinks_def)
  show ?case using echo_good_close(3) [OF 6(1) on, of code reason] by (simp add: echo_sinks_def)
next
  case (7 e close_code why)
  then have on: "\<not> ctx_rxIsTerminating (echo_ctx e)" by (simp add: echo_sinks_def)
  show ?case using echo_good_error(3) [OF 7(1) on 7(3), of why] by (simp add: echo_sinks_def)
qed

section \<open>Properties\<close>

text \<open>C23: the echo client answers: on an open, uncompressed connection it sends back every text and every binary
  message of the server, unchanged and in order, and a pong for every ping between them, from inside the
  callbacks; a server that reads the bytes it has written since the handshake finds exactly these frames behind
  the ones sent before.\<close>

theorem echo_answers:
  assumes "pullup_doc Z" "deflate_doc Z whole peer" "reachable ws_started (ws_step Z) w" "\<not> dead w" "upgraded (ctx w)"
    "\<not> ctx_rxIsTerminating (ctx w)" "\<not> use_compression (ctx w)" "rx_assembling a (rx w)"
    "cl_ctx (echo_client e) = Some (ctx w)" "\<not> stop_echo e" "rfc_stream (input w @ bs) a = Some (evs, Some b)"
  defines "ms \<equiv> sent (trace (ctx w)) @ concat (map answers evs)"
  assumes "sendable Z ms"
  shows "\<exists>rest r e' y k out fs. onData Z (echo_sinks Z) (input w @ bs) (rx w) e = Some (False, rest, r, e') \<and>
    cl_ctx (echo_client e') = Some y \<and> \<not> ctx_rxIsTerminating y \<and> rx_assembling b r \<and>
    out_buf y = concat (replicate k (handshakeRequest (config y) (ws_key y))) @ out \<and>
    server_frames out = Some fs \<and> list_all2 (frame_carries whole peer) fs ms"
proof -
  let ?k = "length (rx_log (ctx w))" and ?m = "sent (trace (ctx w))"
  have "rx_good (ctx w)" by (rule reachable_good [OF assms(3-5)])
  moreover have "wired Z whole peer (ctx w)" by (rule wire.always [OF assms(3)]) (simp add: ws_started_wired)
  ultimately have good: "echo_good Z whole peer ?m ?k e" using assms(9,10) by (simp add: echo_good_def)
  have ctx: "echo_ctx e = ctx w" using assms(9) by (simp add: echo_ctx_def)
  have "\<not> rxIsTerminating (echo_sinks Z) e" "\<not> rxCompressionEnabled (echo_sinks Z) e"
    using assms(6,7) by (simp_all add: echo_sinks_def ctx)
  from echoing.onData_realises [OF assms(1,11) good this assms(8)]
  obtain rest r e' where res: "onData Z (echo_sinks Z) (input w @ bs) (rx w) e = Some (False, rest, r, e')"
    "rx_realises (echo_sinks Z) (echo_good Z whole peer ?m ?k) (\<lambda>e. rx_log (echo_ctx e)) e (evs, Some b) r e'" by blast
  then have good': "echo_good Z whole peer ?m ?k e'" and log: "rx_log (echo_ctx e') = rx_log (ctx w) @ evs"
    and on: "\<not> ctx_rxIsTerminating (echo_ctx e')" "rx_assembling b r"
    by (simp_all add: rx_realises_def echo_sinks_def ctx)
  then obtain y where y: "cl_ctx (echo_client e') = Some y" "echo_ctx e' = y" by (auto simp: echo_good_def echo_ctx_def)
  then have "wired Z whole peer y" "sent (trace y) = ms"
    using good' log on(1) by (auto simp: echo_good_def ms_def)
  then have "on_wire Z whole peer y" "sendable Z (sent (trace y))" using assms(2,13) by (simp_all add: wired_def)
  then show ?thesis using on_wire_read res(1) y on \<open>sent (trace y) = ms\<close> by metis
qed

text \<open>An echo client whose connection is open.\<close>

definition demo_echo :: "unit echo" where
  "demo_echo = \<lparr>echo_client = (case_client (\<lambda>_. True) (\<lambda>_. False) 1 (WebSocketClient 0 False False))\<lparr>cl_ctx := Some (ctx demo_open)\<rparr>,
     stop_echo = False, case_done = False\<rparr>"

theorem echo_answers_witness:
  "\<exists>rest r e' y request out f g. onData stored_ext (echo_sinks stored_ext) [0x02, 2, 7, 8, 0x89, 0, 0x80, 1, 9] (rx demo_open) demo_echo =
      Some (False, rest, r, e') \<and> cl_ctx (echo_client e') = Some y \<and> out_buf y = request @ out \<and>
    server_frames out = Some [f, g] \<and> frame_carries stored_whole () f (PONG, []) \<and>
    frame_carries stored_whole () g (BINARY, [7, 8, 9])"
proof -
  let ?bs = "[0x02, 2, 7, 8, 0x89, 0, 0x80, 1, 9] :: bytes"
  have e: "cl_ctx (echo_client demo_echo) = Some (ctx demo_open)" "\<not> stop_echo demo_echo" by (simp_all add: demo_echo_def)
  have "rfc_stream (input demo_open @ ?bs) Idle = Some ([EvPing [], EvBinary [7, 8, 9]], Some Idle)"
    by (simp add: demo_open_fields rfc_stream.simps rfc_server_frame_def rfc_server_length_def rfc_message_def rfc_fragment_def)
  moreover have "rx_assembling Idle (rx demo_open)" by (simp add: demo_open_fields WebSocketReceiver_def)
  moreover have "sendable stored_ext [(PONG, []), (BINARY, [7, 8, 9])]" by (simp add: sendable_def stored_ext_def)
  ultimately have "\<exists>rest r e' y k out fs. onData stored_ext (echo_sinks stored_ext) ?bs (rx demo_open) demo_echo =
      Some (False, rest, r, e') \<and> cl_ctx (echo_client e') = Some y \<and>
      out_buf y = concat (replicate k (handshakeRequest (config y) (ws_key y))) @ out \<and>
      server_frames out = Some fs \<and> list_all2 (frame_carries stored_whole ()) fs [(PONG, []), (BINARY, [7, 8, 9])]"
    using echo_answers [OF stored_pullup_doc stored_deflate_doc demo_open_reachable demo_open_fields(3,2,6,5) _ e, of Idle ?bs]
    by (simp add: demo_open_fields) blast
  then show ?thesis by (fastforce simp: list_all2_Cons2)
qed

end
