(* ===== verification/Threads.thy ===== *)
theory Threads
  imports Prelude
begin

text \<open>
  The life of a connection object between the threads that use a client: the pointer \<open>_ctx\<close> of the client, the thread
  object \<open>event_thread\<close> and the calls of the client in the steps of which they are made, since nothing
  in the client is locked.
\<close>

section \<open>State\<close>

text \<open>Where a thread is: in \<open>sendMessage\<close> or \<open>sendBinary\<close> (about to test \<open>_ctx\<close>, about to dereference it, in \<open>sendData\<close>), in
  \<open>disconnect\<close> (about to test \<open>_ctx\<close>, about to dereference it), in \<open>stop\<close> (about to test whether the thread can be joined, about
  to join or detach it, waiting for its end) or about to reset \<open>_ctx\<close>.\<close>

datatype point = Outside | SendTest | SendCall | Sending | StopTest | StopCall | JoinTest | JoinCall | JoinWait | ResetCall

text \<open>A null pointer dereferenced, a destroyed object used, and an exception of \<open>join\<close> or \<open>detach\<close> on a thread that is not joinable.\<close>

datatype crash = NullContext | UsedAfterFree | NotJoinable

text \<open>Thread 0 is the event thread. \<open>ctx_set\<close> says that \<open>_ctx\<close> is not null, \<open>joinable\<close> is that of \<open>event_thread\<close>,
  \<open>ended\<close> says that \<open>run\<close> has returned, which releases the reference the event thread holds.\<close>

record handle =
  ctx_set :: bool
  joinable :: bool
  ended :: bool
  at :: "nat \<Rightarrow> point"
  crashed :: "crash option"

text \<open>A client that has connected: \<open>start\<close> has made the event thread, with a reference to the object.\<close>

definition client_started :: handle where
  "client_started = \<lparr>ctx_set = True, joinable = True, ended = False, at = (\<lambda>_. Outside), crashed = None\<rparr>"

definition object_alive :: "handle \<Rightarrow> bool" where
  "object_alive s \<longleftrightarrow> ctx_set s \<or> \<not> ended s"

definition goto :: "nat \<Rightarrow> point \<Rightarrow> handle \<Rightarrow> handle" where
  "goto t p s = s\<lparr>at := (at s)(t := p)\<rparr>"

definition crash_with :: "crash \<Rightarrow> handle \<Rightarrow> handle" where
  "crash_with f s = s\<lparr>crashed := Some f\<rparr>"

section \<open>The calls\<close>

text \<open>\<open>sendMessage\<close> and \<open>sendBinary\<close>: \<open>_ctx && _ctx->sendData(...)\<close>. The result is None where the thread is elsewhere.\<close>

definition send_advance :: "nat \<Rightarrow> handle \<Rightarrow> handle option" where
  "send_advance t s =
     (case at s t of
        SendTest \<Rightarrow> Some (goto t (if ctx_set s then SendCall else Outside) s)
      | SendCall \<Rightarrow> Some (if ctx_set s then goto t Sending s else crash_with NullContext s)
      | Sending \<Rightarrow> Some (if object_alive s then goto t Outside s else crash_with UsedAfterFree s)
      | _ \<Rightarrow> None)"

text \<open>\<open>stop\<close>, a member of the object. The event thread detaches itself; another thread waits for its end, and
  is blocked until then.\<close>

definition stop_advance :: "nat \<Rightarrow> handle \<Rightarrow> handle option" where
  "stop_advance t s =
     (if at s t \<notin> {JoinTest, JoinCall, JoinWait} then None
      else if \<not> object_alive s then Some (crash_with UsedAfterFree s)
      else
        (case at s t of
           JoinTest \<Rightarrow> Some (goto t (if joinable s then JoinCall else ResetCall) s)
         | JoinCall \<Rightarrow>
             Some (if \<not> joinable s then crash_with NotJoinable s
                   else if t = 0 then goto t ResetCall (s\<lparr>joinable := False\<rparr>)
                   else goto t JoinWait s)
         | _ \<Rightarrow>
             if \<not> joinable s then Some (crash_with NotJoinable s)
             else if ended s then Some (goto t ResetCall (s\<lparr>joinable := False\<rparr>))
             else None))"

text \<open>\<open>disconnect\<close>.\<close>

definition disconnect_advance :: "nat \<Rightarrow> handle \<Rightarrow> handle option" where
  "disconnect_advance t s =
     (case at s t of
        StopTest \<Rightarrow> Some (goto t (if ctx_set s then StopCall else Outside) s)
      | StopCall \<Rightarrow> Some (if ctx_set s then goto t JoinTest s else crash_with NullContext s)
      | ResetCall \<Rightarrow> Some (goto t Outside (s\<lparr>ctx_set := False\<rparr>))
      | _ \<Rightarrow> stop_advance t s)"

definition advance :: "nat \<Rightarrow> handle \<Rightarrow> handle option" where
  "advance t s = (case send_advance t s of Some s1 \<Rightarrow> Some s1 | None \<Rightarrow> disconnect_advance t s)"

text \<open>The threads in \<open>S\<close> send, those in \<open>D\<close> disconnect; the event thread does so in callbacks, and its loop can end between two
  callbacks.\<close>

inductive thread_step :: "nat set \<Rightarrow> nat set \<Rightarrow> handle \<Rightarrow> handle \<Rightarrow> bool" for S D where
  call_send: "crashed s = None \<Longrightarrow> t \<in> S \<Longrightarrow> at s t = Outside \<Longrightarrow> (t = 0 \<longrightarrow> \<not> ended s) \<Longrightarrow>
    thread_step S D s (goto t SendTest s)"
| call_disconnect: "crashed s = None \<Longrightarrow> t \<in> D \<Longrightarrow> at s t = Outside \<Longrightarrow> (t = 0 \<longrightarrow> \<not> ended s) \<Longrightarrow>
    thread_step S D s (goto t StopTest s)"
| goes_on: "crashed s = None \<Longrightarrow> advance t s = Some s' \<Longrightarrow> thread_step S D s s'"
| loop_over: "crashed s = None \<Longrightarrow> \<not> ended s \<Longrightarrow> at s 0 = Outside \<Longrightarrow> thread_step S D s (s\<lparr>ended := True\<rparr>)"

lemmas thread_defs = advance_def send_advance_def disconnect_advance_def stop_advance_def goto_def crash_with_def object_alive_def

section \<open>One owner\<close>

text \<open>The points at which the owner relies on the pointer, on the thread being joinable and on its end, and those where the event
  thread can be.\<close>

fun relies_on :: "point \<Rightarrow> bool \<times> bool \<times> bool" where
  "relies_on SendCall = (True, False, False)"
| "relies_on Sending = (True, False, False)"
| "relies_on StopCall = (True, False, False)"
| "relies_on JoinTest = (True, False, False)"
| "relies_on JoinCall = (True, True, False)"
| "relies_on JoinWait = (True, True, False)"
| "relies_on ResetCall = (False, False, True)"
| "relies_on _ = (False, False, False)"

fun in_send :: "point \<Rightarrow> bool" where
  "in_send SendTest = True"
| "in_send SendCall = True"
| "in_send Sending = True"
| "in_send _ = False"

text \<open>One thread besides the event thread, which only sends.\<close>

definition owned :: "nat \<Rightarrow> handle \<Rightarrow> bool" where
  "owned k s \<longleftrightarrow> crashed s = None \<and> (ctx_set s \<or> ended s) \<and> (joinable s \<or> ended s) \<and>
     (at s 0 = Outside \<or> in_send (at s 0) \<and> \<not> ended s) \<and>
     (fst (relies_on (at s k)) \<longrightarrow> ctx_set s) \<and> (fst (snd (relies_on (at s k))) \<longrightarrow> joinable s) \<and>
     (snd (snd (relies_on (at s k))) \<longrightarrow> ended s) \<and> (\<forall>t. t \<noteq> 0 \<and> t \<noteq> k \<longrightarrow> at s t = Outside)"

lemma owned_moved:
  assumes "owned k s" "k \<noteq> 0" "c \<or> ended s" "j \<or> ended s" "fst (relies_on p) \<longrightarrow> c" "fst (snd (relies_on p)) \<longrightarrow> j"
    "snd (snd (relies_on p)) \<longrightarrow> ended s"
  shows "owned k (goto k p (s\<lparr>ctx_set := c, joinable := j\<rparr>))"
proof -
  have "crashed s = None" "at s 0 = Outside \<or> in_send (at s 0) \<and> \<not> ended s" "\<forall>t. t \<noteq> 0 \<and> t \<noteq> k \<longrightarrow> at s t = Outside"
    using assms(1) by (simp_all add: owned_def)
  then show ?thesis using assms(2-) by (simp add: owned_def goto_def)
qed

lemma owned_goto:
  assumes "owned k s" "k \<noteq> 0" "fst (relies_on p) \<longrightarrow> ctx_set s" "fst (snd (relies_on p)) \<longrightarrow> joinable s"
    "snd (snd (relies_on p)) \<longrightarrow> ended s"
  shows "owned k (goto k p s)"
proof -
  have "ctx_set s \<or> ended s" "joinable s \<or> ended s" using assms(1) by (simp_all add: owned_def)
  from owned_moved [OF assms(1,2) this assms(3-5)] show ?thesis by simp
qed

lemma owned_goto0:
  assumes "owned k s" "k \<noteq> 0" "p = Outside \<or> in_send p \<and> \<not> ended s"
  shows "owned k (goto 0 p s)"
  using assms by (simp add: owned_def goto_def)

lemma owned_event:
  assumes "owned k s" "advance 0 s = Some s'" "k \<noteq> 0"
  shows "owned k s'"
proof (cases "at s 0 = Outside")
  case True
  then show ?thesis using assms(2) by (simp add: thread_defs)
next
  case False
  then have p: "in_send (at s 0)" "\<not> ended s" "ctx_set s" using assms(1) by (auto simp: owned_def)
  have "s' = goto 0 (if at s 0 = SendTest then SendCall else if at s 0 = SendCall then Sending else Outside) s"
    using assms(2) p by (cases "at s 0") (simp_all add: thread_defs)
  then show ?thesis using p by (auto intro!: owned_goto0 [OF assms(1,3)])
qed

lemma owned_owner:
  assumes "owned k s" "advance k s = Some s'" "k \<noteq> 0"
  shows "owned k s'"
proof -
  have o: "crashed s = None" "ctx_set s \<or> ended s" "joinable s \<or> ended s" "at s 0 = Outside \<or> in_send (at s 0) \<and> \<not> ended s"
    "fst (relies_on (at s k)) \<longrightarrow> ctx_set s" "fst (snd (relies_on (at s k))) \<longrightarrow> joinable s"
    "snd (snd (relies_on (at s k))) \<longrightarrow> ended s" "\<forall>t. t \<noteq> 0 \<and> t \<noteq> k \<longrightarrow> at s t = Outside"
    using assms(1) by (simp_all add: owned_def)
  note moved = owned_moved [OF assms(1,3)] and stay = owned_goto [OF assms(1,3)]
  show ?thesis
  proof (cases "at s k")
    case JoinWait
    then have "ctx_set s" "joinable s" using o by simp_all
    then have "ended s" "s' = goto k ResetCall (s\<lparr>joinable := False\<rparr>)"
      using assms(2) JoinWait by (simp_all add: advance_def send_advance_def disconnect_advance_def stop_advance_def object_alive_def
          split: if_split_asm)
    then show ?thesis using moved [of "ctx_set s" False ResetCall] by simp
  next
    case ResetCall
    then have "s' = goto k Outside (s\<lparr>ctx_set := False\<rparr>)" "ended s" using assms(2) o(7)
      by (simp_all add: advance_def send_advance_def disconnect_advance_def)
    then show ?thesis using moved [of False "joinable s" Outside] by simp
  next
    case JoinTest
    then show ?thesis using assms(2) o stay [of JoinCall] stay [of ResetCall]
      by (auto simp: advance_def send_advance_def disconnect_advance_def stop_advance_def object_alive_def)
  next
    case JoinCall
    then show ?thesis using assms(2,3) o stay [of JoinWait]
      by (simp add: advance_def send_advance_def disconnect_advance_def stop_advance_def object_alive_def)
  next
    case SendTest
    then show ?thesis using assms(2) stay [of SendCall] stay [of Outside] by (auto simp: advance_def send_advance_def)
  next
    case SendCall
    then show ?thesis using assms(2) o stay [of Sending] by (simp add: advance_def send_advance_def)
  next
    case Sending
    then show ?thesis using assms(2) o stay [of Outside] by (simp add: advance_def send_advance_def object_alive_def)
  next
    case StopTest
    then show ?thesis using assms(2) stay [of StopCall] stay [of Outside]
      by (auto simp: advance_def send_advance_def disconnect_advance_def)
  next
    case StopCall
    then show ?thesis using assms(2) o stay [of JoinTest] by (simp add: advance_def send_advance_def disconnect_advance_def)
  qed (use assms(2) in \<open>simp add: thread_defs\<close>)
qed

lemma owned_step:
  assumes "owned k s" "thread_step S D s s'" "S \<subseteq> {0, k}" "D \<subseteq> {k}" "k \<noteq> 0"
  shows "owned k s'"
  using assms(2)
proof cases
  case (call_send t)
  then have "t = 0 \<or> t = k" using assms(3) by auto
  then show ?thesis using call_send owned_goto [OF assms(1,5), of SendTest] owned_goto0 [OF assms(1,5), of SendTest] by auto
next
  case (call_disconnect t)
  then show ?thesis using owned_goto [OF assms(1,5), of StopTest] assms(4) by auto
next
  case (goes_on t)
  have "at s t \<noteq> Outside"
  proof
    assume "at s t = Outside"
    then show False using goes_on(2) by (simp add: thread_defs)
  qed
  moreover have "\<forall>u. u \<noteq> 0 \<and> u \<noteq> k \<longrightarrow> at s u = Outside" using assms(1) by (simp add: owned_def)
  ultimately have "t = 0 \<or> t = k" by blast
  then show ?thesis using goes_on(2) assms(1,5) owned_event owned_owner by blast
next
  case loop_over
  then show ?thesis using assms(1) by (simp add: owned_def)
qed

interpretation owner: transition_system "\<lambda>s. s = client_started" "thread_step (S \<inter> {0, k}) (D \<inter> {k})" "\<lambda>s. k \<noteq> 0 \<longrightarrow> owned k s"
proof
  show "k \<noteq> 0 \<longrightarrow> owned k s" if "s = client_started" for s
    using that by (simp add: owned_def client_started_def)
qed (use owned_step in blast)

section \<open>The end of the object\<close>

text \<open>The destructor of the connection calls \<open>stop\<close> again, on the thread that drops the last reference. The result is None where
  its join has to wait.\<close>

definition context_destructor :: "nat \<Rightarrow> handle \<Rightarrow> handle option" where
  "context_destructor t s =
     (if joinable s then
        (if t \<noteq> 0 then (if ended s then Some (s\<lparr>joinable := False\<rparr>) else None) else Some (s\<lparr>joinable := False\<rparr>))
      else Some s)"

definition settled :: "handle \<Rightarrow> bool" where
  "settled s \<longleftrightarrow> (joinable s \<longrightarrow> ctx_set s \<and> (\<forall>t. at s t \<noteq> ResetCall))"

lemma settled_goto: "settled s \<Longrightarrow> p = ResetCall \<longrightarrow> \<not> joinable s \<Longrightarrow> settled (goto t p s)"
  by (auto simp: settled_def goto_def)

lemma settled_detached: "\<not> joinable s \<Longrightarrow> settled s"
  by (simp add: settled_def)

lemma settled_advance:
  assumes "settled s" "advance t s = Some s'"
  shows "settled s'"
proof -
  note go = settled_goto [OF assms(1), of _ t]
  have "settled (crash_with f s)" for f using assms(1) by (simp add: settled_def crash_with_def)
  moreover have "settled (goto t p (s\<lparr>joinable := False\<rparr>))" for p by (rule settled_detached) (simp add: goto_def)
  moreover have "settled (goto t Outside (s\<lparr>ctx_set := False\<rparr>))" if "at s t = ResetCall"
    by (rule settled_detached) (use assms(1) that in \<open>auto simp: settled_def goto_def\<close>)
  ultimately show ?thesis using assms(2)
    by (cases "at s t") (auto simp: advance_def send_advance_def disconnect_advance_def stop_advance_def split: if_split_asm intro!: go)
qed

lemma settled_step:
  assumes "settled s" "thread_step S D s s'"
  shows "settled s'"
  using assms(2)
proof cases
  case (goes_on t)
  then show ?thesis using settled_advance [OF assms(1)] by blast
next
  case loop_over
  then show ?thesis using assms(1) by (simp add: settled_def)
qed (use settled_goto [OF assms(1)] in auto)

interpretation settling: transition_system "\<lambda>s. s = client_started" "thread_step S D" settled
proof
  show "settled s" if "s = client_started" for s using that by (simp add: settled_def client_started_def)
qed (use settled_step in blast)

text \<open>Whoever sends and disconnects, the destructor finds a thread that has been joined or detached: it never waits, and the thread object
  is never destroyed while it can be joined, which would end the program.\<close>

theorem destructor_idle:
  assumes "reachable (\<lambda>s. s = client_started) (thread_step S D) s" "\<not> object_alive s"
  shows "context_destructor t s = Some s"
proof -
  have "settled s" by (rule settling.always [OF assms(1)])
  then show ?thesis using assms(2) by (auto simp: settled_def object_alive_def context_destructor_def)
qed

section \<open>Properties\<close>

text \<open>C21: where one thread owns the client, that is, sends and disconnects, and the callbacks of the event thread only send, no
  call ever meets a null pointer, a destroyed object or a thread that cannot be joined, in whatever order the calls overlap;
  and once the owner has disconnected, the event thread has ended.\<close>

theorem one_owner_is_safe:
  assumes "reachable (\<lambda>s. s = client_started) (thread_step S D) s" "S \<subseteq> {0, k}" "D \<subseteq> {k}" "k \<noteq> 0"
  shows "crashed s = None \<and> (\<not> ctx_set s \<longrightarrow> ended s)"
proof -
  have "reachable (\<lambda>s. s = client_started) (thread_step (S \<inter> {0, k}) (D \<inter> {k})) s"
    using assms(1) unfolding Int_absorb2 [OF assms(2)] Int_absorb2 [OF assms(3)] .
  from owner.always [OF this] assms(4) have "owned k s" by blast
  then have "crashed s = None" "ctx_set s \<or> ended s" by (simp_all add: owned_def)
  then show ?thesis by blast
qed

theorem one_owner_is_safe_witness:
  "\<exists>s. reachable (\<lambda>s. s = client_started) (thread_step {0, 1} {1}) s \<and> at s 0 = SendTest \<and> at s 1 = StopTest \<and> crashed s = None"
proof -
  let ?s1 = "goto 0 SendTest client_started" and ?s2 = "goto 1 StopTest (goto 0 SendTest client_started)"
  have "thread_step {0, 1} {1} client_started ?s1" by (rule call_send) (simp_all add: client_started_def)
  then have r1: "reachable (\<lambda>s. s = client_started) (thread_step {0, 1} {1}) ?s1"
    by (rule reachable_step [OF reachable_init [of "\<lambda>s. s = client_started", OF refl]])
  have "thread_step {0, 1} {1} ?s1 ?s2" by (rule call_disconnect) (simp_all add: client_started_def goto_def)
  then have r2: "reachable (\<lambda>s. s = client_started) (thread_step {0, 1} {1}) ?s2" by (rule reachable_step [OF r1])
  from one_owner_is_safe [OF r2, of 1] have "crashed ?s2 = None" by simp
  then show ?thesis using r2 by (intro exI [of _ ?s2]) (simp add: goto_def)
qed

text \<open>The example threads.cpp: the main thread (1) and a second thread (2) send, the error callback on the event thread
  disconnects, and so does the main thread in the end.\<close>

definition threads_send :: "nat set" where
  "threads_send = {1, 2}"

definition threads_disconnect :: "nat set" where
  "threads_disconnect = {0, 1}"

text \<open>A schedule: who starts a call and who goes on with his.\<close>

datatype action = Sends nat | Disconnects nat | Goes nat | LoopEnds

fun schedule :: "nat set \<Rightarrow> nat set \<Rightarrow> action list \<Rightarrow> handle \<Rightarrow> handle option" where
  "schedule S D [] s = Some s"
| "schedule S D (a # as) s =
     (if crashed s \<noteq> None then None
      else
        (case (case a of
                 Sends t \<Rightarrow> if t \<in> S \<and> at s t = Outside \<and> (t = 0 \<longrightarrow> \<not> ended s) then Some (goto t SendTest s) else None
               | Disconnects t \<Rightarrow> if t \<in> D \<and> at s t = Outside \<and> (t = 0 \<longrightarrow> \<not> ended s) then Some (goto t StopTest s) else None
               | Goes t \<Rightarrow> advance t s
               | LoopEnds \<Rightarrow> if \<not> ended s \<and> at s 0 = Outside then Some (s\<lparr>ended := True\<rparr>) else None) of
           None \<Rightarrow> None
         | Some s1 \<Rightarrow> schedule S D as s1))"

lemma schedule_reachable:
  assumes "schedule S D as s = Some s'" "reachable I (thread_step S D) s"
  shows "reachable I (thread_step S D) s'"
  using assms
proof (induction as arbitrary: s)
  case (Cons a as)
  have run: "crashed s = None" using Cons.prems(1) by (simp split: if_split_asm)
  obtain s1 where s1: "thread_step S D s s1" "schedule S D as s1 = Some s'"
    using Cons.prems(1) run
    by (cases a) (auto split: if_split_asm option.split_asm intro: thread_step.intros)
  show ?case by (rule Cons.IH [OF s1(2) reachable_step [OF Cons.prems(2) s1(1)]])
qed simp

text \<open>C22: nothing in the client serialises its calls: in the example that is to show its thread safety, an error reported
  while the main thread sends makes it dereference a null pointer, and one reported while the main thread
  disconnects makes \<open>join\<close> throw out of \<open>disconnect\<close>; two threads of an application suffice, one that sends and one
  that disconnects.\<close>

theorem concurrent_disconnect_crashes:
  "(\<exists>s. reachable (\<lambda>s. s = client_started) (thread_step threads_send threads_disconnect) s \<and> crashed s = Some NullContext) \<and>
   (\<exists>s. reachable (\<lambda>s. s = client_started) (thread_step threads_send threads_disconnect) s \<and> crashed s = Some NotJoinable) \<and>
   (\<exists>s. reachable (\<lambda>s. s = client_started) (thread_step {2} {1}) s \<and> crashed s = Some NullContext) \<and>
   (\<exists>s. reachable (\<lambda>s. s = client_started) (thread_step {2} {1}) s \<and> crashed s = Some UsedAfterFree)"
proof -
  have run: "\<exists>s. reachable (\<lambda>s. s = client_started) (thread_step S D) s \<and> crashed s = Some f"
    if ends: "map_option crashed (schedule S D as client_started) = Some (Some f)" for S D as f
  proof -
    obtain s where "schedule S D as client_started = Some s" "crashed s = Some f" using ends by (auto simp: map_option_eq_Some)
    then show ?thesis using schedule_reachable [OF _ reachable_init [of "\<lambda>s. s = client_started", OF refl]] by blast
  qed
  note ev = client_started_def thread_defs threads_send_def threads_disconnect_def
  show ?thesis
  proof (intro conjI)
    show "\<exists>s. reachable (\<lambda>s. s = client_started) (thread_step threads_send threads_disconnect) s \<and> crashed s = Some NullContext"
      by (rule run [where as = "[Sends 1, Goes 1, Disconnects 0, Goes 0, Goes 0, Goes 0, Goes 0, Goes 0, Goes 1]"]) (simp add: ev)
    show "\<exists>s. reachable (\<lambda>s. s = client_started) (thread_step threads_send threads_disconnect) s \<and> crashed s = Some NotJoinable"
      by (rule run [where as = "[Disconnects 1, Goes 1, Goes 1, Goes 1, Disconnects 0, Goes 0, Goes 0, Goes 0, Goes 0, Goes 1]"]) (simp add: ev)
    show "\<exists>s. reachable (\<lambda>s. s = client_started) (thread_step {2} {1}) s \<and> crashed s = Some NullContext"
      by (rule run [where as = "[Sends 2, Goes 2, Disconnects 1, Goes 1, Goes 1, Goes 1, Goes 1, LoopEnds, Goes 1, Goes 1, Goes 2]"]) (simp add: ev)
    show "\<exists>s. reachable (\<lambda>s. s = client_started) (thread_step {2} {1}) s \<and> crashed s = Some UsedAfterFree"
      by (rule run [where as = "[Sends 2, Goes 2, Goes 2, Disconnects 1, Goes 1, Goes 1, Goes 1, Goes 1, LoopEnds, Goes 1, Goes 1, Goes 2]"]) (simp add: ev)
  qed
qed

end
