(* ===== verification/Ordering.thy ===== *)
theory Ordering
  imports Call Shutdown "HOL-Library.Sublist"
begin

text \<open>
  The order of messages: every thread that calls \<open>sendData\<close> and the event loop, in any interleaving. What is sent is
  an interleaving of the messages of the event thread and those of the other threads, each in the order of its calls.
\<close>

section \<open>Messages sent and waiting\<close>

definition app_data :: "(MessageType \<times> bytes) list \<Rightarrow> (MessageType \<times> bytes) list" where
  "app_data ms = filter (\<lambda>m. fst m = TEXT \<or> fst m = BINARY) ms"

definition delivered :: "'d ctx \<Rightarrow> (MessageType \<times> bytes) list" where
  "delivered x = app_data (sent (trace x))"

definition waiting :: "'d ctx \<Rightarrow> (MessageType \<times> bytes) list" where
  "waiting x = app_data (map queued (send_queue x))"

lemma app_data_simps [simp]:
  "app_data [] = []" "app_data (ms @ ns) = app_data ms @ app_data ns"
  "app_data ((type, d) # ms) = (if type = TEXT \<or> type = BINARY then (type, d) # app_data ms else app_data ms)"
  by (simp_all add: app_data_def)

lemma delivered_frame [simp]:
  "delivered (x\<lparr>wakeup_active := b\<rparr>) = delivered x" "delivered (x\<lparr>send_active := b\<rparr>) = delivered x"
  "delivered (x\<lparr>send_flush_pending := b\<rparr>) = delivered x" "delivered (x\<lparr>stop_requested := b\<rparr>) = delivered x"
  "delivered (x\<lparr>loop_exit := b\<rparr>) = delivered x" "delivered (x\<lparr>connection_state := st\<rparr>) = delivered x"
  "delivered (x\<lparr>upgraded := b\<rparr>) = delivered x" "delivered (x\<lparr>send_queue := q\<rparr>) = delivered x"
  "delivered (x\<lparr>close_sent := b\<rparr>) = delivered x" "delivered (x\<lparr>close_received := b\<rparr>) = delivered x"
  "delivered (x\<lparr>close_cb_fired := b\<rparr>) = delivered x" "delivered (x\<lparr>protocol_failed := b\<rparr>) = delivered x"
  "delivered (x\<lparr>close_timer := b\<rparr>) = delivered x" "delivered (x\<lparr>close_timer_armed := b\<rparr>) = delivered x"
  "delivered (x\<lparr>out_buf := out\<rparr>) = delivered x" "delivered (x\<lparr>use_compression := b\<rparr>) = delivered x"
  "delivered (x\<lparr>pmd := cfg\<rparr>) = delivered x" "delivered (x\<lparr>tx := t\<rparr>) = delivered x"
  "delivered (x\<lparr>timeout_event := b\<rparr>) = delivered x"
  by (simp_all add: delivered_def)

lemma waiting_frame [simp]:
  "waiting (x\<lparr>wakeup_active := b\<rparr>) = waiting x" "waiting (x\<lparr>send_active := b\<rparr>) = waiting x"
  "waiting (x\<lparr>send_flush_pending := b\<rparr>) = waiting x" "waiting (x\<lparr>stop_requested := b\<rparr>) = waiting x"
  "waiting (x\<lparr>loop_exit := b\<rparr>) = waiting x" "waiting (x\<lparr>connection_state := st\<rparr>) = waiting x"
  "waiting (x\<lparr>upgraded := b\<rparr>) = waiting x" "waiting (x\<lparr>send_queue := []\<rparr>) = []"
  "waiting (x\<lparr>close_sent := b\<rparr>) = waiting x" "waiting (x\<lparr>close_received := b\<rparr>) = waiting x"
  "waiting (x\<lparr>close_cb_fired := b\<rparr>) = waiting x" "waiting (x\<lparr>protocol_failed := b\<rparr>) = waiting x"
  "waiting (x\<lparr>close_timer := b\<rparr>) = waiting x" "waiting (x\<lparr>close_timer_armed := b\<rparr>) = waiting x"
  "waiting (x\<lparr>out_buf := out\<rparr>) = waiting x" "waiting (x\<lparr>use_compression := b\<rparr>) = waiting x"
  "waiting (x\<lparr>pmd := cfg\<rparr>) = waiting x" "waiting (x\<lparr>tx := t\<rparr>) = waiting x"
  "waiting (x\<lparr>timeout_event := b\<rparr>) = waiting x"
  "waiting (emit e x) = waiting x" "waiting (ctx_send Z raw type x) = waiting x"
  by (simp_all add: waiting_def emit_def)

lemma delivered_emit [simp]: "sent [e] = [] \<Longrightarrow> delivered (emit e x) = delivered x"
  by (simp add: delivered_def emit_def)

lemma delivered_send: "delivered (ctx_send Z raw type x) =
    delivered x @ (if type = TEXT \<or> type = BINARY then [(type, raw)] else [])"
  by (rule ctx_send_shape [of Z raw type x]) (auto simp: delivered_def is_control_frame_def)

lemma delivered_control [simp]: "type \<in> {CLOSE, PING, PONG} \<Longrightarrow> delivered (ctx_send Z raw type x) = delivered x"
  by (auto simp: delivered_send)

section \<open>Flushing\<close>

lemma flush_open:
  assumes "conn_ok is_open x" "upgraded x" "connection_state x = CONNECTED"
  shows "delivered (flushSendQueue Z x) = delivered x @ waiting x" "waiting (flushSendQueue Z x) = []"
proof -
  have q: "\<forall>d. PClose d \<notin> set (send_queue x)" "bev x" using assms by (auto simp: conn_ok_def queue_ok_def closing_def)
  show "delivered (flushSendQueue Z x) = delivered x @ waiting x"
    using flush_data [OF q(1), of "x\<lparr>send_queue := []\<rparr>" Z] assms(2,3) q
    by (simp add: delivered_def waiting_def flush_eq sent_queued)
  show "waiting (flushSendQueue Z x) = []" by (simp add: waiting_def)
qed

lemma flush_shut:
  assumes "connection_state x \<noteq> CONNECTED"
  shows "delivered (flushSendQueue Z x) = delivered x" "waiting (flushSendQueue Z x) = []"
proof -
  have "delivered (flushPending Z False p y) = delivered y" for p and y :: "'a ctx"
    by (cases p) (simp_all add: flushPending_def sendNow_def armCloseTimer_def)
  then have "delivered (fold (flushPending Z False) ps y) = delivered y" for ps and y :: "'a ctx"
    by (induction ps arbitrary: y) simp_all
  then show "delivered (flushSendQueue Z x) = delivered x" using assms by (simp add: flush_eq)
  show "waiting (flushSendQueue Z x) = []" by (simp add: waiting_def)
qed

section \<open>The invariant\<close>

text \<open>Interleavings at their ends.\<close>

lemma shuffles_snoc2: "zs \<in> shuffles xs ys \<Longrightarrow> zs @ vs \<in> shuffles xs (ys @ vs)"
proof (induction xs ys arbitrary: zs rule: shuffles.induct)
  case (1 ys)
  then show ?case by simp
next
  case (2 xs)
  then have "zs = xs" by simp
  moreover have "xs @ vs \<in> shuffles xs vs" by (induction xs) (simp_all add: Cons_in_shuffles_leftI)
  ultimately show ?case by simp
next
  case (3 x xs y ys)
  then show ?case by auto
qed

lemma shuffles_snoc1: "zs \<in> shuffles xs ys \<Longrightarrow> zs @ vs \<in> shuffles (xs @ vs) ys"
  using shuffles_snoc2 [of zs ys xs vs] shuffles_commutes [of xs ys] shuffles_commutes [of "xs @ vs" ys] by simp

text \<open>Before the upgrade: data waits and is not sent; a flush is not due unless the loop is about to end.\<close>

definition before_upgrade :: "'d ctx \<Rightarrow> bool" where
  "before_upgrade x \<longleftrightarrow> (\<not> upgraded x \<longrightarrow> connection_state x \<noteq> CONNECTED \<and> (connection_state x \<noteq> CONNECTING \<longrightarrow> loop_exit x) \<and>
     (connection_state x = CONNECTING \<longrightarrow> \<not> send_active x \<and> (wakeup_active x \<longrightarrow> stop_requested x)))"

text \<open>\<open>E\<close> are the messages accepted from the event thread, \<open>Q\<close> those accepted from other threads. Messages that
  are dropped, because the connection closes, are left out of \<open>E1\<close> and \<open>O1\<close>.\<close>

definition in_order ::
    "(MessageType \<times> bytes) list \<Rightarrow> (MessageType \<times> bytes) list \<Rightarrow> 'd ctx \<Rightarrow> bool" where
  "in_order E Q x \<longleftrightarrow> (\<exists>E1 Q1. subseq E1 E \<and> subseq Q1 Q \<and> (\<not> loop_exit x \<and> isConnected x \<longrightarrow> E1 = E \<and> Q1 = Q) \<and>
     (if \<not> upgraded x then delivered x = [] \<and> waiting x \<in> shuffles E1 Q1
      else if connection_state x = CONNECTED then \<exists>Q2. Q1 = Q2 @ waiting x \<and> delivered x \<in> shuffles E1 Q2
      else delivered x \<in> shuffles E1 Q1))"

lemma in_order_same:
  assumes "in_order E Q x" "upgraded y = upgraded x" "delivered y = delivered x" "waiting y = waiting x"
    "connection_state y = connection_state x" "loop_exit x \<longrightarrow> loop_exit y"
  shows "in_order E Q y"
proof -
  have "\<not> loop_exit y \<and> isConnected y \<Longrightarrow> \<not> loop_exit x \<and> isConnected x" using assms(5,6) by (simp add: isConnected_def)
  then show ?thesis using assms(1) unfolding in_order_def assms(2-5) by blast
qed

lemma in_order_down:
  assumes "in_order E Q x" "upgraded y = upgraded x" "delivered y = delivered x"
    "\<not> isConnected y \<or> loop_exit y" "\<not> upgraded x \<longrightarrow> waiting y = waiting x \<or> waiting y = []"
    "connection_state y = CONNECTED \<longrightarrow> connection_state x = CONNECTED \<and> waiting y = waiting x"
  shows "in_order E Q y"
proof -
  obtain E1 Q1 where k: "subseq E1 E" "subseq Q1 Q"
    "if \<not> upgraded x then delivered x = [] \<and> waiting x \<in> shuffles E1 Q1
      else if connection_state x = CONNECTED then \<exists>Q2. Q1 = Q2 @ waiting x \<and> delivered x \<in> shuffles E1 Q2
      else delivered x \<in> shuffles E1 Q1"
    using assms(1) unfolding in_order_def by blast
  have open_y: "\<not> loop_exit y \<and> isConnected y \<longrightarrow> A" for A using assms(4) by blast
  show ?thesis
  proof (cases "upgraded x")
    case False
    then show ?thesis
    proof (cases "waiting y = []")
      case True
      then show ?thesis unfolding in_order_def using open_y False assms(2,3) k(3)
        by (intro exI [of _ "[]"]) simp
    next
      case kept: False
      then have "waiting y = waiting x" using assms(5) False by blast
      then show ?thesis unfolding in_order_def using open_y False assms(2,3) k
        by (intro exI [of _ E1] exI [of _ Q1]) simp
    qed
  next
    case True
    show ?thesis
    proof (cases "connection_state x = CONNECTED")
      case False
      then show ?thesis unfolding in_order_def using open_y True assms(2,3,6) k
        by (intro exI [of _ E1] exI [of _ Q1]) auto
    next
      case conn: True
      then obtain Q2 where q2: "Q1 = Q2 @ waiting x" "delivered x \<in> shuffles E1 Q2" using k(3) True by auto
      show ?thesis
      proof (cases "connection_state y = CONNECTED")
        case True
        then show ?thesis unfolding in_order_def using open_y \<open>upgraded x\<close> assms(2,3,6) k(1,2) q2
          by (intro exI [of _ E1] exI [of _ Q1]) auto
      next
        case False
        have "subseq Q2 Q" using k(2) unfolding q2(1) by (rule subseq_order.order_trans [rotated]) (simp add: prefix_imp_subseq)
        then show ?thesis unfolding in_order_def using open_y \<open>upgraded x\<close> False assms(2,3) k(1) q2(2)
          by (intro exI [of _ E1] exI [of _ Q2]) simp
      qed
    qed
  qed
qed

text \<open>The flush of an open connection.\<close>

lemma in_order_flush:
  assumes "in_order E Q x" "conn_ok is_open x" "upgraded x \<or> loop_exit x \<and> connection_state x \<noteq> CONNECTED"
  shows "in_order E Q (flushSendQueue Z x)"
proof (cases "connection_state x = CONNECTED")
  case False
  then show ?thesis using flush_shut [OF False, of Z] assms flushSendQueue_ok(2) [OF assms(2), of Z]
    by (intro in_order_down [OF assms(1)]) (auto simp: isConnected_def conn_ok_def closing_def)
next
  case True
  then have up: "upgraded x" using assms(3) by simp
  then obtain E1 Q1 Q2 where k: "subseq E1 E" "subseq Q1 Q" "\<not> loop_exit x \<and> isConnected x \<longrightarrow> E1 = E \<and> Q1 = Q"
    "Q1 = Q2 @ waiting x" "delivered x \<in> shuffles E1 Q2"
    using assms(1) True unfolding in_order_def by auto
  have "delivered (flushSendQueue Z x) \<in> shuffles E1 Q1"
    using shuffles_snoc2 [OF k(5), of "waiting x"] flush_open(1) [OF assms(2) up True, of Z] by (simp add: k(4))
  then show ?thesis unfolding in_order_def
    using k(1-3) up True flush_open(2) [OF assms(2) up True, of Z] flushSendQueue_ok(2) [OF assms(2), of Z]
    by (intro exI [of _ E1] exI [of _ Q1]) (simp add: isConnected_def)
qed

section \<open>Every operation keeps it\<close>

definition orderly :: "(MessageType \<times> bytes) list \<Rightarrow> (MessageType \<times> bytes) list \<Rightarrow> 'd ctx \<Rightarrow> bool" where
  "orderly E Q x \<longleftrightarrow> before_upgrade x \<and> in_order E Q x"

text \<open>The fields of a request.\<close>

lemma request_fields [simp]:
  "delivered (requestWakeup x) = delivered x" "waiting (requestWakeup x) = waiting x"
  "delivered (requestLoopExit on_event x) = delivered x" "waiting (requestLoopExit on_event x) = waiting x"
  "delivered (requestSendFlush x) = delivered x" "waiting (requestSendFlush x) = waiting x"
  "delivered (armCloseTimer x) = delivered x" "waiting (armCloseTimer x) = waiting x"
  "delivered (sendError code msg x) = delivered x" "waiting (sendError code msg x) = waiting x"
  "delivered (sendCloseCallback c reason x) = delivered x" "waiting (sendCloseCallback c reason x) = waiting x"
  "loop_exit (requestSendFlush x) = loop_exit x" "loop_exit (requestWakeup x) = loop_exit x"
  "loop_exit (sendError code msg x) = loop_exit x" "loop_exit (sendCloseCallback c reason x) = loop_exit x"
  "connection_state (sendError code msg x) = connection_state x"
  "base (sendError code msg x) = base x" "base (sendCloseCallback c reason x) = base x"
  "send_active (sendError code msg x) = send_active x" "send_active (sendCloseCallback c reason x) = send_active x"
  "wakeup_active (sendError code msg x) = wakeup_active x" "wakeup_active (sendCloseCallback c reason x) = wakeup_active x"
  "stop_requested (sendError code msg x) = stop_requested x" "stop_requested (sendCloseCallback c reason x) = stop_requested x"
  by (simp_all add: requestWakeup_def requestLoopExit_def requestSendFlush_def armCloseTimer_def sendError_def
      sendCloseCallback_def Let_def emit_def delivered_def waiting_def)

lemma exit_fields [simp]:
  "base x \<Longrightarrow> loop_exit (requestLoopExit True x)" "loop_exit x \<Longrightarrow> loop_exit (requestLoopExit on_event x)"
  by (simp_all add: requestLoopExit_def requestWakeup_def Let_def)

lemma before_upgradeD:
  "before_upgrade x \<Longrightarrow> \<not> upgraded x \<Longrightarrow> connection_state x \<noteq> CONNECTED"
  "before_upgrade x \<Longrightarrow> \<not> upgraded x \<Longrightarrow> connection_state x \<noteq> CONNECTING \<Longrightarrow> loop_exit x"
  "before_upgrade x \<Longrightarrow> \<not> upgraded x \<Longrightarrow> connection_state x = CONNECTING \<Longrightarrow> \<not> send_active x"
  by (simp_all add: before_upgrade_def)

lemma before_upgradeI:
  assumes "\<not> upgraded x \<Longrightarrow> connection_state x \<noteq> CONNECTED"
    "\<not> upgraded x \<Longrightarrow> connection_state x \<noteq> CONNECTING \<Longrightarrow> loop_exit x"
    "\<not> upgraded x \<Longrightarrow> connection_state x = CONNECTING \<Longrightarrow> \<not> send_active x"
    "\<not> upgraded x \<Longrightarrow> connection_state x = CONNECTING \<Longrightarrow> wakeup_active x \<Longrightarrow> stop_requested x"
  shows "before_upgrade x"
  using assms by (simp add: before_upgrade_def)

text \<open>The loop is told to exit, perhaps after the state has become one that is not connected, or the queue has
  been cleared before the upgrade.\<close>

lemma orderly_exit:
  assumes "orderly E Q x" "base y" "upgraded y = upgraded x" "delivered y = delivered x"
    "upgraded x \<and> connection_state y = CONNECTED \<longrightarrow> waiting y = waiting x"
    "\<not> upgraded x \<longrightarrow> waiting y = waiting x \<or> waiting y = []"
    "connection_state y = connection_state x \<or> \<not> isConnected y"
    "\<not> upgraded x \<and> connection_state y = CONNECTING \<longrightarrow> send_active y = send_active x"
  shows "orderly E Q (requestLoopExit True y)"
proof -
  define z where "z = requestLoopExit True y"
  have z: "upgraded z = upgraded x" "delivered z = delivered x" "loop_exit z" "waiting z = waiting y"
    "connection_state z = connection_state y" "stop_requested z" "send_active z = send_active y"
    using assms(2-4) by (simp_all add: z_def) (simp_all add: requestLoopExit_def)
  have x: "before_upgrade x" "in_order E Q x" using assms(1) by (simp_all add: orderly_def)
  have same: "connection_state y = connection_state x" if "connection_state y = CONNECTED \<or> connection_state y = CONNECTING"
    using assms(7) that unfolding isConnected_def by blast
  have "before_upgrade z"
  proof (rule before_upgradeI)
    show "connection_state z \<noteq> CONNECTED" if "\<not> upgraded z"
      using that before_upgradeD(1) [OF x(1)] same unfolding z(1,5) by metis
    show "\<not> send_active z" if "\<not> upgraded z" "connection_state z = CONNECTING"
      using that before_upgradeD(3) [OF x(1)] same assms(8) unfolding z(1,5,7) by metis
  qed (use z in simp_all)
  moreover have "in_order E Q z"
  proof (rule in_order_down [OF x(2) z(1,2)])
    have "upgraded x" if "connection_state x = CONNECTED" using before_upgradeD(1) [OF x(1)] that by blast
    then show "connection_state z = CONNECTED \<longrightarrow> connection_state x = CONNECTED \<and> waiting z = waiting x"
      using assms(5) same unfolding z(4,5) by metis
    show "\<not> upgraded x \<longrightarrow> waiting z = waiting x \<or> waiting z = []" using assms(6) unfolding z(4) .
  qed (use z(3) in blast)
  ultimately show ?thesis by (simp add: orderly_def z_def)
qed

text \<open>The other changes.\<close>

lemma orderly_same:
  assumes "orderly E Q x" "upgraded y = upgraded x" "delivered y = delivered x" "waiting y = waiting x"
    "connection_state y = connection_state x" "loop_exit y = loop_exit x"
    "\<not> upgraded x \<and> connection_state x = CONNECTING \<longrightarrow> (send_active y \<longrightarrow> send_active x) \<and> (wakeup_active y \<longrightarrow> stop_requested y)"
  shows "orderly E Q y"
proof -
  have x: "before_upgrade x" "in_order E Q x" using assms(1) by (simp_all add: orderly_def)
  have "in_order E Q y" by (rule in_order_same [OF x(2) assms(2-5)]) (simp add: assms(6))
  moreover have "before_upgrade y"
    using before_upgradeD [OF x(1)] assms(7) by (intro before_upgradeI; unfold assms(2,5,6)) blast+
  ultimately show ?thesis by (simp add: orderly_def)
qed

lemma orderly_closing:
  assumes "orderly E Q x" "upgraded x" "upgraded y" "delivered y = delivered x" "\<not> isConnected y"
  shows "orderly E Q y"
proof -
  have "in_order E Q x" using assms(1) by (simp add: orderly_def)
  then have "in_order E Q y"
    by (rule in_order_down) (use assms(2-5) in \<open>simp_all add: isConnected_def\<close>)
  then show ?thesis using assms(3) by (simp add: orderly_def before_upgrade_def)
qed

lemma orderly_flush:
  assumes "orderly E Q x" "conn_ok is_open x" "\<not> upgraded x \<longrightarrow> connection_state x \<noteq> CONNECTING"
  shows "orderly E Q (flushSendQueue Z x)"
proof -
  have "in_order E Q (flushSendQueue Z x)" 
    using assms in_order_flush [of E Q x is_open Z] by (auto simp: orderly_def before_upgrade_def)
  moreover have "before_upgrade (flushSendQueue Z x)"
    using assms(1) flushSendQueue_ok(2) [OF assms(2), of Z] by (simp add: orderly_def before_upgrade_def)
  ultimately show ?thesis by (simp add: orderly_def)
qed

lemma orderly_close:
  assumes "orderly E Q x" "upgraded x" "conn_ok is_open x"
  shows "orderly E Q (snd (ctx_close on_event code reason x))"
proof (cases "connection_state x = DISCONNECTING \<or> connection_state x = DISCONNECTED")
  case True
  then show ?thesis using assms(1) by (simp add: ctx_close_def)
next
  case False
  then show ?thesis using assms(2,3)
    by (intro orderly_closing [OF assms(1,2)]) (auto simp: ctx_close_def Let_def isConnected_def conn_ok_def)
qed

lemma orderly_stopNow:
  assumes "orderly E Q x" "conn_ok is_open x"
  shows "orderly E Q (stopNow x)"
proof -
  have live: "bev x" "base x" using assms(2) by (simp_all add: conn_ok_def)
  consider "connection_state x = DISCONNECTING \<or> connection_state x = DISCONNECTED"
    | "upgraded x" "connection_state x = CONNECTED" | "\<not> upgraded x" "connection_state x \<notin> {DISCONNECTING, DISCONNECTED}"
    using assms(2) by (auto simp: conn_ok_def closing_def)
  then show ?thesis
  proof cases
    case 1
    then show ?thesis using assms(1) by (simp add: stopNow_def)
  next
    case 2
    then show ?thesis using live orderly_close [OF assms(1) 2(1) assms(2)] by (simp add: stopNow_def)
  next
    case 3
    then have "stopNow x = requestLoopExit True (x\<lparr>connection_state := DISCONNECTED\<rparr>)" by (simp add: stopNow_def)
    then show ?thesis using orderly_exit [OF assms(1), of "x\<lparr>connection_state := DISCONNECTED\<rparr>"] live
      by (simp add: isConnected_def)
  qed
qed

lemma orderly_event:
  assumes "orderly E Q x" "conn_ok is_open x"
  shows "orderly E Q (handleEvent ev x)"
proof -
  have b: "base x" using assms(2) by (simp add: conn_ok_def)
  have "orderly E Q (requestLoopExit True x)" by (rule orderly_exit [OF assms(1) b]) simp_all
  moreover have shut: "orderly E Q (requestLoopExit True (y\<lparr>connection_state := DISCONNECTING\<rparr>))"
    if "upgraded y = upgraded x" "delivered y = delivered x" "base y" "\<not> upgraded x \<longrightarrow> waiting y = waiting x \<or> waiting y = []" for y
    by (rule orderly_exit [OF assms(1)]) (use that in \<open>simp_all add: isConnected_def\<close>)
  then have "orderly E Q (handleError ev x)"
    using b by (auto simp: handleError_def Let_def intro!: shut)
  moreover have "orderly E Q (handleTimeout x)"
    unfolding handleTimeout_def Let_def by (rule shut) (use b in simp_all)
  moreover have "orderly E Q (handleEof x)"
    unfolding handleEof_def Let_def
    by (rule orderly_exit [OF assms(1)]) (use b in \<open>simp_all add: isConnected_def\<close>)
  moreover have "orderly E Q (handleConnected ev x)"
  proof -
    have "orderly E Q (requestLoopExit True (sendError code msg x))" for code msg
      by (rule orderly_exit [OF assms(1)]) (use b in simp_all)
    moreover have "orderly E Q (sendHandshakeRequest x)"
      by (rule orderly_same [OF assms(1)]) (use before_upgradeD assms(1) in
        \<open>simp_all add: sendHandshakeRequest_def orderly_def before_upgrade_def\<close>)
    ultimately show ?thesis by (simp add: handleConnected_def)
  qed
  ultimately show ?thesis using assms(1) by (simp add: handleEvent_def Let_def)
qed

lemma orderly_rx_close:
  assumes "rx_good x" "\<not> ctx_rxIsTerminating x" "orderly E Q x"
  shows "orderly E Q (ctx_onRxClose Z code reason x)"
proof -
  note live = rx_good_live [OF assms(1,2)]
  obtain b y where y: "ctx_close True (uint code) reason x = (b, y)" by fastforce
  define y1 where "y1 = flushSendQueue Z (y\<lparr>close_received := True\<rparr>)"
  have ok: "conn_ok True x" using assms(1) by (simp add: rx_good_def)
  have "upgraded y" "connection_state y = DISCONNECTING" "delivered y = delivered x"
    using y live by (auto simp: ctx_close_def Let_def split: if_split_asm)
  moreover have "upgraded y1 = upgraded y"
  proof -
    have "conn_ok True (y\<lparr>close_received := True\<rparr>)"
      using ctx_close_ok [OF ok y] live by (simp add: conn_defs)
    from flushSendQueue_ok(2) [OF this] show ?thesis by (simp add: y1_def)
  qed
  ultimately have "upgraded (sendCloseCallback (uint code) reason y1)" "\<not> isConnected (sendCloseCallback (uint code) reason y1)"
    "delivered (sendCloseCallback (uint code) reason y1) = delivered x"
    using flush_shut(1) [of "y\<lparr>close_received := True\<rparr>" Z] by (simp_all add: y1_def isConnected_def)
  then have "orderly E Q (sendCloseCallback (uint code) reason y1)" using live by (intro orderly_closing [OF assms(3)]) simp_all
  then show ?thesis using live y by (simp add: ctx_onRxClose_def Let_def ctx_close_received y1_def)
qed

lemma orderly_rx_error:
  assumes "rx_good x" "\<not> ctx_rxIsTerminating x" "orderly E Q x"
  shows "orderly E Q (ctx_onRxProtocolError code why x)"
proof -
  note live = rx_good_live [OF assms(1,2)]
  show ?thesis using live
    by (intro orderly_closing [OF assms(3)])
      (auto simp: ctx_onRxProtocolError_def Let_def ctx_close_def isConnected_def)
qed

lemma orderly_opened:
  assumes "conn_ok False x" "\<not> upgraded x" "orderly E Q x"
  shows "orderly E Q (ctx_opened Z x)"
proof -
  define x1 where "x1 = x\<lparr>upgraded := True, connection_state := CONNECTED\<rparr>"
  have "conn_ok False x1" using upgrade_ok [OF assms(1,2)] by (simp add: x1_def)
  note fl = flush_open [OF this, of Z] flushSendQueue_ok(2,3) [OF this, of Z]
  obtain E1 Q1 where k: "subseq E1 E" "subseq Q1 Q" "\<not> loop_exit x \<and> isConnected x \<longrightarrow> E1 = E \<and> Q1 = Q"
    "delivered x = []" "waiting x \<in> shuffles E1 Q1"
    using assms(2,3) by (auto simp: orderly_def in_order_def)
  define y where "y = ctx_opened Z x"
  have y: "delivered y = waiting x" "waiting y = []" "upgraded y" "connection_state y = CONNECTED" "loop_exit y = loop_exit x"
    using fl k(4) by (simp_all add: y_def ctx_opened_def Let_def x1_def [symmetric]) (simp_all add: emit_def x1_def)
  have "connection_state x = CONNECTING" if "\<not> loop_exit x"
    using assms(2,3) that by (auto simp: orderly_def before_upgrade_def)
  then have "\<not> loop_exit y \<and> isConnected y \<longrightarrow> E1 = E \<and> Q1 = Q" using k(3) by (simp add: y(5) isConnected_def)
  then have "in_order E Q y" unfolding in_order_def using k(1,2,5) y(1-4)
    by (intro exI [of _ E1] exI [of _ Q1]) simp
  then show ?thesis using y(3) by (simp add: orderly_def before_upgrade_def y_def)
qed

interpretation sequencing: loop_property Z "orderly E Q"
proof (unfold_locales, goal_cases)
  case (1 x)
  then show ?case
    by (intro orderly_same [OF 1]) (simp_all add: ctx_stop_def requestWakeup_def orderly_def before_upgrade_def)
next
  case (2 is_open x ev)
  then show ?case by (simp add: orderly_event)
next
  case (3 is_open x)
  then have "base x" by (simp add: conn_ok_def)
  then have "orderly E Q (requestLoopExit True (sendError TIMEOUT (ascii ''Timeout'') x))"
    by (intro orderly_exit [OF 3(2)]) simp_all
  then show ?case using 3(2) by (simp add: timeoutCallback_def)
next
  case (4 is_open x)
  then show ?case
    by (intro orderly_same [OF 4(2)]) (auto simp: pingCallback_def sendPing_def sendNow_def orderly_def before_upgrade_def)
next
  case (5 is_open x)
  have "base x" using 5(1) by (simp add: conn_ok_def)
  moreover have x1: "orderly E Q (x\<lparr>close_timer_armed := False\<rparr>)"
    by (rule orderly_same [OF 5(2)]) (use 5(2) in \<open>simp_all add: orderly_def before_upgrade_def\<close>)
  ultimately have "orderly E Q (requestLoopExit True
      ((sendCloseCallback 1000 (ascii ''Normal closure'') (x\<lparr>close_timer_armed := False\<rparr>))\<lparr>connection_state := DISCONNECTED\<rparr>))"
    by (intro orderly_exit [OF 5(2)]) (simp_all add: isConnected_def)
  then show ?case using x1 by (simp add: closeTimerCb_def)
next
  case (6 is_open x)
  have ok: "conn_ok is_open (x\<lparr>wakeup_active := False\<rparr>)" using 6(1) by simp
  have x1: "orderly E Q (x\<lparr>wakeup_active := False\<rparr>)"
    by (rule orderly_same [OF 6(2)]) simp_all
  have "\<not> upgraded x \<longrightarrow> connection_state x \<noteq> CONNECTING" if "\<not> stop_requested x"
    using 6(2,3) that by (auto simp: orderly_def before_upgrade_def)
  then have "orderly E Q (flushSendQueue Z (x\<lparr>wakeup_active := False\<rparr>))" if "\<not> stop_requested x"
    using orderly_flush [OF x1 ok] that by simp
  then show ?case using x1 orderly_stopNow [OF x1 ok] by (simp add: wakeupCallback_def)
next
  case (7 is_open x)
  have ok: "conn_ok is_open (x\<lparr>send_active := False\<rparr>)" using 7(1) by simp
  have x1: "orderly E Q (x\<lparr>send_active := False\<rparr>)"
    by (rule orderly_same [OF 7(2)]) (use 7(2) in \<open>simp_all add: orderly_def before_upgrade_def\<close>)
  have "\<not> upgraded x \<longrightarrow> connection_state x \<noteq> CONNECTING" using 7(2,3) by (auto simp: orderly_def before_upgrade_def)
  then have y: "orderly E Q (flushSendQueue Z (x\<lparr>send_active := False\<rparr>))" using orderly_flush [OF x1 ok] by simp
  have "orderly E Q ((flushSendQueue Z (x\<lparr>send_active := False\<rparr>))\<lparr>send_flush_pending := False\<rparr>)"
    by (rule orderly_same [OF y]) (use y in \<open>simp_all add: orderly_def before_upgrade_def\<close>)
  then show ?case using x1 by (simp add: sendCallback_def)
next
  case (8 x m)
  have "orderly E Q (emit e x)" if "sent [e] = []" for e
    by (rule orderly_same [OF 8(3)]) (use 8(3) that in \<open>simp_all add: orderly_def before_upgrade_def\<close>, simp_all add: emit_def)
  then show ?case by simp
next
  case (9 x raw)
  then show ?case
    by (intro orderly_same [OF 9(3)]) (auto simp: ctx_onRxPing_def orderly_def before_upgrade_def)
next
  case (10 x code reason)
  then show ?case by (simp add: orderly_rx_close)
next
  case (11 x code why)
  then show ?case by (simp add: orderly_rx_error)
next
  case (12 x)
  then have "base x" by (simp add: conn_ok_def)
  then show ?case unfolding ctx_refused_def by (intro orderly_exit [OF 12(2)]) (simp_all add: isConnected_def)
next
  case (13 w resp)
  show ?case
    by (rule orderly_same [OF 13]) (use 13 in \<open>simp_all add: orderly_def before_upgrade_def setupCompression_def Let_def split: option.split prod.split\<close>)
next
  case (14 x)
  then show ?case by (simp add: orderly_opened)
qed

section \<open>Calls of \<open>sendData\<close>\<close>

lemma in_order_queue:
  assumes "in_order E Q x" "upgraded y = upgraded x" "delivered y = delivered x" "waiting y = waiting x @ [m]"
    "connection_state y = connection_state x" "loop_exit y = loop_exit x" "upgraded x \<longrightarrow> connection_state x \<noteq> CONNECTING"
  shows "in_order E (Q @ [m]) y"
proof -
  obtain E1 Q1 where k: "subseq E1 E" "subseq Q1 Q" "\<not> loop_exit x \<and> isConnected x \<longrightarrow> E1 = E \<and> Q1 = Q"
    "if \<not> upgraded x then delivered x = [] \<and> waiting x \<in> shuffles E1 Q1
      else if connection_state x = CONNECTED then \<exists>Q2. Q1 = Q2 @ waiting x \<and> delivered x \<in> shuffles E1 Q2
      else delivered x \<in> shuffles E1 Q1"
    using assms(1) unfolding in_order_def by blast
  have more: "subseq (Q1 @ [m]) (Q @ [m])" "\<not> loop_exit y \<and> isConnected y \<longrightarrow> E1 = E \<and> Q1 @ [m] = Q @ [m]"
    using k(2,3) assms(5,6) by (simp_all add: isConnected_def list_emb_append_mono)
  consider "\<not> upgraded x" | "upgraded x" "connection_state x = CONNECTED" | "upgraded x" "connection_state x \<noteq> CONNECTED" by blast
  then show ?thesis
  proof cases
    case 1
    then show ?thesis unfolding in_order_def using k(1,4) more assms(2-4) shuffles_snoc2 [of "waiting x" E1 Q1 "[m]"]
      by (intro exI [of _ E1] exI [of _ "Q1 @ [m]"]) simp
  next
    case 2
    then show ?thesis unfolding in_order_def using k(1,4) more assms(2-5)
      by (intro exI [of _ E1] exI [of _ "Q1 @ [m]"]) auto
  next
    case 3
    have "\<not> isConnected y" using 3 assms(5,7) by (simp add: isConnected_def)
    moreover have "subseq Q1 (Q @ [m])" using k(2) by (rule subseq_order.order_trans) (simp add: prefix_imp_subseq)
    ultimately show ?thesis unfolding in_order_def using 3 k(1,4) assms(2,3,5)
      by (intro exI [of _ E1] exI [of _ Q1]) simp
  qed
qed

lemma in_order_early:
  assumes "in_order E Q x" "\<not> upgraded x" "\<not> upgraded y" "delivered y = delivered x" "waiting y = waiting x @ [m]"
    "connection_state y = connection_state x" "loop_exit y = loop_exit x"
  shows "in_order (E @ [m]) Q y"
proof -
  obtain E1 Q1 where k: "subseq E1 E" "subseq Q1 Q" "\<not> loop_exit x \<and> isConnected x \<longrightarrow> E1 = E \<and> Q1 = Q"
    "delivered x = [] \<and> waiting x \<in> shuffles E1 Q1"
    using assms(1,2) unfolding in_order_def by auto
  have "subseq (E1 @ [m]) (E @ [m])" "\<not> loop_exit y \<and> isConnected y \<longrightarrow> E1 @ [m] = E @ [m] \<and> Q1 = Q"
    using k(1,3) assms(6,7) by (simp_all add: isConnected_def list_emb_append_mono)
  then show ?thesis unfolding in_order_def using k(2,4) assms(3-5) shuffles_snoc1 [of "waiting x" E1 Q1 "[m]"]
    by (intro exI [of _ "E1 @ [m]"] exI [of _ Q1]) simp
qed

lemma in_order_send:
  assumes "in_order E Q x" "upgraded x" "connection_state x = CONNECTED" "upgraded y" "connection_state y = CONNECTED"
    "delivered y = delivered x @ [m]" "waiting y = waiting x" "loop_exit y = loop_exit x"
  shows "in_order (E @ [m]) Q y"
proof -
  obtain E1 Q1 Q2 where k: "subseq E1 E" "subseq Q1 Q" "\<not> loop_exit x \<and> isConnected x \<longrightarrow> E1 = E \<and> Q1 = Q"
    "Q1 = Q2 @ waiting x" "delivered x \<in> shuffles E1 Q2"
    using assms(1-3) unfolding in_order_def by auto
  have "subseq (E1 @ [m]) (E @ [m])" "\<not> loop_exit y \<and> isConnected y \<longrightarrow> E1 @ [m] = E @ [m] \<and> Q1 = Q"
    using k(1,3) assms(3,8) by (simp_all add: isConnected_def list_emb_append_mono)
  then show ?thesis unfolding in_order_def using k(2,4) assms(4-7) shuffles_snoc1 [OF k(5), of "[m]"]
    by (intro exI [of _ "E1 @ [m]"] exI [of _ Q1]) simp
qed

text \<open>A call, with the answer it gives.\<close>

lemma enqueue_waiting:
  assumes "enqueue d type x = (True, y)" "type \<in> {TEXT, BINARY}"
  shows "waiting y = waiting x @ [(type, d)]" "y = x\<lparr>send_queue := send_queue y\<rparr>"
  using assms by (auto simp: enqueue_def waiting_def split: if_split_asm)

lemma enqueue_full: "enqueue d type x = (False, y) \<Longrightarrow> y = x"
  by (simp add: enqueue_def split: if_split_asm)

lemma orderly_posted:
  assumes "orderly E Q x" "conn_ok is_open x" "type \<in> {TEXT, BINARY}" "sendData Z on_event d type x = (ok, y)"
  shows "orderly (E @ (if ok \<and> on_event then [(type, d)] else [])) (Q @ (if ok \<and> \<not> on_event then [(type, d)] else [])) y"
proof -
  have io: "before_upgrade x" "in_order E Q x" using assms(1) by (simp_all add: orderly_def)
  have notc: "type \<noteq> CLOSE" using assms(3) by auto
  have up: "upgraded x \<longrightarrow> connection_state x \<noteq> CONNECTING" using assms(2) by (auto simp: conn_ok_def closing_def)
  consider "connection_state x = CONNECTING" | "connection_state x \<noteq> CONNECTING" "on_event"
    | "connection_state x \<noteq> CONNECTING" "\<not> on_event" by blast
  then show ?thesis
  proof cases
    case 1
    then have e: "enqueue d type x = (ok, y)" and nu: "\<not> upgraded x" using assms(4) notc up by (simp_all add: sendData_def)
    show ?thesis
    proof (cases ok)
      case False
      then show ?thesis using e enqueue_full [of d type x y] assms(1) by simp
    next
      case True
      then have w: "waiting y = waiting x @ [(type, d)]" and y: "y = x\<lparr>send_queue := send_queue y\<rparr>"
        using enqueue_waiting [of d type x y] e assms(3) by simp_all
      have "upgraded y = upgraded x" "delivered y = delivered x" "connection_state y = connection_state x" "loop_exit y = loop_exit x"
        "send_active y = send_active x" "wakeup_active y = wakeup_active x" "stop_requested y = stop_requested x"
        by (subst y, simp)+
      then show ?thesis using in_order_queue [OF io(2) _ _ w] in_order_early [OF io(2) nu _ _ w] io(1) nu True up
        by (cases on_event) (simp_all add: orderly_def before_upgrade_def)
    qed
  next
    case 2
    then have s: "sendNow Z d type x = (ok, y)" using assms(4) notc by (simp add: sendData_def)
    show ?thesis
    proof (cases ok)
      case False
      then show ?thesis using s assms(1) by (auto simp: sendNow_def split: if_split_asm)
    next
      case True
      then have "connection_state x = CONNECTED" "upgraded x" "y = ctx_send Z d type x"
        using s notc by (auto simp: sendNow_def split: if_split_asm)
      then show ?thesis using True 2 assms(3) by (auto simp: orderly_def before_upgrade_def delivered_send
          intro!: in_order_send [OF io(2)])
    qed
  next
    case 3
    obtain b z where e: "enqueue d type x = (b, z)" by fastforce
    then have r: "ok = b" "y = (if b then requestSendFlush z else z)" using assms(4) notc 3 by (simp_all add: sendData_def split: bool.split_asm)
    show ?thesis
    proof (cases b)
      case False
      then show ?thesis using e r enqueue_full [of d type x z] assms(1) by simp
    next
      case True
      then have w: "waiting z = waiting x @ [(type, d)]" and z: "z = x\<lparr>send_queue := send_queue z\<rparr>"
        using enqueue_waiting [of d type x z] e assms(3) by simp_all
      have f: "upgraded z = upgraded x" "delivered z = delivered x" "connection_state z = connection_state x" "loop_exit z = loop_exit x"
        by (subst z, simp)+
      have "in_order E (Q @ [(type, d)]) y"
        using in_order_queue [OF io(2) _ _ _ _ _ up, of y "(type, d)"] w f r True by simp
      moreover have "before_upgrade y" using io(1) 3(1) f r by (simp add: before_upgrade_def)
      ultimately show ?thesis using True r 3(2) by (simp add: orderly_def)
    qed
  qed
qed

section \<open>Threads\<close>

text \<open>A connection with what its callers have posted: the messages \<open>sendData\<close> has accepted from the event thread and
  from the other threads, each list in the order of the calls.\<close>

record ('d, 'i) posted =
  conn :: "('d, 'i) world"
  by_event :: "(MessageType \<times> bytes) list"
  by_others :: "(MessageType \<times> bytes) list"

inductive post_step :: "('d, 'i) ext \<Rightarrow> ('d, 'i) posted \<Rightarrow> ('d, 'i) posted \<Rightarrow> bool" for Z where
  post_send: "type \<in> {TEXT, BINARY} \<Longrightarrow> (on_event \<longrightarrow> \<not> dead (conn p)) \<Longrightarrow>
    sendData Z on_event d type (ctx (conn p)) = (ok, x) \<Longrightarrow>
    post_step Z p (p\<lparr>conn := (conn p)\<lparr>ctx := x\<rparr>,
      by_event := by_event p @ (if ok \<and> on_event then [(type, d)] else []),
      by_others := by_others p @ (if ok \<and> \<not> on_event then [(type, d)] else [])\<rparr>)"
| post_loop: "loop_step Z (conn p) w \<Longrightarrow> post_step Z p (p\<lparr>conn := w\<rparr>)"

text \<open>At the start nothing is activated; what is in the queue has been posted by other threads.\<close>

definition posted_start :: "('d, 'i) posted \<Rightarrow> bool" where
  "posted_start p \<longleftrightarrow> ws_started (conn p) \<and> \<not> send_active (ctx (conn p)) \<and> \<not> wakeup_active (ctx (conn p)) \<and>
     by_event p = [] \<and> by_others p = waiting (ctx (conn p))"

text \<open>What remains when the event thread has ended.\<close>

definition kept_order ::
    "(MessageType \<times> bytes) list \<Rightarrow> (MessageType \<times> bytes) list \<Rightarrow> 'd ctx \<Rightarrow> bool" where
  "kept_order E Q x \<longleftrightarrow> (\<exists>E1 Q1. subseq E1 E \<and> subseq Q1 Q \<and> delivered x \<in> shuffles E1 Q1)"

lemma in_order_kept:
  assumes "in_order E Q x"
  shows "kept_order E Q x"
proof -
  obtain E1 Q1 where k: "subseq E1 E" "subseq Q1 Q"
    "if \<not> upgraded x then delivered x = [] \<and> waiting x \<in> shuffles E1 Q1
      else if connection_state x = CONNECTED then \<exists>Q2. Q1 = Q2 @ waiting x \<and> delivered x \<in> shuffles E1 Q2
      else delivered x \<in> shuffles E1 Q1"
    using assms unfolding in_order_def by blast
  have "subseq Q2 Q" if "Q1 = Q2 @ waiting x" for Q2
    using k(2) unfolding that by (rule subseq_order.order_trans [rotated]) (simp add: prefix_imp_subseq)
  moreover have "kept_order E Q x" if "delivered x = []" unfolding kept_order_def
    by (intro exI [of _ "[]"]) (simp add: that)
  ultimately show ?thesis using k unfolding kept_order_def by (meson)
qed

lemma kept_order_more:
  assumes "kept_order E Q x" "delivered y = delivered x"
  shows "kept_order (E @ es) (Q @ qs) y"
proof -
  have "subseq a (b @ c)" if "subseq a b" for a b c :: "(MessageType \<times> bytes) list"
    using that by (rule subseq_order.order_trans) (simp add: prefix_imp_subseq)
  then show ?thesis using assms unfolding kept_order_def by metis
qed

definition posted_ok :: "('d, 'i) posted \<Rightarrow> bool" where
  "posted_ok p \<longleftrightarrow> world_ok (conn p) \<and> kept_order (by_event p) (by_others p) (ctx (conn p)) \<and>
     (\<not> dead (conn p) \<longrightarrow> orderly (by_event p) (by_others p) (ctx (conn p)))"

lemma posted_ok_start:
  assumes "posted_start p"
  shows "posted_ok p"
proof -
  let ?x = "ctx (conn p)"
  have s: "ws_started (conn p)" "delivered ?x = []" "\<not> upgraded ?x" "connection_state ?x = CONNECTING"
    using assms by (simp_all add: posted_start_def ws_started_def delivered_def)
  have "waiting ?x \<in> shuffles [] (waiting ?x)" by simp
  then have "in_order (by_event p) (by_others p) ?x" unfolding in_order_def using assms s
    by (intro exI [of _ "[]"] exI [of _ "waiting ?x"]) (simp add: posted_start_def)
  moreover from this have "kept_order (by_event p) (by_others p) ?x" by (rule in_order_kept)
  moreover have "before_upgrade ?x" using assms s by (simp add: before_upgrade_def posted_start_def)
  ultimately show ?thesis using ws_started_ok [OF s(1)] by (simp add: posted_ok_def orderly_def)
qed

lemma dead_send: "delivered (snd (sendData Z False d type x)) = delivered x"
  by (simp add: sendData_def enqueue_def)

lemma posted_ok_step:
  assumes "posted_ok p" "post_step Z p p'"
  shows "posted_ok p'"
  using assms(2)
proof cases
  case (post_send type on_event d ok x)
  have x: "x = snd (sendData Z on_event d type (ctx (conn p)))" using post_send(4) by simp
  have ok': "world_ok ((conn p)\<lparr>ctx := x\<rparr>)"
    using ws_step_ok [OF _ api_send [of type on_event "conn p" Z d]] post_send(2,3) assms(1) by (simp add: posted_ok_def x)
  show ?thesis
  proof (cases "dead (conn p)")
    case True
    then have "delivered x = delivered (ctx (conn p))" using post_send(3) x by (simp add: dead_send)
    then show ?thesis using post_send(1) ok' True assms(1) kept_order_more by (fastforce simp: posted_ok_def)
  next
    case False
    then have "conn_ok (upgraded (ctx (conn p))) (ctx (conn p))" "orderly (by_event p) (by_others p) (ctx (conn p))"
      using assms(1) by (simp_all add: posted_ok_def world_ok_def)
    from orderly_posted [OF this(2,1) post_send(2,4)] have "orderly (by_event p') (by_others p') x" using post_send(1) by simp
    moreover from this have "kept_order (by_event p') (by_others p') x" by (simp add: orderly_def in_order_kept)
    ultimately show ?thesis using post_send(1) ok' by (simp add: posted_ok_def)
  qed
next
  case (post_loop w)
  have ok': "world_ok w" using ws_step_ok [OF _ loop_step_ws [OF post_loop(2)]] assms(1) by (simp add: posted_ok_def)
  show ?thesis
  proof (cases "dead w")
    case True
    from post_loop(2) have "delivered (ctx w) = delivered (ctx (conn p)) \<or> orderly (by_event p) (by_others p) (ctx w)"
    proof cases
      case (loop_read bs)
      then have "orderly (by_event p) (by_others p) (ctx w)"
        using sequencing.by_read [of "(conn p)\<lparr>input := input (conn p) @ bs\<rparr>" "by_event p" "by_others p" Z] assms(1)
        by (simp add: posted_ok_def world_ok_def)
      then show ?thesis ..
    qed (use True in \<open>simp_all add: ctx_stop_def run_end_def cleanup_def delivered_def emit_def requestWakeup_def\<close>)
    then have "kept_order (by_event p) (by_others p) (ctx w)"
    proof
      assume "delivered (ctx w) = delivered (ctx (conn p))"
      then show ?thesis using kept_order_more [of "by_event p" "by_others p" "ctx (conn p)" "ctx w" "[]" "[]"] assms(1)
        by (simp add: posted_ok_def)
    qed (simp add: orderly_def in_order_kept)
    then show ?thesis using post_loop(1) ok' True by (simp add: posted_ok_def)
  next
    case False
    have "orderly (by_event p) (by_others p) (ctx w)"
      by (rule sequencing.by_loop [OF _ _ post_loop(2) False]) (use assms(1) in \<open>simp_all add: posted_ok_def\<close>)
    moreover from this have "kept_order (by_event p) (by_others p) (ctx w)" by (simp add: orderly_def in_order_kept)
    ultimately show ?thesis using post_loop(1) ok' by (simp add: posted_ok_def)
  qed
qed

interpretation posts: transition_system posted_start "post_step Z" posted_ok
  by unfold_locales (fact posted_ok_start, rule posted_ok_step)

lemma post_step_ws: "post_step Z p p' \<Longrightarrow> ws_step Z (conn p) (conn p')"
proof (induction rule: post_step.cases)
  case (post_send type on_event p d ok x)
  then show ?case using api_send [of type on_event "conn p" Z d] by simp
next
  case (post_loop p w)
  then show ?case by (simp add: loop_step_ws)
qed

lemma posted_reachable: "reachable posted_start (post_step Z) p \<Longrightarrow> reachable ws_started (ws_step Z) (conn p)"
proof (induction rule: reachable.induct)
  case (reachable_init p)
  then show ?case by (intro reachable.reachable_init) (simp add: posted_start_def)
next
  case (reachable_step p p')
  then show ?case using post_step_ws reachable.reachable_step by metis
qed

section \<open>Properties\<close>

text \<open>C13: however the calls of the threads and the events of the connection interleave, the messages a server reads are an
  interleaving of messages of the event thread and messages of the other threads, each in the order of the calls and none twice.
  While the connection is open nothing is missing: all messages accepted from the event thread have been sent, and those
  accepted from the other threads have been sent or wait in the queue, in their order.\<close>

theorem messages_in_order:
  assumes "deflate_doc Z whole peer" "reachable posted_start (post_step Z) p" "sendable Z (sent (trace (ctx (conn p))))"
  shows "\<exists>k frames fs E Q. out_buf (ctx (conn p)) =
      concat (replicate k (handshakeRequest (config (ctx (conn p))) (ws_key (ctx (conn p))))) @ frames \<and>
    server_frames frames = Some fs \<and> list_all2 (frame_carries whole peer) fs (sent (trace (ctx (conn p)))) \<and>
    app_data (sent (trace (ctx (conn p)))) \<in> shuffles E Q \<and> subseq E (by_event p) \<and> subseq Q (by_others p) \<and>
    (\<not> dead (conn p) \<and> \<not> loop_exit (ctx (conn p)) \<and> connection_state (ctx (conn p)) = CONNECTED \<longrightarrow>
       E = by_event p \<and> by_others p = Q @ waiting (ctx (conn p)))"
proof -
  let ?x = "ctx (conn p)"
  have ws: "reachable ws_started (ws_step Z) (conn p)" using assms(2) by (rule posted_reachable)
  have "wired Z whole peer ?x" by (rule wire.always [OF ws]) (simp add: ws_started_wired)
  then have "on_wire Z whole peer ?x" using assms(1) by (simp add: wired_def)
  then obtain k frames fs where w: "out_buf ?x = concat (replicate k (handshakeRequest (config ?x) (ws_key ?x))) @ frames"
    "server_frames frames = Some fs" "list_all2 (frame_carries whole peer) fs (sent (trace ?x))"
    using on_wire_read [OF _ assms(3)] by blast
  have ok: "posted_ok p" by (rule posts.always [OF assms(2)])
  have "\<exists>E Q. delivered ?x \<in> shuffles E Q \<and> subseq E (by_event p) \<and> subseq Q (by_others p) \<and>
    (\<not> dead (conn p) \<and> \<not> loop_exit ?x \<and> connection_state ?x = CONNECTED \<longrightarrow> E = by_event p \<and> by_others p = Q @ waiting ?x)"
  proof (cases "\<not> dead (conn p) \<and> \<not> loop_exit ?x \<and> connection_state ?x = CONNECTED")
    case True
    then have "before_upgrade ?x" "in_order (by_event p) (by_others p) ?x" using ok by (simp_all add: posted_ok_def orderly_def)
    then show ?thesis using True by (auto simp: before_upgrade_def in_order_def isConnected_def)
  next
    case False
    then show ?thesis using ok unfolding posted_ok_def kept_order_def by blast
  qed
  then show ?thesis using w unfolding delivered_def by blast
qed

definition demo_posted :: "(unit, unit) posted" where
  "demo_posted = \<lparr>conn = demo_open\<lparr>ctx := requestSendFlush ((ctx_send stored_ext [0x62] BINARY (ctx demo_open))\<lparr>send_queue := [PText [0x61]]\<rparr>)\<rparr>,
     by_event = [(BINARY, [0x62])], by_others = [(TEXT, [0x61])]\<rparr>"

lemma demo_posted: "reachable posted_start (post_step stored_ext) demo_posted"
proof -
  define p0 :: "(unit, unit) posted" where "p0 = \<lparr>conn = demo_world, by_event = [], by_others = []\<rparr>"
  define p1 where "p1 = p0\<lparr>conn := demo_open\<rparr>"
  define p2 where "p2 = p1\<lparr>conn := demo_open\<lparr>ctx := ctx_send stored_ext [0x62] BINARY (ctx demo_open)\<rparr>, by_event := [(BINARY, [0x62])]\<rparr>"
  have open_fields: "connection_state (ctx demo_open) = CONNECTED" "send_queue (ctx demo_open) = []" "bev (ctx demo_open)"
    "upgraded (ctx demo_open)" "\<not> dead demo_open"
    using demo_open_fields demo_started by (simp_all add: demo_open_eq ws_started_def)
  have start: "posted_start p0"
    using demo_started by (simp add: p0_def posted_start_def waiting_def) (simp add: demo_defs ascii_Cons)
  have "loop_step stored_ext demo_world (handleRead stored_ext (demo_world\<lparr>input := input demo_world @ demo_response\<rparr>))"
    using demo_started by (intro loop_read) (simp add: ws_started_def)
  then have "post_step stored_ext p0 p1"
    using post_loop [of stored_ext p0 demo_open] demo_started by (simp add: p0_def p1_def demo_open_def ws_started_def)
  then have r1: "reachable posted_start (post_step stored_ext) p1" using reachable_step [OF reachable_init [of posted_start, OF start]] by blast
  have "post_step stored_ext p1 p2"
    using post_send [of BINARY True p1 stored_ext "[0x62]" True "ctx_send stored_ext [0x62] BINARY (ctx demo_open)"] open_fields
    by (simp add: p1_def p0_def p2_def sendData_def sendNow_def)
  then have r2: "reachable posted_start (post_step stored_ext) p2" using reachable_step [OF r1] by blast
  have "post_step stored_ext p2 demo_posted"
    using post_send [of TEXT False p2 stored_ext "[0x61]" True "ctx (conn demo_posted)"] open_fields
    by (simp add: p2_def p1_def p0_def demo_posted_def sendData_def enqueue_def MAX_QUEUE_SIZE_def)
  then show ?thesis using reachable_step [OF r2] by blast
qed

theorem messages_in_order_witness:
  "\<exists>k frames f. out_buf (ctx (conn demo_posted)) =
      concat (replicate k (handshakeRequest (config (ctx (conn demo_posted))) (ws_key (ctx (conn demo_posted))))) @ frames \<and>
    server_frames frames = Some [f] \<and> frame_opcode f = 2"
proof -
  have none: "sent (trace (ctx demo_open)) = []" by (simp add: demo_open_eq)
  have s: "sent (trace (ctx (conn demo_posted))) = [(BINARY, [0x62])]"
    by (rule ctx_send_shape [of stored_ext "[0x62]" BINARY "ctx demo_open"]) (use none in \<open>simp add: demo_posted_def is_control_frame_def\<close>)
  then have "sendable stored_ext (sent (trace (ctx (conn demo_posted))))" by (simp add: sendable_def stored_ext_def)
  from messages_in_order [OF stored_deflate_doc demo_posted this] show ?thesis
    unfolding s by (auto simp: list_all2_Cons2 frame_carries_def split: if_split_asm)
qed

text \<open>\<open>sendData\<close> reads the state of the connection first and uses the value after other threads may have gone on;
  \<open>st\<close> is what it has read.\<close>

definition sendData_seen ::
    "ConnectionState \<Rightarrow> ('d, 'i) ext \<Rightarrow> bool \<Rightarrow> bytes \<Rightarrow> MessageType \<Rightarrow> 'd ctx \<Rightarrow> bool \<times> 'd ctx" where
  "sendData_seen st Z on_event d type x =
     (if type = CLOSE then (False, x)
      else if st = CONNECTING then enqueue d type x
      else if on_event then sendNow Z d type x
      else
        (case enqueue d type x of
           (False, x1) \<Rightarrow> (False, x1)
         | (True, x1) \<Rightarrow> (True, requestSendFlush x1)))"

lemma sendData_seen_now: "sendData_seen (connection_state x) Z on_event d type x = sendData Z on_event d type x"
  by (simp add: sendData_seen_def sendData_def)

text \<open>A thread that has read CONNECTING just before the upgrade puts its message into the queue of an open connection and
  requests nothing: \<open>sendData\<close> has returned true, and neither the send event nor the wakeup is due.\<close>

theorem stale_state_strands:
  assumes "reachable posted_start (post_step Z) p" "\<not> dead (conn p)" "\<not> upgraded (ctx (conn p))"
    "connection_state (ctx (conn p)) = CONNECTING" "\<not> stop_requested (ctx (conn p))" "type \<in> {TEXT, BINARY}"
  shows "\<exists>y. sendData_seen CONNECTING Z False d type (ctx_opened Z (ctx (conn p))) = (True, y) \<and>
    connection_state y = CONNECTED \<and> waiting y = [(type, d)] \<and> \<not> send_active y \<and> \<not> wakeup_active y"
proof -
  let ?x = "ctx (conn p)"
  have ok: "conn_ok False ?x" "before_upgrade ?x"
    using posts.always [OF assms(1)] assms(2,3) by (simp_all add: posted_ok_def world_ok_def orderly_def)
  define y where "y = ctx_opened Z ?x"
  have "send_queue y = [] \<and> connection_state y = CONNECTED \<and> send_active y = send_active ?x \<and> wakeup_active y = wakeup_active ?x"
    by (simp add: y_def ctx_opened_def Let_def emit_def)
  then have y: "send_queue y = []" "connection_state y = CONNECTED" "\<not> send_active y" "\<not> wakeup_active y"
    using ok(2) assms(3-5) by (auto simp: before_upgrade_def)
  define q where "q = [if type = TEXT then PText d else PBinary d]"
  define z where "z = y\<lparr>send_queue := q\<rparr>"
  have z: "enqueue d type y = (True, z)" using y(1) by (simp add: enqueue_def MAX_QUEUE_SIZE_def z_def q_def)
  have "connection_state z = CONNECTED" "waiting z = [(type, d)]" "\<not> send_active z" "\<not> wakeup_active z"
    using y(2-4) assms(6) by (auto simp: z_def waiting_def q_def)
  then show ?thesis using z assms(6) by (auto simp: sendData_seen_def y_def)
qed

theorem stale_state_strands_witness:
  "\<exists>y. sendData_seen CONNECTING stored_ext False [0x61] TEXT (ctx_opened stored_ext (ctx demo_world)) = (True, y) \<and>
     connection_state y = CONNECTED \<and> waiting y = [(TEXT, [0x61])] \<and> \<not> send_active y"
proof -
  let ?p = "\<lparr>conn = demo_world, by_event = [], by_others = []\<rparr>"
  have "posted_start ?p" using demo_started by (simp add: posted_start_def waiting_def) (simp add: demo_defs ascii_Cons)
  then have "reachable posted_start (post_step stored_ext) ?p" by (rule reachable_init)
  moreover have "\<not> stop_requested (ctx demo_world)" by (simp add: demo_defs ascii_Cons)
  ultimately show ?thesis
    using stale_state_strands [of stored_ext ?p TEXT "[0x61]"] demo_started by (auto simp: ws_started_def)
qed

end
