(* ===== verification/Examples.thy ===== *)
theory Examples
  imports Echo Threads Ordering
begin

text \<open>
  The two example programs of the library. examples/autobahn.cpp runs the echo client of \<open>Echo\<close> through the cases of a
  test server and asks for a report; examples/threads.cpp sends from two threads. What the server and the event thread do
  is a parameter of the programs.
\<close>

section \<open>autobahn.cpp\<close>

definition totalTestCases :: nat where
  "totalTestCases = 516"

text \<open>\<open>wait_for_pred\<close> on the flag of the callbacks: what happens until the wait ends is a parameter, the result is whether the flag is set.\<close>

definition wait_for_pred :: "('d echo \<Rightarrow> 'd echo) \<Rightarrow> 'd echo \<Rightarrow> bool \<times> 'd echo" where
  "wait_for_pred happens e = (let e1 = happens e in (case_done e1, e1))"

text \<open>The start of case \<open>i\<close>: \<open>cl\<close> is a new client. What \<open>connect\<close> returns is ignored.\<close>

definition run_case ::
    "('d, 'i) ext \<Rightarrow> (bytes \<Rightarrow> bytes) option \<Rightarrow> bytes \<Rightarrow> bool \<Rightarrow> (bytes \<Rightarrow> bool) \<Rightarrow> (bytes \<Rightarrow> bool) \<Rightarrow> 'd client \<Rightarrow>
      ('d echo \<Rightarrow> 'd echo) \<Rightarrow> nat \<Rightarrow> 'd echo" where
  "run_case Z sha nonce thread_ok pton4 pton6 cl happens i =
     (let e = \<lparr>echo_client = snd (client_connect Z sha nonce thread_ok (case_client pton4 pton6 i cl)),
               stop_echo = False, case_done = False\<rparr>;
          (ok, e1) = wait_for_pred happens e
      in case_end ok e1)"

text \<open>The report: the client echoes nothing, and the result of the wait for the flag that its callbacks set is not looked at.\<close>

definition report_url :: bytes where
  "report_url = ascii ''ws://192.168.0.27:9001/updateReports?agent=libwsc''"

definition report_client :: "(bytes \<Rightarrow> bool) \<Rightarrow> (bytes \<Rightarrow> bool) \<Rightarrow> 'd client \<Rightarrow> 'd client" where
  "report_client pton4 pton6 c =
     setUrl pton4 pton6 report_url
       (client_setErrorCallback True (client_setCloseCallback True (client_setOpenCallback True c)))"

definition run_report ::
    "('d, 'i) ext \<Rightarrow> (bytes \<Rightarrow> bytes) option \<Rightarrow> bytes \<Rightarrow> bool \<Rightarrow> (bytes \<Rightarrow> bool) \<Rightarrow> (bytes \<Rightarrow> bool) \<Rightarrow> 'd client \<Rightarrow>
      ('d client \<Rightarrow> 'd client) \<Rightarrow> 'd client" where
  "run_report Z sha nonce thread_ok pton4 pton6 cl happens =
     client_disconnect (happens (snd (client_connect Z sha nonce thread_ok (report_client pton4 pton6 cl))))"

text \<open>\<open>main\<close>: the nonce and the success of the thread of each connection are those of its number; the result are the clients
  it leaves behind, in order.\<close>

definition autobahn_main ::
    "('d, 'i) ext \<Rightarrow> (bytes \<Rightarrow> bytes) option \<Rightarrow> (nat \<Rightarrow> bytes) \<Rightarrow> (nat \<Rightarrow> bool) \<Rightarrow> (bytes \<Rightarrow> bool) \<Rightarrow> (bytes \<Rightarrow> bool) \<Rightarrow>
      (nat \<Rightarrow> 'd client) \<Rightarrow> (nat \<Rightarrow> 'd echo \<Rightarrow> 'd echo) \<Rightarrow> ('d client \<Rightarrow> 'd client) \<Rightarrow> 'd echo list \<times> 'd client" where
  "autobahn_main Z sha nonce thread_ok pton4 pton6 cl happens reported =
     (map (\<lambda>i. run_case Z sha (nonce i) (thread_ok i) pton4 pton6 (cl i) (happens i) i) [1..<totalTestCases + 1],
      run_report Z sha (nonce 0) (thread_ok 0) pton4 pton6 (cl 0) reported)"

text \<open>Every connection is released before the next is made, after a timeout with the echo switched off; there is one per case and
  one for the report.\<close>

lemma client_disconnect_released: "cl_ctx (client_disconnect c) = None"
  by (simp add: client_disconnect_def split: option.split)

lemma run_case_ends:
  assumes "e = run_case Z sha nonce thread_ok p4 p6 cl happens i"
  shows "cl_ctx (echo_client e) = None \<and> (case_done e \<or> stop_echo e)"
  unfolding assms by (simp add: run_case_def case_end_def wait_for_pred_def Let_def client_disconnect_released)

lemma autobahn_main_releases:
  assumes "autobahn_main Z sha nonce thread_ok p4 p6 cl happens reported = (es, r)"
  shows "length es = 516" "cl_ctx r = None"
    "\<And>e. e \<in> set es \<Longrightarrow> cl_ctx (echo_client e) = None \<and> (case_done e \<or> stop_echo e)"
proof -
  have es: "es = map (\<lambda>i. run_case Z sha (nonce i) (thread_ok i) p4 p6 (cl i) (happens i) i) [1..<totalTestCases + 1]"
    and r: "r = run_report Z sha (nonce 0) (thread_ok 0) p4 p6 (cl 0) reported"
    using assms by (simp_all add: autobahn_main_def)
  show "length es = 516" by (simp add: es totalTestCases_def)
  show "cl_ctx r = None" by (simp add: r run_report_def client_disconnect_released)
  show "cl_ctx (echo_client e) = None \<and> (case_done e \<or> stop_echo e)" if "e \<in> set es" for e
  proof -
    from that obtain i where "e = run_case Z sha (nonce i) (thread_ok i) p4 p6 (cl i) (happens i) i" unfolding es by auto
    then show ?thesis by (rule run_case_ends)
  qed
qed

lemma report_client_target:
  "report_client p4 p6 c =
     (client_setErrorCallback True (client_setCloseCallback True (client_setOpenCallback True c)))
       \<lparr>cl_secure := False, cl_host := ascii ''192.168.0.27'', cl_port := 9001, cl_uri := ascii ''/updateReports?agent=libwsc'',
         cl_is_ip_address := isHostIPAddress p4 p6 (ascii ''192.168.0.27'')\<rparr>"
proof -
  have "nat_digits 9001 = ascii ''9001''" by (simp add: nat_digits.simps ascii_def)
  then have "report_url = ws_prefix False @ (ascii ''192.168.0.27'' @ ascii '':'' @ nat_digits 9001) @
      ascii ''/updateReports?agent=libwsc''"
    by (simp add: report_url_def ws_prefix_def ascii_def)
  then show ?thesis
    using setUrl_parts [of "ascii ''192.168.0.27''" 9001 "ascii ''/updateReports?agent=libwsc''" p4 p6 False]
    by (simp add: report_client_def ascii_def)
qed

section \<open>threads.cpp\<close>

definition threads_client :: "(bytes \<Rightarrow> bool) \<Rightarrow> (bytes \<Rightarrow> bool) \<Rightarrow> 'd client \<Rightarrow> 'd client" where
  "threads_client pton4 pton6 c =
     client_setErrorCallback True (client_setBinaryCallback True (client_setMessageCallback True
       (setUrl pton4 pton6 (ascii ''ws://192.168.0.24:3001'') c)))"

text \<open>What the binary callback prints of a message.\<close>

definition shown_bytes :: "bytes \<Rightarrow> bytes" where
  "shown_bytes data = take (min (length data) 16) data"

text \<open>What each thread sends, in the order of its calls.\<close>

definition main_first :: "MessageType \<times> bytes" where
  "main_first = (TEXT, ascii ''Hello from main thread!'')"

definition main_binary :: "MessageType \<times> bytes" where
  "main_binary = (BINARY, [0x01, 0x02, 0x03])"

definition main_last :: "MessageType \<times> bytes" where
  "main_last = (TEXT, ascii ''This is the final message from main thread!'')"

definition message_thread :: "(MessageType \<times> bytes) list" where
  "message_thread = concat (map (\<lambda>i.
     (TEXT, ascii ''Message from second thread: '' @ nat_digits i) #
     (if i = 4 then [(BINARY, [0x00, 0x01, 0x02, 0x03, 0xFF, 0xFE, 0xFD, 0xFC]),
                     (TEXT, ascii ''This is the final message from thread'')] else [])) [0..<5])"

text \<open>The orders in which the calls can be made: the second thread is created after the first message and joined before the last.\<close>

definition threads_orders :: "(MessageType \<times> bytes) list set" where
  "threads_orders = {main_first # ms @ [main_last] | ms. ms \<in> shuffles message_thread [main_binary]}"

fun send_calls :: "('d, 'i) ext \<Rightarrow> (MessageType \<times> bytes) list \<Rightarrow> 'd client \<Rightarrow> bool list \<times> 'd client" where
  "send_calls Z [] c = ([], c)"
| "send_calls Z ((type, data) # ms) c =
     (case (if type = TEXT then sendMessage Z False data c else sendBinary Z False data c) of
        (ok, c1) \<Rightarrow> (case send_calls Z ms c1 of (oks, c2) \<Rightarrow> (ok # oks, c2)))"

lemma send_calls_connecting:
  assumes "cl_ctx c = Some x" "connection_state x = CONNECTING" "length (send_queue x) + length ms \<le> MAX_QUEUE_SIZE"
    "list_all (\<lambda>m. fst m = TEXT \<or> fst m = BINARY) ms"
  shows "send_calls Z ms c = (replicate (length ms) True,
    c\<lparr>cl_ctx := Some (x\<lparr>send_queue := send_queue x @ map (\<lambda>(type, data). if type = TEXT then PText data else PBinary data) ms\<rparr>)\<rparr>)"
  using assms
proof (induction ms arbitrary: c x)
  case (Cons m ms)
  obtain type data where m: "m = (type, data)" by fastforce
  define y where "y = x\<lparr>send_queue := send_queue x @ [if type = TEXT then PText data else PBinary data]\<rparr>"
  have "client_send Z False data type c = (True, c\<lparr>cl_ctx := Some y\<rparr>)" "type = TEXT \<or> type = BINARY"
    using Cons.prems by (auto simp: client_send_def sendData_def enqueue_def y_def m)
  then have head: "(if type = TEXT then sendMessage Z False data c else sendBinary Z False data c) = (True, c\<lparr>cl_ctx := Some y\<rparr>)"
    by (auto simp: sendMessage_def sendBinary_def)
  have "send_calls Z ms (c\<lparr>cl_ctx := Some y\<rparr>) = (replicate (length ms) True, c\<lparr>cl_ctx := Some y\<rparr>\<lparr>cl_ctx := Some (y\<lparr>send_queue :=
      send_queue y @ map (\<lambda>(type, data). if type = TEXT then PText data else PBinary data) ms\<rparr>)\<rparr>)"
    by (rule Cons.IH) (use Cons.prems in \<open>simp_all add: y_def\<close>)
  then show ?case by (simp add: m head y_def)
qed simp

text \<open>Whatever the order, and before the connection is open, every call succeeds and no message is lost, doubled or taken out of the
  order of its thread.\<close>

lemma message_thread_data: "length message_thread = 7" "list_all (\<lambda>m. fst m = TEXT \<or> fst m = BINARY) message_thread"
  by (simp_all add: message_thread_def upt_rec)

lemma subseq_shuffles:
  assumes "zs \<in> shuffles xs ys"
  shows "subseq xs zs" "subseq ys zs"
  using assms by (induction xs ys arbitrary: zs rule: shuffles.induct) (auto intro: subseq_order.order_refl)

lemma subseq_framed: "subseq xs ys \<Longrightarrow> subseq (a # xs @ [b]) (a # ys @ [b])"
  by simp

theorem threads_all_queued:
  assumes "ms \<in> threads_orders" "cl_ctx c = Some x" "connection_state x = CONNECTING" "send_queue x = []"
  shows "\<exists>c' y. send_calls Z ms c = (replicate 10 True, c') \<and> cl_ctx c' = Some y \<and>
    send_queue y = map (\<lambda>(type, data). if type = TEXT then PText data else PBinary data) ms \<and>
    subseq (main_first # message_thread @ [main_last]) ms \<and> subseq [main_first, main_binary, main_last] ms"
proof -
  obtain zs where ms: "ms = main_first # zs @ [main_last]" "zs \<in> shuffles message_thread [main_binary]"
    using assms(1) by (auto simp: threads_orders_def)
  have zs: "length zs = 8" "set zs = set message_thread \<union> {main_binary}"
    using length_shuffles [OF ms(2)] set_shuffles [OF ms(2)] message_thread_data(1) by simp_all
  then have data: "length ms = 10" "list_all (\<lambda>m. fst m = TEXT \<or> fst m = BINARY) ms"
    using message_thread_data(2) by (auto simp: ms(1) list_all_iff main_first_def main_last_def main_binary_def)
  have "subseq message_thread zs" "subseq [main_binary] zs" using ms(2) by (simp_all add: subseq_shuffles)
  then have "subseq (main_first # message_thread @ [main_last]) ms" "subseq (main_first # [main_binary] @ [main_last]) ms"
    using subseq_framed by (simp_all only: ms(1))
  moreover have "length (send_queue x) + length ms \<le> MAX_QUEUE_SIZE" by (simp add: assms(4) data(1) MAX_QUEUE_SIZE_def)
  ultimately show ?thesis using send_calls_connecting [OF assms(2,3) _ data(2), of Z] by (simp add: data(1) assms(4))
qed

end
