(* ===== verification/Ownership.thy ===== *)
theory Ownership
  imports Tls
begin

text \<open>
  WebSocketTLSContext as the owner of its SSL_CTX: the destructor, the moves, \<open>reset\<close> and \<open>init\<close>, over all
  objects of the class and all contexts OpenSSL has handed out.
\<close>

section \<open>Objects and contexts\<close>

text \<open>The objects that exist with the pointer \<open>_ctx\<close> of each, the number of contexts \<open>SSL_CTX_new\<close> has handed out, which are
  numbered from 0, and the calls of \<open>SSL_CTX_free\<close>.\<close>

record tls_store =
  objects :: "nat set"
  slot :: "nat \<Rightarrow> nat option"
  created :: nat
  released :: "nat list"

definition tls_reset :: "nat \<Rightarrow> tls_store \<Rightarrow> tls_store" where
  "tls_reset i s =
     (case slot s i of
        None \<Rightarrow> s
      | Some p \<Rightarrow> s\<lparr>released := released s @ [p], slot := (slot s)(i := None)\<rparr>)"

definition tls_construct :: "nat \<Rightarrow> tls_store \<Rightarrow> tls_store" where
  "tls_construct i s = s\<lparr>objects := insert i (objects s), slot := (slot s)(i := None)\<rparr>"

definition tls_move :: "nat \<Rightarrow> nat \<Rightarrow> tls_store \<Rightarrow> tls_store" where
  "tls_move i other s = s\<lparr>objects := insert i (objects s), slot := (slot s)(i := slot s other, other := None)\<rparr>"

definition tls_assign :: "nat \<Rightarrow> nat \<Rightarrow> tls_store \<Rightarrow> tls_store" where
  "tls_assign i other s =
     (if i \<noteq> other then
        (let s1 = tls_reset i s in s1\<lparr>slot := (slot s1)(i := slot s1 other, other := None)\<rparr>)
      else s)"

definition tls_destroy :: "nat \<Rightarrow> tls_store \<Rightarrow> tls_store" where
  "tls_destroy i s = (let s1 = tls_reset i s in s1\<lparr>objects := objects s1 - {i}\<rparr>)"

text \<open>\<open>init\<close> on the store, by the calls it makes on OpenSSL: where there is none, no context has been made.\<close>

definition tls_store_init :: "openssl \<Rightarrow> WebSocketTLSOptions \<Rightarrow> nat \<Rightarrow> tls_store \<Rightarrow> tls_store" where
  "tls_store_init Lib opt i s =
     (let s1 = tls_reset i s in
      case tls_init Lib opt of
        (res, ctx, calls) \<Rightarrow>
          if calls = [] then s1
          else s1\<lparr>created := created s1 + 1,
                  released := released s1 @ (if last calls = CtxFree then [created s1] else []),
                  slot := (slot s1)(i := (if ctx = None then None else Some (created s1)))\<rparr>)"

text \<open>What can happen to the objects.\<close>

inductive tls_step :: "tls_store \<Rightarrow> tls_store \<Rightarrow> bool" where
  constructs: "i \<notin> objects s \<Longrightarrow> tls_step s (tls_construct i s)"
| moves: "i \<notin> objects s \<Longrightarrow> j \<in> objects s \<Longrightarrow> tls_step s (tls_move i j s)"
| assigns: "i \<in> objects s \<Longrightarrow> j \<in> objects s \<Longrightarrow> tls_step s (tls_assign i j s)"
| resets: "i \<in> objects s \<Longrightarrow> tls_step s (tls_reset i s)"
| inits: "i \<in> objects s \<Longrightarrow> tls_step s (tls_store_init Lib opt i s)"
| destroys: "i \<in> objects s \<Longrightarrow> tls_step s (tls_destroy i s)"

definition tls_nothing :: "tls_store \<Rightarrow> bool" where
  "tls_nothing s \<longleftrightarrow> objects s = {} \<and> slot s = (\<lambda>_. None) \<and> created s = 0 \<and> released s = []"

section \<open>The invariant\<close>

text \<open>Every context handed out is either held by one object or has been released, once.\<close>

definition owned_once :: "tls_store \<Rightarrow> bool" where
  "owned_once s \<longleftrightarrow> inj_on (slot s) (dom (slot s)) \<and> dom (slot s) \<subseteq> objects s \<and> distinct (released s) \<and>
     ran (slot s) \<inter> set (released s) = {} \<and> ran (slot s) \<union> set (released s) = {..<created s}"

lemma ran_reset:
  assumes "inj_on (slot s) (dom (slot s))" "slot s i = Some p"
  shows "ran ((slot s)(i := None)) = ran (slot s) - {p}"
proof -
  have "q \<in> ran ((slot s)(i := None))" if "slot s k = Some q" "q \<noteq> p" for k q
    by (rule ranI [of _ k]) (use that assms(2) in auto)
  then have others: "ran (slot s) - {p} \<subseteq> ran ((slot s)(i := None))" unfolding ran_def by blast
  have "slot s k \<noteq> Some p" if "k \<noteq> i" for k
    using that assms inj_onD [OF assms(1), of k i] by auto
  then have "ran ((slot s)(i := None)) \<subseteq> ran (slot s) - {p}" by (auto simp: ran_def split: if_split_asm)
  with others show ?thesis by blast
qed

lemma owned_once_reset:
  assumes "owned_once s"
  shows "owned_once (tls_reset i s) \<and> slot (tls_reset i s) i = None \<and> objects (tls_reset i s) = objects s"
proof (cases "slot s i")
  case (Some p)
  then have "p \<in> ran (slot s)" "inj_on (slot s) (dom (slot s))" using assms by (auto simp: owned_once_def ranI)
  moreover note ran_reset [OF this(2) Some]
  ultimately show ?thesis using assms Some
    by (auto simp: owned_once_def tls_reset_def inj_on_def dom_def split: if_split_asm)
qed (use assms in \<open>simp add: tls_reset_def\<close>)

text \<open>A pointer changes its owner.\<close>

lemma ran_handed_over:
  assumes "m i = None" "i \<noteq> j"
  shows "ran (m(i := m j, j := None)) = ran m"
proof -
  have "p \<in> ran (m(i := m j, j := None))" if "m k = Some p" for k p
  proof (cases "k = j")
    case True
    then show ?thesis using that assms by (intro ranI [of _ i]) simp
  next
    case False
    then show ?thesis using that assms by (intro ranI [of _ k]) auto
  qed
  then have "ran m \<subseteq> ran (m(i := m j, j := None))" unfolding ran_def by blast
  moreover have "ran (m(i := m j, j := None)) \<subseteq> ran m" by (auto simp: ran_def split: if_split_asm)
  ultimately show ?thesis by blast
qed

lemma owned_once_hand_over:
  assumes "owned_once s" "slot s i = None" "i \<noteq> j"
  shows "owned_once (s\<lparr>objects := insert i (objects s), slot := (slot s)(i := slot s j, j := None)\<rparr>)"
proof -
  have "inj_on (slot s) (dom (slot s))" "dom (slot s) \<subseteq> objects s" using assms(1) by (simp_all add: owned_once_def)
  then have "inj_on ((slot s)(i := slot s j, j := None)) (dom ((slot s)(i := slot s j, j := None)))"
    "dom ((slot s)(i := slot s j, j := None)) \<subseteq> insert i (objects s)"
    using assms(2,3) by (auto simp: inj_on_def dom_def split: if_split_asm)
  then show ?thesis using assms ran_handed_over [of "slot s" i j] by (simp add: owned_once_def)
qed

lemma owned_once_init:
  assumes "owned_once s" "i \<in> objects s"
  shows "owned_once (tls_store_init Lib opt i s)"
proof -
  define t where "t = tls_reset i s"
  have t: "owned_once t" "slot t i = None" "i \<in> objects t" using owned_once_reset [OF assms(1), of i] assms(2) by (simp_all add: t_def)
  have new: "created t \<notin> ran (slot t)" "created t \<notin> set (released t)" using t(1) by (auto simp: owned_once_def)
  obtain res ctx calls where run: "tls_init Lib opt = (res, ctx, calls)" by (metis prod_cases3)
  consider (none) "calls = []" | (failed) "calls \<noteq> []" "last calls = CtxFree" "ctx = None"
    | (made) "calls \<noteq> []" "last calls \<noteq> CtxFree" "ctx \<noteq> None"
  proof (cases res)
    case (Inl e)
    then show ?thesis using that(1,2) tls_init_outcome [of Lib opt] run by (cases "calls = []") auto
  next
    case (Inr u)
    have "CtxFree \<notin> set (tls_plan opt)" by (auto simp: tls_plan_def)
    then have "last (tls_plan opt) \<noteq> CtxFree" if "tls_plan opt \<noteq> []" using last_in_set [OF that] by metis
    then show ?thesis using that(1,3) tls_init_outcome [of Lib opt] run Inr by (cases "calls = []") auto
  qed
  then show ?thesis
  proof cases
    case none
    then show ?thesis using t(1) by (simp add: tls_store_init_def run flip: t_def)
  next
    case failed
    have "(slot t)(i := None) = slot t" using t(2) by (simp add: fun_upd_idem)
    then show ?thesis using t(1) new failed
      by (auto simp: tls_store_init_def run owned_once_def lessThan_Suc simp flip: t_def)
  next
    case made
    have "ran ((slot t)(i \<mapsto> created t)) = insert (created t) (ran (slot t))" using t(2) by simp
    moreover have "inj_on ((slot t)(i \<mapsto> created t)) (dom ((slot t)(i \<mapsto> created t)))"
      using t(1) new(1) by (auto simp: owned_once_def inj_on_def dom_def ran_def split: if_split_asm)
    ultimately show ?thesis using t(1,3) new made
      by (auto simp: tls_store_init_def run owned_once_def lessThan_Suc simp flip: t_def)
  qed
qed

lemma owned_once_step:
  assumes "owned_once s" "tls_step s s'"
  shows "owned_once s'"
  using assms(2)
proof cases
  case (constructs i)
  then have "slot s i = None" using assms(1) by (auto simp: owned_once_def)
  then have "(slot s)(i := None) = slot s" by (simp add: fun_upd_idem)
  then show ?thesis using assms(1) constructs by (auto simp: tls_construct_def owned_once_def)
next
  case (moves i j)
  then have "slot s i = None" "i \<noteq> j" using assms(1) by (auto simp: owned_once_def)
  then show ?thesis using owned_once_hand_over [OF assms(1)] moves(1) by (simp add: tls_move_def)
next
  case (assigns i j)
  show ?thesis
  proof (cases "i = j")
    case False
    have t: "owned_once (tls_reset i s)" "slot (tls_reset i s) i = None" "objects (tls_reset i s) = objects s"
      using owned_once_reset [OF assms(1), of i] by simp_all
    have "insert i (objects s) = objects s" using assigns(2) by blast
    then show ?thesis using owned_once_hand_over [OF t(1,2) False] assigns(1) False
      by (simp add: tls_assign_def Let_def t(3)) (metis t(3) tls_store.surjective tls_store.update_convs(1))
  qed (use assms(1) assigns(1) in \<open>simp add: tls_assign_def\<close>)
next
  case (resets i)
  then show ?thesis using owned_once_reset [OF assms(1), of i] by simp
next
  case (inits i Lib opt)
  then show ?thesis using owned_once_init [OF assms(1)] by simp
next
  case (destroys i)
  then show ?thesis using owned_once_reset [OF assms(1), of i] by (auto simp: tls_destroy_def Let_def owned_once_def)
qed

interpretation tls_owner: transition_system tls_nothing tls_step owned_once
proof
  show "owned_once s" if "tls_nothing s" for s using that by (simp add: tls_nothing_def owned_once_def)
qed (use owned_once_step in blast)

text \<open>No context is freed twice or used by two objects, none is freed that an object still holds, and when the last object is
  gone all contexts have been freed.\<close>

theorem contexts_freed_once:
  assumes "reachable tls_nothing tls_step s"
  shows "distinct (released s) \<and> (\<forall>i p. slot s i = Some p \<longrightarrow> p \<notin> set (released s) \<and> (\<forall>j. slot s j = Some p \<longrightarrow> j = i)) \<and>
    (objects s = {} \<longrightarrow> set (released s) = {..<created s})"
proof -
  have ok: "owned_once s" by (rule tls_owner.always [OF assms])
  have "j = i" if "slot s i = Some p" "slot s j = Some p" for i j p
    using ok that inj_onD [of "slot s" "dom (slot s)" j i] by (auto simp: owned_once_def)
  moreover have "slot s = Map.empty" if "objects s = {}" using ok that by (simp add: owned_once_def)
  ultimately show ?thesis using ok by (auto simp: owned_once_def ran_def)
qed

end
