(* ===== verification/Spec2Isabelle.thy ===== *)
theory Spec2Isabelle
  imports Base64 Call Shutdown Loading Logger Resampled Examples Ownership
begin

text \<open>
  This library models the C++ part of fs_websocket_stream: the FreeSWITCH module mod_ws_bridge
  (module/mod_ws_bridge.c, module/ws_bridge_glue.cpp) and the WebSocket client library it is linked with
  (module/libs/libwsc/src). The module attaches to a call, sends the caller's audio to a server over a
  WebSocket connection and plays the audio the server sends back to the caller.

  \<^bold>\<open>Parts and how they meet.\<close> An API command starts a session: it validates the URI, opens a connection
  (\<open>AudioStreamer\<close> owns a \<open>WebSocketClient\<close>, which owns a \<open>WebSocketContext\<close>) and adds a media bug. From
  then on three threads work on the session. The media thread calls \<open>stream_frame\<close> for captured audio,
  which queues binary messages on the connection, and \<open>stream_playback_frame\<close>, which replaces the
  frames the caller is about to hear. The event thread of the connection does the handshake, parses
  frames, answers pings and CLOSE frames, flushes the queue and calls the streamer back, which puts audio
  in the playback buffer and fires events on FreeSWITCH. API threads send text, pause, resume and stop.

  \<^bold>\<open>Theories\<close>, in the order of the imports, with the files they model.

  \<^item> \<open>Prelude\<close>: bytes and byte strings, facts shared by the components, the interfaces \<open>codec\<close> and
    \<open>transition_system\<close>.
  \<^item> \<open>Utf8\<close> (Utf8Validator.h/.cpp, \<open>isValidUtf8\<close> of WebSocketReceiver.cpp, \<open>is_valid_utf8\<close> of
    ws_bridge_glue.cpp): the three UTF-8 checks, against a decoder of scalar values. The streaming
    validator is an interface \<open>chunk_validator\<close>.
  \<^item> \<open>Base64\<close> (base64.cpp): encoder, line breaks, decoder; three interpretations of \<open>codec\<close>.
  \<^item> \<open>ByteOrder\<close>: htons, ntohs and the 64-bit macros. \<open>Text\<close>: the std::string operations in use.
  \<^item> \<open>Tls\<close> (WebSocketTLSOptions.h, WebSocketTLSContext.cpp): the calls made on OpenSSL. \<open>Ownership\<close>: the
    life of the SSL_CTX between the objects of the class.
  \<^item> \<open>Sha1\<close> (sha1.hpp): the digest against FIPS 180-4, and the accept value of the handshake.
  \<^item> \<open>Compression\<close> (WebSocketReceiver.cpp): permessage-deflate, around zlib as a parameter.
  \<^item> \<open>Frame\<close> (\<open>WebSocketContext::send\<close>): the frames the client sends, against a parser of RFC 6455.
  \<^item> \<open>Receiver\<close> (WebSocketReceiver.cpp): the frame loop \<open>onData\<close> and its handlers against a specification
    of RFC 6455 on streams, over the interface \<open>rx_endpoint\<close> of its sinks.
  \<^item> \<open>Handshake\<close>: the request and the reading of the response.
  \<^item> \<open>Context\<close>, \<open>Startup\<close> (WebSocketContext.h/.cpp): the connection object, one definition per method
    and callback, and the event thread before and after the event loop.
  \<^item> \<open>Connection\<close>: the step relation of a connection, the automaton of its trace, the invariant.
    \<open>Lifecycle\<close>: what follows for whole runs.
  \<^item> \<open>Client\<close> (WebSocketClient.h/.cpp, WebSocketHeaders.h): URL parser, settings, sending, ownership.
  \<^item> \<open>Media\<close> (mod_ws_bridge.h): \<open>private_t\<close> and what is relied on of FreeSWITCH and Speex.
    \<open>Playback\<close>: \<open>onBinary\<close>, \<open>clearPlayback\<close>, \<open>stream_playback_frame\<close>. \<open>Uplink\<close>: \<open>stream_frame\<close>.
    \<open>Streamer\<close>: the class AudioStreamer and its callbacks. \<open>Module\<close>: the start and the end of a
    session, the callback of the media bug, the API command (all ws_bridge_glue.cpp and mod_ws_bridge.c).
    \<open>Resampled\<close>: the downlink at another rate, against a specification of what the resampler makes of
    it. \<open>Loading\<close>: the load and the shutdown of the module.
  \<^item> \<open>Logger\<close> (Logger.h): the log macros. \<open>Echo\<close> (examples/autobahn.cpp): the echo client, a second
    endpoint of the receiver.
  \<^item> \<open>Invariant\<close>: the interfaces \<open>loop_property\<close> (what everything but sending keeps), its extension
    \<open>connection_property\<close>, and \<open>lasting_property\<close>, for whatever every operation of the connection object
    keeps. On them rest \<open>Wire\<close> (the bytes written, as a server reads them), \<open>Flush\<close> (the hand-over of
    messages to the event thread, in whole calls and in the steps of which they are made), \<open>Shutdown\<close> (the
    way from \<open>stop\<close> to the end of the event thread) and \<open>Ordering\<close> (the order of the messages of several
    threads, and \<open>sendData\<close> when it acts on a state that has changed).
  \<^item> \<open>Threads\<close>: the pointer \<open>_ctx\<close> of the client and the thread object, with sending and \<open>disconnect\<close> in the
    steps in which the calls of several threads can overlap. \<open>Examples\<close> (examples/autobahn.cpp and
    examples/threads.cpp): the two example programs.
  \<^item> \<open>Session\<close>: everything that can happen to a session, as one type of operations with their invariant.
    \<open>Call\<close>: the layers put together, from the wire to the caller and back.

  \<^bold>\<open>How the code is represented.\<close> A class or struct is a record with its members; a pointer whose target
  is modelled is an option, another one a boolean (null or not). Integers are words of their width, or int
  and nat where the code cannot wrap. A function that can run into undefined behaviour returns a value of
  \<open>fault + 'a\<close>; one that throws or fails returns its error. What the code does through callbacks and the
  socket is recorded in order in \<open>trace\<close> and \<open>out_buf\<close> of the connection and in \<open>fired\<close> of the session.
  Calls made by different threads are the steps of \<open>ws_step\<close>, one call each, in any order: a mutex is held
  for the whole of what is one step.

  Where two calls can overlap and it matters, as in \<open>race_step\<close> of \<open>Flush\<close>, \<open>sendData_seen\<close> of \<open>Ordering\<close>,
  \<open>thread_step\<close> of \<open>Threads\<close> and \<open>send_text_seen\<close> of \<open>Session\<close>, their parts are steps of their own. Everything else
  about sessions is stated for whole operations.

  \<^bold>\<open>Loops.\<close> The loops over buffers (\<open>base64_encode_loop\<close>, \<open>insert_linebreaks_loop\<close>, \<open>rxInflate_loop\<close>,
  \<open>drop_oldest\<close>, \<open>top_up\<close>) are \<open>partial_function (option)\<close>: \<open>None\<close> is a loop that does not end, and that they
  end is part of what is proved. All others recurse on their data. No fuel is used. Bounds: \<open>send_queue\<close>
  has at most 1024 entries, a control frame 125 bytes, a URI array 4096 bytes, metadata 8192 bytes, the id
  of a session 256 bytes; to read an array without a NUL as a string is the fault \<open>Unterminated\<close>. The size of
  the uplink's buffer is an int: a product that leaves the type is the fault \<open>IntOverflow\<close>.

  \<^bold>\<open>Parameters.\<close> zlib and the pullup of the input buffer (\<open>ext\<close>), OpenSSL (\<open>ssl_env\<close>, the digest), the
  start-up of libevent (\<open>run_env\<close>), switch_buffer and Speex (\<open>sw\<close>, \<open>buffer_doc\<close>), cJSON (\<open>cjson\<close>), and
  what FreeSWITCH and the resolver answer (\<open>call_env\<close>). Each documented behaviour a theorem relies on is
  a hypothesis with an instance that satisfies it.

  \<^bold>\<open>What is shown.\<close> For the codecs: correctness against a reference and round trips. For the receiver: it
  implements the stream specification of RFC 6455, independently of how the bytes are cut. For the
  connection: the trace of every reachable state is accepted by an automaton that orders frames and
  callbacks; the CLOSE handshake, the queue, the upgrade; the bytes on the wire are the frames of the trace; a
  queued message has its flush scheduled unless two threads overlap in it; the messages of each thread are
  sent in order and none is lost while the connection is open; \<open>stop\<close> comes to an end unless the
  server has closed first and keeps the transport open; a client with one owner never uses a connection
  that is gone, one with two can. For the module: the downlink is one queue of
  bytes, resampled piece by piece where the rates differ, the uplink collects without loss, a session starts
  with its invariants, ends once and never runs into a fault in whole operations; a stop that overlaps with a text
  command can make it lock a null pointer. End to end: what the server sends is what the caller hears, what is captured is what the
  server reads. Where the code departs from its documentation a theorem shows how.

  \<^bold>\<open>Not modelled.\<close> The overlap of operations on a session other than a text command with a stop; the
  fairness of the event loop and of the scheduler; overlapping calls of \<open>connect\<close> and of the setters of
  the client; the memory order of the atomic variables, which are read and written in one order here; the
  places where the components write to the log, and what the examples print; the Go programs of the
  repository, which are another implementation in another language.
\<close>

end
